(* ===== verification/Prelude.thy ===== *)
theory Prelude
  imports Complex_Main "HOL-Library.Multiset" "HOL-Library.Char_ord" "HOL-Library.List_Lexorder"
begin

text \<open>
  The shared base of the development: the names of the model's types, Go's 64-bit integer
  arithmetic, the error values, keyed rows of a table, and the generic facts on lists, options
  and transition systems that the component theories use.

  Conventions. A Go \<open>string\<close> or \<open>[]byte\<close> is a list of bytes, Isabelle's \<open>string\<close> (a \<open>char\<close> is
  one byte). A Go \<open>int\<close> or \<open>time.Duration\<close> is an \<open>int\<close> inside the range of \<open>int64\<close>, with the
  wrap-around of an operation written out by \<open>i64\<close>. An instant \<open>time.Time\<close> is an \<open>int\<close>, the
  nanoseconds since 1970. A \<open>float64\<close> is the rational number it denotes.
\<close>

section \<open>Types and errors\<close>

type_synonym bytes = string
type_synonym time = int
type_synonym duration = int
type_synonym float64 = rat

text \<open>
  The error values of the program: \<open>errors.New\<close> and \<open>fmt.Errorf\<close> build \<open>Errorf\<close>;
  \<open>sql.ErrNoRows\<close> is the sentinel that two repository methods compare with; the others are the
  constraint, input-syntax and NULL-scan errors of the database layer, kept apart so that a
  property can say which one a caller sees. \<open>Driver\<close> is any other error of a library or service.
\<close>

datatype error =
    Errorf string
  | ErrNoRows
  | UniqueViolation string
  | ForeignKeyViolation string
  | InvalidUuid string
  | ScanNull string
  | Driver string

type_synonym 'a result = "error + 'a"

text \<open>\<open>db.ExecContext\<close>, \<open>Publish\<close> and their kin return only an error, nil when all went well.\<close>

type_synonym err = "error option"

section \<open>64-bit integers\<close>

definition i64 :: "int \<Rightarrow> int" where
  "i64 x = (x + 2 ^ 63) mod 2 ^ 64 - 2 ^ 63"

definition min_i64 :: int where
  "min_i64 = - (2 ^ 63)"

definition max_i64 :: int where
  "max_i64 = 2 ^ 63 - 1"

definition in_i64 :: "int \<Rightarrow> bool" where
  "in_i64 x \<longleftrightarrow> min_i64 \<le> x \<and> x \<le> max_i64"

definition sat_i64 :: "int \<Rightarrow> int" where
  "sat_i64 x = (if x < min_i64 then min_i64 else if max_i64 < x then max_i64 else x)"

lemmas i64_bounds = in_i64_def min_i64_def max_i64_def

lemma in_i64_i64 [simp]: "in_i64 (i64 x)"
proof -
  have "0 \<le> (x + 2 ^ 63) mod 2 ^ 64" and "(x + 2 ^ 63) mod 2 ^ 64 < 2 ^ 64" by simp_all
  then show ?thesis by (simp add: i64_def i64_bounds)
qed

lemma i64_id [simp]: "in_i64 x \<Longrightarrow> i64 x = x"
  by (simp add: i64_def i64_bounds)

lemma in_i64_sat [simp]: "in_i64 (sat_i64 x)"
  by (simp add: sat_i64_def i64_bounds)

lemma sat_i64_id [simp]: "in_i64 x \<Longrightarrow> sat_i64 x = x"
  by (simp add: sat_i64_def i64_bounds)

lemma sat_i64_mono: "x \<le> y \<Longrightarrow> sat_i64 x \<le> sat_i64 y"
  by (simp add: sat_i64_def i64_bounds)

section \<open>Rows addressed by a key column\<close>

text \<open>
  A table is the list of its rows. \<open>row_find\<close> is a \<open>SELECT ... WHERE key = k\<close> on a unique
  column and \<open>row_update\<close> an \<open>UPDATE ... WHERE key = k\<close>.
\<close>

definition row_find :: "('r \<Rightarrow> 'k) \<Rightarrow> 'k \<Rightarrow> 'r list \<Rightarrow> 'r option" where
  "row_find key k t = find (\<lambda>r. key r = k) t"

definition row_update :: "('r \<Rightarrow> 'k) \<Rightarrow> 'k \<Rightarrow> ('r \<Rightarrow> 'r) \<Rightarrow> 'r list \<Rightarrow> 'r list" where
  "row_update key k f t = map (\<lambda>r. if key r = k then f r else r) t"

lemma row_find_None_iff: "row_find key k t = None \<longleftrightarrow> k \<notin> key ` set t"
  by (auto simp: row_find_def find_None_iff)

lemma row_find_SomeD: "row_find key k t = Some r \<Longrightarrow> r \<in> set t \<and> key r = k"
  unfolding row_find_def by (induction t) (auto split: if_splits)

lemma row_find_unique:
  "distinct (map key t) \<Longrightarrow> r \<in> set t \<Longrightarrow> row_find key (key r) t = Some r"
  unfolding row_find_def by (induction t) (auto simp: image_iff)

lemma row_find_append:
  "row_find key k (t @ u) = (case row_find key k t of None \<Rightarrow> row_find key k u | Some r \<Rightarrow> Some r)"
  unfolding row_find_def by (induction t) auto

lemma row_find_snoc:
  "row_find key k (t @ [r]) =
     (case row_find key k t of None \<Rightarrow> if key r = k then Some r else None | Some x \<Rightarrow> Some x)"
  unfolding row_find_def by (induction t) auto

lemma row_find_update:
  assumes "\<And>r. key (f r) = key r"
  shows "row_find key k' (row_update key k f t) =
    (if k' = k then map_option f (row_find key k t) else row_find key k' t)"
  unfolding row_find_def row_update_def by (induction t) (auto simp: assms)

lemma row_update_keys:
  assumes "\<And>r. g (f r) = g r"
  shows "map g (row_update key k f t) = map g t"
  by (simp add: row_update_def assms)

lemma row_update_absent: "k \<notin> key ` set t \<Longrightarrow> row_update key k f t = t"
  unfolding row_update_def by (induction t) auto

lemma set_row_update:
  "set (row_update key k f t) = {r \<in> set t. key r \<noteq> k} \<union> f ` {r \<in> set t. key r = k}"
  by (auto simp: row_update_def image_iff)

section \<open>Ordered selections\<close>

text \<open>
  \<open>ORDER BY c DESC\<close>: a stable sort by the negated column. The rows reach the sort in the order
  the executor scans them, which SQL leaves open; the callers take that order as an argument.
\<close>

definition order_desc :: "('r \<Rightarrow> int) \<Rightarrow> 'r list \<Rightarrow> 'r list" where
  "order_desc c t = sort_key (\<lambda>r. - c r) t"

lemma set_order_desc [simp]: "set (order_desc c t) = set t"
  by (simp add: order_desc_def)

lemma mset_order_desc [simp]: "mset (order_desc c t) = mset t"
  by (simp add: order_desc_def)

lemma length_order_desc [simp]: "length (order_desc c t) = length t"
  by (simp add: order_desc_def)

lemma sorted_order_desc: "sorted_wrt (\<lambda>a b. c b \<le> c a) (order_desc c t)"
proof -
  have "sorted (map (\<lambda>r. - c r) (order_desc c t))"
    by (simp add: order_desc_def)
  then show ?thesis by (simp add: sorted_wrt_map)
qed

lemma order_desc_hd:
  assumes "order_desc c t = r # rest" and "r' \<in> set t"
  shows "c r' \<le> c r"
proof -
  from assms(2) have "r' \<in> set (r # rest)" by (simp flip: assms(1))
  moreover have "sorted_wrt (\<lambda>a b. c b \<le> c a) (r # rest)"
    using sorted_order_desc [of c t] by (simp add: assms(1))
  ultimately show ?thesis by auto
qed

section \<open>Go loops over a slice\<close>

text \<open>The scan loop \<open>for rows.Next() { ...; if err := rows.Scan(...) ... ; res = append(res, x) }\<close>.\<close>

fun scan_rows :: "('r \<Rightarrow> 'a result) \<Rightarrow> 'r list \<Rightarrow> 'a list \<Rightarrow> 'a list result" where
  "scan_rows f [] acc = Inr acc"
| "scan_rows f (r # rs) acc = (case f r of Inl e \<Rightarrow> Inl e | Inr x \<Rightarrow> scan_rows f rs (acc @ [x]))"

lemma scan_rows_total:
  "\<forall>r \<in> set rs. f r = Inr (g r) \<Longrightarrow> scan_rows f rs acc = Inr (acc @ map g rs)"
  by (induction rs arbitrary: acc) auto

lemma scan_rows_Inr_iff:
  "scan_rows f rs acc = Inr xs \<longleftrightarrow>
     (\<exists>ys. xs = acc @ ys \<and> list_all2 (\<lambda>r y. f r = Inr y) rs ys)"
proof (induction rs arbitrary: acc)
  case Nil
  then show ?case by auto
next
  case (Cons r rs)
  then show ?case by (auto simp: list_all2_Cons1 split: sum.splits)
qed

section \<open>Transition systems and their invariants\<close>

text \<open>
  The interface between a component's step relation and its safety properties: a start
  predicate, a labelled step relation and a predicate that holds at the start and survives every
  step. Every component with interleaved steps interprets it.
\<close>

inductive runs :: "('s \<Rightarrow> 'e \<Rightarrow> 's \<Rightarrow> bool) \<Rightarrow> 's \<Rightarrow> 'e list \<Rightarrow> 's \<Rightarrow> bool" for step where
  runs_nil: "runs step s [] s"
| runs_snoc: "runs step s es t \<Longrightarrow> step t e u \<Longrightarrow> runs step s (es @ [e]) u"

lemma runs_append:
  "runs step t fs u \<Longrightarrow> runs step s es t \<Longrightarrow> runs step s (es @ fs) u"
proof (induction rule: runs.induct)
  case (runs_nil s')
  then show ?case by simp
next
  case (runs_snoc t' fs u e v)
  then show ?case using runs.runs_snoc [of step s "es @ fs" u e v] by simp
qed

lemma runs_single: "step s e t \<Longrightarrow> runs step s [e] t"
  using runs.runs_snoc [OF runs.runs_nil, of step s e t] by simp

lemma runs_Cons: "step s e t \<Longrightarrow> runs step t es u \<Longrightarrow> runs step s (e # es) u"
  using runs_append [OF _ runs_single, of step t es u s e] by simp

locale invariant_system =
  fixes start :: "'s \<Rightarrow> bool"
    and step :: "'s \<Rightarrow> 'e \<Rightarrow> 's \<Rightarrow> bool"
    and inv :: "'s \<Rightarrow> bool"
  assumes inv_start: "start s \<Longrightarrow> inv s"
    and inv_step: "inv s \<Longrightarrow> step s e t \<Longrightarrow> inv t"
begin

lemma inv_runs: "runs step s es t \<Longrightarrow> inv s \<Longrightarrow> inv t"
  by (induction rule: runs.induct) (auto intro: inv_step)

lemma inv_reachable: "start s \<Longrightarrow> runs step s es t \<Longrightarrow> inv t"
  by (blast intro: inv_start inv_runs)

end

end
