(* ===== verification/Utf8.thy ===== *)
theory Utf8
  imports Prelude
begin

text \<open>
  Go's conversions between strings and runes, as the language defines them: \<open>[]rune(s)\<close> decodes
  UTF-8 and yields U+FFFD for every byte that does not start a well-formed sequence, and
  \<open>string(rs)\<close> encodes each rune. The queue's \<open>deserialize\<close> goes through both, so what it keeps
  of a message depends on these two functions. The main facts: encoding then decoding is the
  identity on valid runes, decoding then encoding is the identity exactly on valid UTF-8, and an
  ASCII byte always decodes to itself, whatever surrounds it.
\<close>

section \<open>Bytes\<close>

abbreviation byte :: "char \<Rightarrow> nat" where
  "byte c \<equiv> of_char c"

abbreviation mk_byte :: "nat \<Rightarrow> char" where
  "mk_byte n \<equiv> char_of n"

definition ascii :: "string \<Rightarrow> bool" where
  "ascii s \<longleftrightarrow> (\<forall>c \<in> set s. byte c < 128)"

section \<open>Decoding\<close>

definition RuneError :: nat where
  "RuneError = 65533"

definition cont :: "char \<Rightarrow> bool" where
  "cont c \<longleftrightarrow> 128 \<le> byte c \<and> byte c \<le> 191"

text \<open>The accepted ranges of the lead byte and of the second byte of each sequence length.\<close>

definition lead2 :: "char \<Rightarrow> char \<Rightarrow> bool" where
  "lead2 a b \<longleftrightarrow> 194 \<le> byte a \<and> byte a \<le> 223 \<and> cont b"

definition lead3 :: "char \<Rightarrow> char \<Rightarrow> bool" where
  "lead3 a b \<longleftrightarrow> 224 \<le> byte a \<and> byte a \<le> 239 \<and>
     (if byte a = 224 then 160 else 128) \<le> byte b \<and> byte b \<le> (if byte a = 237 then 159 else 191)"

definition lead4 :: "char \<Rightarrow> char \<Rightarrow> bool" where
  "lead4 a b \<longleftrightarrow> 240 \<le> byte a \<and> byte a \<le> 244 \<and>
     (if byte a = 240 then 144 else 128) \<le> byte b \<and> byte b \<le> (if byte a = 244 then 143 else 191)"

text \<open>The first rune of a non-empty string and the number of bytes after the first it takes.\<close>

fun decode_rune :: "char \<Rightarrow> string \<Rightarrow> nat \<times> nat" where
  "decode_rune a s =
     (if byte a < 128 then (byte a, 0)
      else case s of
        [] \<Rightarrow> (RuneError, 0)
      | b # s2 \<Rightarrow>
          if lead2 a b then ((byte a - 192) * 64 + (byte b - 128), 1)
          else (case s2 of
            [] \<Rightarrow> (RuneError, 0)
          | c # s3 \<Rightarrow>
              if lead3 a b \<and> cont c
              then ((byte a - 224) * 4096 + (byte b - 128) * 64 + (byte c - 128), 2)
              else (case s3 of
                [] \<Rightarrow> (RuneError, 0)
              | d # s4 \<Rightarrow>
                  if lead4 a b \<and> cont c \<and> cont d
                  then ((byte a - 240) * 262144 + (byte b - 128) * 4096
                          + (byte c - 128) * 64 + (byte d - 128), 3)
                  else (RuneError, 0))))"

declare decode_rune.simps [simp del]

function runes :: "string \<Rightarrow> nat list" where
  "runes [] = []"
| "runes (a # s) = fst (decode_rune a s) # runes (drop (snd (decode_rune a s)) s)"
  by pat_completeness auto
termination
  by (relation "measure length") auto

section \<open>Encoding\<close>

definition valid_rune :: "nat \<Rightarrow> bool" where
  "valid_rune r \<longleftrightarrow> r < 55296 \<or> (57344 \<le> r \<and> r \<le> 1114111)"

definition encode_valid :: "nat \<Rightarrow> string" where
  "encode_valid r =
     (if r < 128 then [mk_byte r]
      else if r < 2048 then [mk_byte (192 + r div 64), mk_byte (128 + r mod 64)]
      else if r < 65536 then
        [mk_byte (224 + r div 4096), mk_byte (128 + r div 64 mod 64), mk_byte (128 + r mod 64)]
      else
        [mk_byte (240 + r div 262144), mk_byte (128 + r div 4096 mod 64),
         mk_byte (128 + r div 64 mod 64), mk_byte (128 + r mod 64)])"

definition encode_rune :: "nat \<Rightarrow> string" where
  "encode_rune r = (if valid_rune r then encode_valid r else encode_valid RuneError)"

definition string_of_runes :: "nat list \<Rightarrow> string" where
  "string_of_runes rs = concat (map encode_rune rs)"

definition valid_utf8 :: "string \<Rightarrow> bool" where
  "valid_utf8 s \<longleftrightarrow> string_of_runes (runes s) = s"

lemma string_of_runes_simps [simp]:
  "string_of_runes [] = []"
  "string_of_runes (r # rs) = encode_rune r @ string_of_runes rs"
  "string_of_runes (rs @ qs) = string_of_runes rs @ string_of_runes qs"
  by (simp_all add: string_of_runes_def)

section \<open>One rune\<close>

lemma of_mk_byte [simp]: "n < 256 \<Longrightarrow> byte (mk_byte n) = n"
  by (simp add: of_char_of)

lemma decode_ascii [simp]: "byte a < 128 \<Longrightarrow> decode_rune a s = (byte a, 0)"
  by (simp add: decode_rune.simps)

lemma list3_cases [case_names Nil One Two More]:
  assumes "xs = [] \<Longrightarrow> P" and "\<And>x. xs = [x] \<Longrightarrow> P" and "\<And>x y. xs = [x, y] \<Longrightarrow> P"
    and "\<And>x y z zs. xs = x # y # z # zs \<Longrightarrow> P"
  shows P
proof (cases xs)
  case Nil
  then show ?thesis by (rule assms(1))
next
  case (Cons x ys)
  note xs = this
  show ?thesis
  proof (cases ys)
    case Nil
    then show ?thesis using xs assms(2) by simp
  next
    case (Cons y zs)
    then show ?thesis using xs assms(3,4) by (cases zs) simp_all
  qed
qed

text \<open>The three multi-byte equations of \<open>decode_rune\<close>, and its exhaustive case distinction.\<close>

lemma decode2:
  "lead2 a b \<Longrightarrow> decode_rune a (b # s) = ((byte a - 192) * 64 + (byte b - 128), 1)"
  by (subst decode_rune.simps) (simp add: lead2_def)

lemma decode3:
  assumes "lead3 a b" and "cont c"
  shows "decode_rune a (b # c # s) =
    ((byte a - 224) * 4096 + (byte b - 128) * 64 + (byte c - 128), 2)"
proof -
  have "\<not> byte a < 128" and "\<not> lead2 a b"
    using assms(1) by (auto simp: lead2_def lead3_def)
  then show ?thesis using assms by (subst decode_rune.simps) simp
qed

lemma decode4:
  assumes "lead4 a b" and "cont c" and "cont d"
  shows "decode_rune a (b # c # d # s) =
    ((byte a - 240) * 262144 + (byte b - 128) * 4096 + (byte c - 128) * 64 + (byte d - 128), 3)"
proof -
  have "\<not> byte a < 128" and "\<not> lead2 a b" and "\<not> lead3 a b"
    using assms(1) by (auto simp: lead2_def lead3_def lead4_def)
  then show ?thesis using assms by (subst decode_rune.simps) simp
qed

lemma decode_rune_cases [case_names Ascii Two Three Four Bad]:
  obtains (Ascii) "byte a < 128"
  | (Two) b t where "s = b # t" and "lead2 a b"
  | (Three) b c t where "s = b # c # t" and "lead3 a b" and "cont c"
  | (Four) b c d t where "s = b # c # d # t" and "lead4 a b" and "cont c" and "cont d"
  | (Bad) "128 \<le> byte a" and "decode_rune a s = (RuneError, 0)"
      and "\<And>b t. s = b # t \<Longrightarrow> \<not> lead2 a b"
      and "\<And>b c t. s = b # c # t \<Longrightarrow> \<not> (lead3 a b \<and> cont c)"
      and "\<And>b c d t. s = b # c # d # t \<Longrightarrow> \<not> (lead4 a b \<and> cont c \<and> cont d)"
proof (cases "byte a < 128")
  case True
  then show ?thesis by (rule that(1))
next
  case False
  show ?thesis
  proof (rule ccontr)
    assume no: "\<not> thesis"
    have n2: "\<not> lead2 a b" if "s = b # t" for b t
      using no that(1) Two by blast
    have n3: "\<not> (lead3 a b \<and> cont c)" if "s = b # c # t" for b c t
      using no that(1) Three by blast
    have n4: "\<not> (lead4 a b \<and> cont c \<and> cont d)" if "s = b # c # d # t" for b c d t
      using no that(1) Four by blast
    have dec: "decode_rune a s = (RuneError, 0)"
    proof (subst decode_rune.simps, use False n2 n3 n4 in \<open>cases s rule: list3_cases\<close>)
    qed simp_all
    from False have "128 \<le> byte a" by simp
    from this dec n2 n3 n4 have thesis by (rule Bad)
    with no show False by contradiction
  qed
qed

lemma base64_split:
  fixes r :: nat
  shows "r = r div 4096 * 4096 + r div 64 mod 64 * 64 + r mod 64"
    and "r = r div 262144 * 262144 + r div 4096 mod 64 * 4096 + r div 64 mod 64 * 64 + r mod 64"
proof -
  have 1: "r = r div 64 * 64 + r mod 64" by simp
  have 2: "r div 64 = r div 4096 * 64 + r div 64 mod 64"
    using div_mult_mod_eq [of "r div 64" 64] by (simp add: div_mult2_eq [symmetric])
  have 3: "r div 4096 = r div 262144 * 64 + r div 4096 mod 64"
    using div_mult_mod_eq [of "r div 4096" 64] by (simp add: div_mult2_eq [symmetric])
  show "r = r div 4096 * 4096 + r div 64 mod 64 * 64 + r mod 64"
    using 1 2 by linarith
  then show "r = r div 262144 * 262144 + r div 4096 mod 64 * 4096 + r div 64 mod 64 * 64 + r mod 64"
    using 3 by linarith
qed

lemma decode_encode2:
  assumes "128 \<le> r" and "r < 2048"
  shows "decode_rune (mk_byte (192 + r div 64)) (mk_byte (128 + r mod 64) # s) = (r, 1)"
proof -
  define x y where "x = r div 64" and "y = r mod 64"
  have r: "r = x * 64 + y" by (simp add: x_def y_def)
  have xy: "2 \<le> x" "x < 32" "y < 64" using assms by (auto simp: x_def y_def)
  have "lead2 (mk_byte (192 + x)) (mk_byte (128 + y))"
    using xy by (simp add: lead2_def cont_def)
  then have "decode_rune (mk_byte (192 + x)) (mk_byte (128 + y) # s) = (r, 1)"
    using xy by (simp add: decode2 r)
  then show ?thesis by (simp add: x_def y_def)
qed

lemma decode_encode3:
  assumes "2048 \<le> r" and "r < 65536" and "valid_rune r"
  shows "decode_rune (mk_byte (224 + r div 4096))
     (mk_byte (128 + r div 64 mod 64) # mk_byte (128 + r mod 64) # s) = (r, 2)"
proof -
  define x y z where "x = r div 4096" and "y = r div 64 mod 64" and "z = r mod 64"
  have r: "r = x * 4096 + y * 64 + z" using base64_split [of r] by (simp add: x_def y_def z_def)
  have yz: "y < 64" "z < 64" by (simp_all add: y_def z_def)
  have x: "x < 16" using assms(2) by (auto simp: x_def)
  have lo: "x = 0 \<longrightarrow> 32 \<le> y" using r yz assms(1) by linarith
  have hi: "x = 13 \<longrightarrow> y \<le> 31"
  proof
    assume "x = 13"
    with r yz assms(3) have "y * 64 + z < 2048" by (auto simp: valid_rune_def)
    then show "y \<le> 31" by simp
  qed
  have "lead3 (mk_byte (224 + x)) (mk_byte (128 + y))" and "cont (mk_byte (128 + z))"
    using x yz lo hi by (auto simp: lead3_def cont_def)
  then have "decode_rune (mk_byte (224 + x)) (mk_byte (128 + y) # mk_byte (128 + z) # s) = (r, 2)"
    using x yz by (simp add: decode3 r)
  then show ?thesis by (simp add: x_def y_def z_def)
qed

lemma decode_encode4:
  assumes "65536 \<le> r" and "valid_rune r"
  shows "decode_rune (mk_byte (240 + r div 262144))
     (mk_byte (128 + r div 4096 mod 64) # mk_byte (128 + r div 64 mod 64)
        # mk_byte (128 + r mod 64) # s) = (r, 3)"
proof -
  define w x y z where "w = r div 262144" and "x = r div 4096 mod 64"
    and "y = r div 64 mod 64" and "z = r mod 64"
  have r: "r = w * 262144 + x * 4096 + y * 64 + z"
    using base64_split [of r] by (simp add: w_def x_def y_def z_def)
  have xyz: "x < 64" "y < 64" "z < 64" by (simp_all add: x_def y_def z_def)
  have r_hi: "r \<le> 1114111" using assms by (auto simp: valid_rune_def)
  have w: "w \<le> 4" using r_hi unfolding w_def by auto
  have lo: "w = 0 \<longrightarrow> 16 \<le> x" using r xyz assms(1) by linarith
  have hi: "w = 4 \<longrightarrow> x \<le> 15" using r xyz r_hi by linarith
  have "lead4 (mk_byte (240 + w)) (mk_byte (128 + x))"
    and "cont (mk_byte (128 + y))" and "cont (mk_byte (128 + z))"
    using w xyz lo hi by (auto simp: lead4_def cont_def)
  then have "decode_rune (mk_byte (240 + w))
     (mk_byte (128 + x) # mk_byte (128 + y) # mk_byte (128 + z) # s) = (r, 3)"
    using w xyz by (simp add: decode4 r)
  then show ?thesis by (simp add: w_def x_def y_def z_def)
qed

lemma valid_RuneError [simp]: "valid_rune RuneError"
  by (simp add: valid_rune_def RuneError_def)

lemma decode_rune_valid: "valid_rune (fst (decode_rune a s))"
proof (cases rule: decode_rune_cases [where a = a and s = s])
  case Ascii
  then show ?thesis by (simp add: valid_rune_def)
next
  case (Two b t)
  then show ?thesis by (auto simp: decode2 lead2_def cont_def valid_rune_def)
next
  case (Three b c t)
  then show ?thesis by (auto simp: decode3 lead3_def cont_def valid_rune_def split: if_splits)
next
  case (Four b c d t)
  then show ?thesis by (auto simp: decode4 lead4_def cont_def valid_rune_def split: if_splits)
next
  case Bad
  then show ?thesis by simp
qed


lemma runes_encode_valid:
  assumes "valid_rune r"
  shows "runes (encode_valid r @ s) = r # runes s"
proof -
  consider "r < 128" | "128 \<le> r" "r < 2048" | "2048 \<le> r" "r < 65536" | "65536 \<le> r"
    by linarith
  then show ?thesis
  proof cases
    case 1
    then show ?thesis by (simp add: encode_valid_def)
  next
    case 2
    then show ?thesis by (simp add: encode_valid_def decode_encode2)
  next
    case 3
    then show ?thesis using assms by (simp add: encode_valid_def decode_encode3)
  next
    case 4
    then show ?thesis using assms by (simp add: encode_valid_def decode_encode4)
  qed
qed

lemma runes_encode_rune:
  "runes (encode_rune r @ s) = (if valid_rune r then r else RuneError) # runes s"
  by (simp add: encode_rune_def runes_encode_valid)

section \<open>Whole strings\<close>

lemma runes_string_of_runes_append:
  "runes (string_of_runes rs @ s) = map (\<lambda>r. if valid_rune r then r else RuneError) rs @ runes s"
  by (induction rs) (simp_all add: runes_encode_rune)

lemma runes_string_of_runes:
  "\<forall>r \<in> set rs. valid_rune r \<Longrightarrow> runes (string_of_runes rs) = rs"
  using runes_string_of_runes_append [of rs "[]"] by (auto intro: map_idI)

lemma runes_valid: "r \<in> set (runes s) \<Longrightarrow> valid_rune r"
  by (induction s rule: runes.induct) (auto simp: decode_rune_valid)

lemma valid_utf8_string_of_runes [simp]: "valid_utf8 (string_of_runes rs)"
proof -
  have "encode_rune (if valid_rune r then r else RuneError) = encode_rune r" for r
    by (simp add: encode_rune_def)
  then have "string_of_runes (map (\<lambda>r. if valid_rune r then r else RuneError) rs) = string_of_runes rs"
    by (simp add: string_of_runes_def comp_def)
  then show ?thesis
    using runes_string_of_runes_append [of rs "[]"] by (simp add: valid_utf8_def)
qed

lemma runes_append_valid: "valid_utf8 s \<Longrightarrow> runes (s @ t) = runes s @ runes t"
  using runes_string_of_runes_append [of "runes s" t]
  by (auto simp: valid_utf8_def runes_valid intro: map_idI)

lemma decode_rune_sync:
  assumes "byte a < 128"
  shows "decode_rune x (s @ a # t) = decode_rune x s"
proof (cases rule: decode_rune_cases [where a = x and s = s])
  case Ascii
  then show ?thesis by simp
next
  case (Two b u)
  then show ?thesis by (simp add: decode2)
next
  case (Three b c u)
  then show ?thesis by (simp add: decode3)
next
  case (Four b c d u)
  then show ?thesis by (simp add: decode4)
next
  case Bad
  have no_cont: "\<not> cont a" "\<not> lead2 x a" "\<not> lead3 x a" "\<not> lead4 x a"
    using assms by (auto simp: cont_def lead2_def lead3_def lead4_def split: if_splits)
  show ?thesis
  proof (cases rule: decode_rune_cases [where a = x and s = "s @ a # t"])
    case Ascii
    with Bad show ?thesis by simp
  next
    case (Two b u)
    with Bad no_cont show ?thesis by (cases s) auto
  next
    case (Three b c u)
    with Bad no_cont show ?thesis by (cases s rule: list3_cases) auto
  next
    case (Four b c d u)
    with Bad no_cont show ?thesis by (cases s rule: list3_cases) auto
  next
    case Bad': Bad
    with Bad show ?thesis by simp
  qed
qed

lemma decode_rune_width: "snd (decode_rune a s) \<le> length s"
  by (cases rule: decode_rune_cases [where a = a and s = s])
    (auto simp: decode2 decode3 decode4)

lemma runes_ascii_split:
  assumes "byte a < 128"
  shows "runes (s @ a # t) = runes s @ byte a # runes t"
proof (induction s rule: runes.induct)
  case 1
  then show ?case using assms by simp
next
  case (2 x s)
  have "drop (snd (decode_rune x s)) (s @ a # t) = drop (snd (decode_rune x s)) s @ a # t"
    using decode_rune_width [of x s] by simp
  with 2 show ?case using assms by (simp add: decode_rune_sync)
qed

lemma fst_decode_ascii_iff:
  assumes "n < 128"
  shows "fst (decode_rune a s) = n \<longleftrightarrow> byte a = n"
proof (cases rule: decode_rune_cases [where a = a and s = s])
  case Ascii
  then show ?thesis by simp
next
  case (Two b t)
  then show ?thesis using assms by (auto simp: decode2 lead2_def cont_def)
next
  case (Three b c t)
  then show ?thesis using assms by (auto simp: decode3 lead3_def cont_def split: if_splits)
next
  case (Four b c d t)
  then show ?thesis using assms by (auto simp: decode4 lead4_def cont_def split: if_splits)
next
  case Bad
  then show ?thesis using assms by (auto simp: RuneError_def)
qed

lemma decode_skips_no_ascii:
  assumes "c \<in> set (take (snd (decode_rune a s)) s)"
  shows "128 \<le> byte c"
  using assms
  by (cases rule: decode_rune_cases [where a = a and s = s])
    (auto simp: decode2 decode3 decode4 lead2_def lead3_def lead4_def cont_def
       split: if_splits)

lemma ascii_rune_iff:
  assumes "byte c < 128"
  shows "byte c \<in> set (runes s) \<longleftrightarrow> c \<in> set s"
proof (induction s rule: runes.induct)
  case 1
  then show ?case by simp
next
  case (2 a s)
  have "set s = set (take (snd (decode_rune a s)) s) \<union> set (drop (snd (decode_rune a s)) s)"
    by (metis append_take_drop_id set_append)
  moreover have "c \<notin> set (take (snd (decode_rune a s)) s)"
    using decode_skips_no_ascii [of c a s] assms by auto
  ultimately show ?case
    using 2 fst_decode_ascii_iff [OF assms, of a s] by (auto simp: eq_commute)
qed

lemma runes_ascii: "ascii s \<Longrightarrow> runes s = map byte s"
  by (induction s) (simp_all add: ascii_def)

lemma encode_ascii: "n < 128 \<Longrightarrow> encode_rune n = [mk_byte n]"
  by (simp add: encode_rune_def encode_valid_def valid_rune_def)

lemma valid_utf8_ascii: "ascii s \<Longrightarrow> valid_utf8 s"
  unfolding valid_utf8_def
  by (simp add: runes_ascii) (induction s; simp add: ascii_def encode_ascii)

end
