(* ===== verification/Float64.thy ===== *)
theory Float64
  imports Prelude
begin

text \<open>
  Go's \<open>float64\<close> arithmetic on finite values: every operation is the exact rational operation
  followed by rounding to the nearest number with a 53-bit significand, ties to even (IEEE 754
  binary64). The exponent range is left unbounded: the values the program computes (minutes,
  seconds, request rates, fractions of a duration unit) are zero or between 2^-70 and 2^130, far
  inside the range of normal numbers. The locale \<open>rounding\<close> states what the clients rely on, and
  the interpretation at the end discharges it for \<open>rnd\<close>.
\<close>

section \<open>The interface: a monotone rounding with a bounded relative error\<close>

locale rounding =
  fixes rd :: "rat \<Rightarrow> rat" and eps :: rat
  assumes rd_mono: "x \<le> y \<Longrightarrow> rd x \<le> rd y"
    and rd_error: "\<bar>rd x - x\<bar> \<le> eps * \<bar>x\<bar>"
    and eps_nonneg: "0 \<le> eps"
    and rd_minus: "rd (- x) = - rd x"
begin

lemma rd_zero [simp]: "rd 0 = 0"
  using rd_error [of 0] by simp

lemma rd_nonneg: "0 \<le> x \<Longrightarrow> 0 \<le> rd x"
  using rd_mono [of 0 x] by simp

lemma rd_nonpos: "x \<le> 0 \<Longrightarrow> rd x \<le> 0"
  using rd_mono [of x 0] by simp

lemma rd_upper: "0 \<le> x \<Longrightarrow> rd x \<le> x * (1 + eps)"
  using rd_error [of x] by (simp add: algebra_simps abs_le_iff)

lemma rd_lower: "0 \<le> x \<Longrightarrow> x * (1 - eps) \<le> rd x"
  using rd_error [of x] by (simp add: algebra_simps abs_le_iff)

lemma rd_upper_le: "0 \<le> x \<Longrightarrow> x \<le> y \<Longrightarrow> rd x \<le> y * (1 + eps)"
  using rd_upper [of y] rd_mono [of x y] by linarith

text \<open>Two rounded quotients added and multiplied by a rounded factor, as in a rate computation.\<close>

lemma rd_scaled_sum_upper:
  assumes "0 \<le> a" "0 \<le> b" "0 \<le> c"
  shows "rd (rd (rd a + rd b) * rd c) \<le> (a + b) * c * (1 + eps) ^ 4"
proof -
  let ?e = "1 + eps"
  have e: "0 \<le> ?e" using eps_nonneg by simp
  have "rd a + rd b \<le> (a + b) * ?e"
    using rd_upper [OF assms(1)] rd_upper [OF assms(2)] by (simp add: algebra_simps)
  moreover have nn: "0 \<le> rd a + rd b" using assms by (simp add: rd_nonneg)
  ultimately have sum: "rd (rd a + rd b) \<le> (a + b) * ?e * ?e"
    by (rule rd_upper_le [rotated])
  have "rd (rd a + rd b) * rd c \<le> ((a + b) * ?e * ?e) * (c * ?e)"
    using sum rd_upper [OF assms(3)] nn assms e
    by (intro mult_mono) (simp_all add: rd_nonneg)
  moreover have "0 \<le> rd (rd a + rd b) * rd c" using nn assms by (simp add: rd_nonneg)
  ultimately have "rd (rd (rd a + rd b) * rd c) \<le> ((a + b) * ?e * ?e) * (c * ?e) * ?e"
    by (rule rd_upper_le [rotated])
  also have "\<dots> = (a + b) * c * ?e ^ 4" by (simp add: power4_eq_xxxx)
  finally show ?thesis .
qed

end

section \<open>Round to nearest, ties to even\<close>

definition rne :: "rat \<Rightarrow> int" where
  "rne x =
     (let f = \<lfloor>x\<rfloor>; d = x - of_int f
      in if d < 1 / 2 then f else if 1 / 2 < d then f + 1 else if even f then f else f + 1)"

fun ilog :: "nat \<Rightarrow> nat \<Rightarrow> nat" where
  "ilog b n = (if n < b \<or> b < 2 then 0 else Suc (ilog b (n div b)))"

declare ilog.simps [simp del]

text \<open>The exponent of a positive rational in base \<open>b\<close>: \<open>b powi k \<le> q < b powi (k + 1)\<close>.\<close>

definition base_expo :: "nat \<Rightarrow> rat \<Rightarrow> int" where
  "base_expo b q =
     (let (n, d) = quotient_of q; k = int (ilog b (nat n)) - int (ilog b (nat d))
      in if of_nat b powi k \<le> q then k else k - 1)"

definition expo :: "rat \<Rightarrow> int" where
  "expo q = base_expo 2 q"

definition ulp :: "rat \<Rightarrow> rat" where
  "ulp q = 2 powi (expo q - 52)"

definition rnd_pos :: "rat \<Rightarrow> rat" where
  "rnd_pos q = of_int (rne (q / ulp q)) * ulp q"

definition rnd :: "rat \<Rightarrow> float64" where
  "rnd q = (if q = 0 then 0 else if q < 0 then - rnd_pos (- q) else rnd_pos q)"

definition eps64 :: rat where
  "eps64 = 1 / 2 ^ 53"

section \<open>Correctness of the rounding\<close>

lemma rne_error: "\<bar>of_int (rne x) - x\<bar> \<le> 1 / 2"
proof -
  have "of_int \<lfloor>x\<rfloor> \<le> x" and "x < of_int \<lfloor>x\<rfloor> + 1" by linarith+
  then show ?thesis by (auto simp: rne_def Let_def abs_le_iff field_simps)
qed

lemma rne_of_int [simp]: "rne (of_int i) = i"
  by (simp add: rne_def)

lemma rne_mono:
  assumes "x \<le> y"
  shows "rne x \<le> rne y"
proof (cases "\<lfloor>x\<rfloor> = \<lfloor>y\<rfloor>")
  case True
  then show ?thesis using assms by (auto simp: rne_def Let_def)
next
  case False
  with assms have "\<lfloor>x\<rfloor> + 1 \<le> \<lfloor>y\<rfloor>" using floor_mono [of x y] by simp
  moreover have "rne x \<le> \<lfloor>x\<rfloor> + 1" and "\<lfloor>y\<rfloor> \<le> rne y" by (auto simp: rne_def Let_def)
  ultimately show ?thesis by linarith
qed

lemma ilog_bounds: "0 < n \<Longrightarrow> 2 \<le> b \<Longrightarrow> b ^ ilog b n \<le> n \<and> n < b ^ Suc (ilog b n)"
proof (induction b n rule: ilog.induct)
  case (1 b n)
  show ?case
  proof (cases "n < b")
    case True
    with "1.prems" show ?thesis by (simp add: ilog.simps [of b n])
  next
    case False
    then have "0 < n div b" using "1.prems" by (simp add: div_greater_zero_iff)
    with False "1.IH" "1.prems" have ih: "b ^ ilog b (n div b) \<le> n div b" "n div b < b ^ Suc (ilog b (n div b))"
      by simp_all
    have "b * b ^ ilog b (n div b) \<le> n"
      using mult_le_mono2 [OF ih(1), of b] times_div_less_eq_dividend [of b n] by (rule le_trans)
    moreover have "n < b * b ^ Suc (ilog b (n div b))"
      using ih(2) "1.prems" by (simp add: less_mult_imp_div_less div_less_iff_less_mult mult.commute)
    ultimately show ?thesis using False "1.prems" by (simp add: ilog.simps [of b n])
  qed
qed

lemma base_expo_bounds:
  assumes "0 < q" and b: "2 \<le> b"
  shows "of_nat b powi base_expo b q \<le> q" and "q < of_nat b powi (base_expo b q + 1)"
proof -
  let ?b = "of_nat b :: rat"
  have b0: "0 < ?b" using b by simp
  obtain n d where nd: "quotient_of q = (n, d)" by (cases "quotient_of q")
  have q: "q = of_int n / of_int d" and d: "0 < d"
    using quotient_of_div [OF nd] quotient_of_denom_pos [OF nd] by simp_all
  have n: "0 < n" using assms d by (simp add: q zero_less_divide_iff)
  define i j where "i = ilog b (nat n)" and "j = ilog b (nat d)"
  have "b ^ i \<le> nat n" "nat n < b ^ Suc i" "b ^ j \<le> nat d" "nat d < b ^ Suc j"
    using ilog_bounds [of "nat n" b] ilog_bounds [of "nat d" b] n d b by (simp_all add: i_def j_def)
  then have "rat_of_nat (b ^ i) \<le> of_nat (nat n)" "rat_of_nat (nat n) < of_nat (b ^ Suc i)"
    "rat_of_nat (b ^ j) \<le> of_nat (nat d)" "rat_of_nat (nat d) < of_nat (b ^ Suc j)"
    by (simp_all only: of_nat_le_iff of_nat_less_iff)
  then have nr: "?b ^ i \<le> of_int n" "of_int n < ?b ^ Suc i"
    and dr: "?b ^ j \<le> of_int d" "of_int d < ?b ^ Suc j"
    using n d by simp_all
  have lo: "?b powi (int i - int j - 1) < q"
  proof -
    have "?b ^ i / ?b ^ Suc j < of_int n / of_int d"
      using nr dr d b0 by (intro frac_less2) simp_all
    then show ?thesis using b0 by (simp add: q power_int_diff power_int_add field_simps)
  qed
  have hi: "q < ?b powi (int i - int j + 1)"
  proof -
    have "of_int n / of_int d < ?b ^ Suc i / ?b ^ j"
      using nr dr n b0 by (intro frac_less) simp_all
    then show ?thesis using b0 by (simp add: q power_int_diff power_int_add field_simps)
  qed
  have e: "base_expo b q = (if ?b powi (int i - int j) \<le> q then int i - int j else int i - int j - 1)"
    by (simp add: base_expo_def nd i_def j_def)
  show "?b powi base_expo b q \<le> q" using lo e by auto
  show "q < ?b powi (base_expo b q + 1)" using hi e by auto
qed

lemma expo_bounds:
  assumes "0 < q"
  shows "2 powi expo q \<le> q" and "q < 2 powi (expo q + 1)"
  using base_expo_bounds [OF assms, of 2] by (simp_all add: expo_def)

lemma ulp_pos [simp]: "0 < ulp q"
  by (simp add: ulp_def)

lemma ulp_scaled:
  assumes "0 < q"
  shows "2 ^ 52 \<le> q / ulp q" and "q / ulp q < 2 ^ 53"
proof -
  have u: "2 powi expo q = 2 ^ 52 * ulp q" "2 powi (expo q + 1) = 2 ^ 53 * ulp q"
    by (simp_all add: ulp_def power_int_diff power_int_add)
  show "2 ^ 52 \<le> q / ulp q"
    using expo_bounds(1) [OF assms] by (simp add: u pos_le_divide_eq)
  show "q / ulp q < 2 ^ 53"
    using expo_bounds(2) [OF assms] by (simp add: u pos_divide_less_eq)
qed

lemma expo_mono:
  assumes "0 < x" and "x \<le> y"
  shows "expo x \<le> expo y"
proof (rule ccontr)
  assume "\<not> expo x \<le> expo y"
  then have "(2::rat) powi (expo y + 1) \<le> 2 powi expo x" by (intro power_int_increasing) simp_all
  with expo_bounds(1) [OF assms(1)] expo_bounds(2) [of y] assms show False by simp
qed

lemma rnd_pos_lower: "0 < q \<Longrightarrow> 2 powi expo q \<le> rnd_pos q"
proof -
  assume q: "0 < q"
  have "rne (of_int (2 ^ 52)) \<le> rne (q / ulp q)"
    by (rule rne_mono) (use ulp_scaled(1) [OF q] in simp)
  then have "2 ^ 52 \<le> rne (q / ulp q)" by (simp only: rne_of_int)
  then have "rat_of_int (2 ^ 52) \<le> of_int (rne (q / ulp q))" by (simp only: of_int_le_iff)
  then have "2 ^ 52 * ulp q \<le> rnd_pos q"
    by (simp add: rnd_pos_def mult_right_mono)
  then show ?thesis by (simp add: ulp_def power_int_diff)
qed

lemma rnd_pos_upper: "0 < q \<Longrightarrow> rnd_pos q \<le> 2 powi (expo q + 1)"
proof -
  assume q: "0 < q"
  have "rne (q / ulp q) \<le> rne (of_int (2 ^ 53))"
    by (rule rne_mono) (use ulp_scaled(2) [OF q] in simp)
  then have "rne (q / ulp q) \<le> 2 ^ 53" by (simp only: rne_of_int)
  then have "rat_of_int (rne (q / ulp q)) \<le> of_int (2 ^ 53)" by (simp only: of_int_le_iff)
  then have "rnd_pos q \<le> 2 ^ 53 * ulp q"
    by (simp add: rnd_pos_def mult_right_mono)
  then show ?thesis by (simp add: ulp_def power_int_diff power_int_add)
qed

lemma rnd_pos_mono:
  assumes "0 < x" and "x \<le> y"
  shows "rnd_pos x \<le> rnd_pos y"
proof (cases "expo x = expo y")
  case True
  then have u: "ulp x = ulp y" by (simp add: ulp_def)
  have "x / ulp y \<le> y / ulp y"
    using assms(2) by (simp add: divide_right_mono less_imp_le)
  then have "rat_of_int (rne (x / ulp y)) \<le> of_int (rne (y / ulp y))"
    by (simp add: rne_mono)
  then show ?thesis by (simp add: rnd_pos_def u mult_right_mono less_imp_le)
next
  case False
  with expo_mono [OF assms] have "(2::rat) powi (expo x + 1) \<le> 2 powi expo y"
    by (intro power_int_increasing) simp_all
  with rnd_pos_upper [OF assms(1)] rnd_pos_lower [of y] assms show ?thesis by simp
qed

lemma rnd_pos_error:
  assumes "0 < q"
  shows "\<bar>rnd_pos q - q\<bar> \<le> eps64 * q"
proof -
  have "rnd_pos q - q = (of_int (rne (q / ulp q)) - q / ulp q) * ulp q"
    by (simp add: rnd_pos_def left_diff_distrib less_imp_neq [symmetric])
  then have "\<bar>rnd_pos q - q\<bar> = \<bar>of_int (rne (q / ulp q)) - q / ulp q\<bar> * ulp q"
    by (simp add: abs_mult abs_of_pos)
  also have "\<dots> \<le> 1 / 2 * ulp q"
    by (intro mult_right_mono rne_error) (simp add: less_imp_le)
  also have "\<dots> \<le> eps64 * q"
    using ulp_scaled(1) [OF assms] by (simp add: eps64_def pos_le_divide_eq field_simps)
  finally show ?thesis .
qed

lemma rnd_mono:
  assumes "x \<le> y"
  shows "rnd x \<le> rnd y"
proof -
  have pos: "0 < z \<Longrightarrow> 0 < rnd_pos z" for z
    using rnd_pos_lower [of z] zero_less_power_int [of "2::rat" "expo z"] by linarith
  show ?thesis
  proof (cases "0 < x \<or> y < 0")
    case True
    then show ?thesis
      using assms rnd_pos_mono [of x y] rnd_pos_mono [of "- y" "- x"] by (auto simp: rnd_def)
  next
    case False
    then have "rnd x \<le> 0" and "0 \<le> rnd y"
      using pos [of "- x"] pos [of y] by (auto simp: rnd_def)
    then show ?thesis by simp
  qed
qed

interpretation f64: rounding rnd eps64
proof
  show "rnd x \<le> rnd y" if "x \<le> y" for x y using that by (rule rnd_mono)
  show "\<bar>rnd x - x\<bar> \<le> eps64 * \<bar>x\<bar>" for x
    using rnd_pos_error [of x] rnd_pos_error [of "- x"]
    by (auto simp: rnd_def abs_minus_commute)
  show "0 \<le> eps64" by (simp add: eps64_def)
  show "rnd (- x) = - rnd x" for x by (simp add: rnd_def)
qed

text \<open>Integers of at most 53 bits are represented exactly.\<close>

lemma rnd_of_int:
  assumes "\<bar>m\<bar> < 2 ^ 53"
  shows "rnd (of_int m) = of_int m"
proof -
  have pos: "rnd_pos (of_int i) = of_int i" if i: "0 < i" "i < 2 ^ 53" for i :: int
  proof -
    let ?q = "rat_of_int i"
    have q: "0 < ?q" using i by simp
    have "?q < rat_of_int (2 ^ 53)" using i(2) by (simp only: of_int_less_iff)
    then have "?q < 2 powi 53" by simp
    with expo_bounds(1) [OF q] have lt: "(2::rat) powi expo ?q < 2 powi 53" by (rule le_less_trans)
    have "expo ?q \<le> 52"
    proof (rule ccontr)
      assume "\<not> expo ?q \<le> 52"
      then have "(2::rat) powi 53 \<le> 2 powi expo ?q" by (intro power_int_increasing) simp_all
      with lt show False by simp
    qed
    then obtain k where "52 - expo ?q = int k" using zero_le_imp_eq_int [of "52 - expo ?q"] by auto
    then have k: "expo ?q - 52 = - int k" by simp
    have u: "ulp ?q = 1 / 2 ^ k" by (simp add: ulp_def k power_int_minus field_simps)
    have "?q / ulp ?q = of_int (i * 2 ^ k)" by (simp add: u)
    then have "rne (?q / ulp ?q) = i * 2 ^ k" by (simp only: rne_of_int)
    then show ?thesis by (simp add: rnd_pos_def u)
  qed
  show ?thesis
    using pos [of m] pos [of "- m"] assms by (auto simp: rnd_def)
qed

end
