(* ===== verification/GoLib.thy ===== *)
theory GoLib
  imports Utf8 Float64 "HOL-Library.Sublist"
begin

text \<open>
  The parts of Go's standard library that the program calls and whose results decide its
  behaviour: float64 arithmetic and conversions, \<open>time.Duration\<close> (truncating division,
  \<open>Seconds\<close>, \<open>Minutes\<close>, \<open>Sub\<close>, \<open>ParseDuration\<close>), decimal text of integers (\<open>%d\<close> printing,
  \<open>strconv.Atoi\<close>, \<open>fmt.Sscanf\<close> with \<open>%d\<close>) and the \<open>strings\<close> functions.
\<close>

section \<open>float64\<close>

definition f64_of_int :: "int \<Rightarrow> float64" where
  "f64_of_int i = rnd (of_int i)"

definition f64_add :: "float64 \<Rightarrow> float64 \<Rightarrow> float64" where
  "f64_add x y = rnd (x + y)"

definition f64_mul :: "float64 \<Rightarrow> float64 \<Rightarrow> float64" where
  "f64_mul x y = rnd (x * y)"

definition f64_div :: "float64 \<Rightarrow> float64 \<Rightarrow> float64" where
  "f64_div x y = rnd (x / y)"

lemmas f64_defs = f64_of_int_def f64_add_def f64_mul_def f64_div_def

text \<open>
  The conversion \<open>int(x)\<close> discards the fraction. Where the result does not fit, the language
  leaves the value to the implementation: the argument \<open>oor\<close>.
\<close>

definition trunc :: "rat \<Rightarrow> int" where
  "trunc x = (if 0 \<le> x then \<lfloor>x\<rfloor> else - \<lfloor>- x\<rfloor>)"

definition f64_to_int :: "(float64 \<Rightarrow> int) \<Rightarrow> float64 \<Rightarrow> int" where
  "f64_to_int oor x = (if in_i64 (trunc x) then trunc x else oor x)"

lemma trunc_le: "0 \<le> x \<Longrightarrow> of_int (trunc x) \<le> x"
  by (simp add: trunc_def)

lemma trunc_mono_nonneg: "0 \<le> x \<Longrightarrow> x \<le> y \<Longrightarrow> trunc x \<le> trunc y"
  by (simp add: trunc_def floor_mono)

lemma trunc_nonneg: "0 \<le> x \<Longrightarrow> 0 \<le> trunc x"
  by (simp add: trunc_def)

lemma trunc_nonpos: "x \<le> 0 \<Longrightarrow> trunc x \<le> 0"
  by (simp add: trunc_def)

section \<open>Durations and instants\<close>

definition Second :: duration where
  "Second = 1000000000"

definition Minute :: duration where
  "Minute = 60 * Second"

definition Hour :: duration where
  "Hour = 60 * Minute"

lemmas duration_units = Second_def Minute_def Hour_def

definition quo :: "int \<Rightarrow> int \<Rightarrow> int" where
  "quo a b = sgn a * sgn b * (\<bar>a\<bar> div \<bar>b\<bar>)"

definition rmd :: "int \<Rightarrow> int \<Rightarrow> int" where
  "rmd a b = a - quo a b * b"

lemma quo_rmd: "quo a b * b + rmd a b = a"
  by (simp add: rmd_def)

lemma quo_nonneg: "0 \<le> a \<Longrightarrow> 0 < b \<Longrightarrow> quo a b = a div b"
  by (cases "a = 0") (simp_all add: quo_def)

lemma rmd_nonneg: "0 \<le> a \<Longrightarrow> 0 < b \<Longrightarrow> rmd a b = a mod b"
  by (simp add: rmd_def quo_nonneg minus_div_mult_eq_mod)

definition Seconds :: "duration \<Rightarrow> float64" where
  "Seconds d = f64_add (f64_of_int (quo d Second)) (f64_div (f64_of_int (rmd d Second)) 1000000000)"

definition Minutes :: "duration \<Rightarrow> float64" where
  "Minutes d = f64_add (f64_of_int (quo d Minute)) (f64_div (f64_of_int (rmd d Minute)) 60000000000)"

text \<open>\<open>t.Sub(u)\<close> saturates at the bounds of a Duration; \<open>t.Add(d)\<close> is exact on the instants met.\<close>

definition Sub :: "time \<Rightarrow> time \<Rightarrow> duration" where
  "Sub t u = sat_i64 (t - u)"

text \<open>January 1 of year 1, the zero value of \<open>time.Time\<close>.\<close>

definition zero_time :: time where
  "zero_time = - 62135596800000000000"

lemma quo_minus: "quo (- a) b = - quo a b"
  by (simp add: quo_def)

lemma rmd_minus: "rmd (- a) b = - rmd a b"
  by (simp add: rmd_def quo_minus)

lemma Minutes_minus: "Minutes (- d) = - Minutes d"
proof -
  have "rnd (- a - b) = - rnd (a + b)" for a b
    using f64.rd_minus [of "a + b"] by simp
  then show ?thesis
    by (simp add: Minutes_def f64_defs quo_minus rmd_minus f64.rd_minus)
qed

lemma Minutes_nonneg: "0 \<le> d \<Longrightarrow> 0 \<le> Minutes d"
  by (simp add: Minutes_def f64_defs f64.rd_nonneg quo_nonneg rmd_nonneg duration_units)

lemma trunc_minus: "trunc (- x) = - trunc x"
  by (cases "x = 0") (auto simp: trunc_def)

lemma Minutes_ge_one:
  assumes "Minute \<le> d"
  shows "1 \<le> Minutes d"
proof -
  have d: "0 \<le> d" "0 < Minute" using assms by (simp_all add: duration_units)
  have one: "rnd 1 = 1" using rnd_of_int [of 1] by simp
  have "1 \<le> d div Minute" using assms d by (simp add: pos_imp_zdiv_pos_iff int_one_le_iff_zero_less)
  then have "1 \<le> f64_of_int (quo d Minute)"
    using f64.rd_mono [of 1 "of_int (d div Minute)"] d one by (simp add: f64_of_int_def quo_nonneg)
  moreover have "0 \<le> f64_div (f64_of_int (rmd d Minute)) 60000000000"
    using d by (simp add: f64_defs f64.rd_nonneg rmd_nonneg)
  ultimately have "1 \<le> f64_of_int (quo d Minute) + f64_div (f64_of_int (rmd d Minute)) 60000000000"
    by simp
  then show ?thesis using f64.rd_mono one by (fastforce simp: Minutes_def f64_add_def)
qed

section \<open>Decimal integers\<close>

definition digit :: "char \<Rightarrow> bool" where
  "digit c \<longleftrightarrow> 48 \<le> byte c \<and> byte c \<le> 57"

fun nat_text :: "nat \<Rightarrow> string" where
  "nat_text n = (if n < 10 then [mk_byte (48 + n)] else nat_text (n div 10) @ [mk_byte (48 + n mod 10)])"

declare nat_text.simps [simp del]

definition int_text :: "int \<Rightarrow> string" where
  "int_text i = (if i < 0 then CHR ''-'' # nat_text (nat (- i)) else nat_text (nat i))"

definition digits_value :: "string \<Rightarrow> nat" where
  "digits_value s = foldl (\<lambda>n c. 10 * n + (byte c - 48)) 0 s"

text \<open>
  \<open>strconv.Atoi\<close>: an optional sign and decimal digits. The result is the value and whether it was
  read without an error; a value out of range is the nearest bound together with an error.
\<close>

definition Atoi :: "string \<Rightarrow> int \<times> bool" where
  "Atoi s =
     (let neg = (s \<noteq> [] \<and> hd s = CHR ''-'');
          t = (if s \<noteq> [] \<and> (hd s = CHR ''-'' \<or> hd s = CHR ''+'') then tl s else s)
      in if t = [] \<or> \<not> list_all digit t then (0, False)
         else let v = (if neg then - int (digits_value t) else int (digits_value t))
              in (sat_i64 v, in_i64 v))"

lemma digits_value_snoc: "digits_value (s @ [c]) = 10 * digits_value s + (byte c - 48)"
  by (simp add: digits_value_def)

lemma digit_mk_byte: "n < 10 \<Longrightarrow> digit (mk_byte (48 + n))"
  by (simp add: digit_def)

lemma nat_text_digits: "list_all digit (nat_text n)"
proof (induction n rule: nat_text.induct)
  case (1 n)
  then show ?case by (subst nat_text.simps) (simp add: digit_mk_byte)
qed

lemma nat_text_nonempty: "nat_text n \<noteq> []"
  by (subst nat_text.simps) simp

lemma digits_value_nat_text: "digits_value (nat_text n) = n"
proof (induction n rule: nat_text.induct)
  case (1 n)
  then show ?case
    by (subst nat_text.simps) (auto simp: digits_value_snoc, simp add: digits_value_def)
qed

lemma digit_no_sign: "digit c \<Longrightarrow> c \<noteq> CHR ''-'' \<and> c \<noteq> CHR ''+''"
  by (auto simp: digit_def)

lemma hd_nat_text: "digit (hd (nat_text n))"
  using nat_text_digits [of n] nat_text_nonempty [of n] by (cases "nat_text n") simp_all

lemma Atoi_int_text:
  assumes "in_i64 i"
  shows "Atoi (int_text i) = (i, True)"
proof (cases "i < 0")
  case True
  then show ?thesis
    using assms by (simp add: Atoi_def int_text_def nat_text_nonempty nat_text_digits digits_value_nat_text)
next
  case False
  then show ?thesis
    using assms digit_no_sign [OF hd_nat_text [of "nat i"]]
    by (simp add: Atoi_def int_text_def nat_text_nonempty nat_text_digits digits_value_nat_text)
qed

text \<open>
  \<open>fmt.Sscanf(s, "%d", &n)\<close>: leading spaces (but no newline), an optional sign, at least one
  digit; whatever follows the digits is not looked at.
\<close>

definition space_runes :: "nat list" where
  "space_runes = [9, 10, 11, 12, 13, 32, 133, 160, 5760, 8192, 8193, 8194, 8195, 8196, 8197, 8198,
     8199, 8200, 8201, 8202, 8232, 8233, 8239, 8287, 12288]"

definition Sscanf_d :: "string \<Rightarrow> int option" where
  "Sscanf_d s =
     (let rs = dropWhile (\<lambda>r. r \<noteq> 10 \<and> r \<in> set space_runes) (runes s);
          neg = (rs \<noteq> [] \<and> hd rs = 45);
          t = (if rs \<noteq> [] \<and> (hd rs = 45 \<or> hd rs = 43) then tl rs else rs);
          ds = takeWhile (\<lambda>r. 48 \<le> r \<and> r \<le> 57) t
      in if ds = [] then None
         else let n = int (digits_value (map mk_byte ds)); v = (if neg then - n else n)
              in if in_i64 v then Some v else None)"

section \<open>Strings\<close>

definition HasPrefix :: "string \<Rightarrow> string \<Rightarrow> bool" where
  "HasPrefix s p \<longleftrightarrow> take (length p) s = p"

fun Contains :: "string \<Rightarrow> string \<Rightarrow> bool" where
  "Contains [] p \<longleftrightarrow> p = []"
| "Contains (c # s) p \<longleftrightarrow> HasPrefix (c # s) p \<or> Contains s p"

fun Join :: "string list \<Rightarrow> string \<Rightarrow> string" where
  "Join [] sep = []"
| "Join [x] sep = x"
| "Join (x # y # ys) sep = x @ sep @ Join (y # ys) sep"

definition lower_ascii :: "nat \<Rightarrow> nat" where
  "lower_ascii r = (if 65 \<le> r \<and> r \<le> 90 then r + 32 else r)"

text \<open>
  \<open>strings.ToLower\<close>: the bytes of an ASCII string, otherwise rune by rune with the Unicode tables
  of the standard library; \<open>lower\<close> is that table for the runes beyond ASCII.
\<close>

definition ToLower :: "(nat \<Rightarrow> nat) \<Rightarrow> string \<Rightarrow> string" where
  "ToLower lower s =
     (if ascii s then map (\<lambda>c. mk_byte (lower_ascii (byte c))) s
      else string_of_runes (map (\<lambda>r. if r < 128 then lower_ascii r else lower r) (runes s)))"

text \<open>\<open>strings.TrimSpace\<close>: the encodings of white-space runes are cut off both ends.\<close>

definition space_prefix :: "string list \<Rightarrow> string \<Rightarrow> string option" where
  "space_prefix encs s = find (HasPrefix s) encs"

function trim_left :: "string list \<Rightarrow> string \<Rightarrow> string" where
  "trim_left encs s =
     (case space_prefix encs s of
        None \<Rightarrow> s
      | Some e \<Rightarrow> if e = [] then s else trim_left encs (drop (length e) s))"
  by pat_completeness auto
termination
proof (relation "measure (\<lambda>(encs, s). length s)", simp)
  fix encs :: "string list" and s e
  assume e: "space_prefix encs s = Some e" "e \<noteq> []"
  then have "HasPrefix s e" by (auto simp: space_prefix_def find_Some_iff)
  with e(2) have "s \<noteq> []" by (auto simp: HasPrefix_def)
  with e(2) show "((encs, drop (length e) s), (encs, s)) \<in> measure (\<lambda>(encs, s). length s)" by simp
qed

declare trim_left.simps [simp del]

definition TrimSpace :: "string \<Rightarrow> string" where
  "TrimSpace s =
     (let encs = map encode_rune space_runes
      in rev (trim_left (map rev encs) (rev (trim_left encs s))))"

text \<open>Text of visible ASCII characters is not trimmed.\<close>

definition visible :: "string \<Rightarrow> bool" where
  "visible s \<longleftrightarrow> list_all (\<lambda>c. 32 < byte c \<and> byte c < 128) s"

lemma trim_left_unchanged:
  assumes "\<forall>e \<in> set encs. e \<noteq> [] \<and> \<not> (32 < byte (hd e) \<and> byte (hd e) < 128)" and "visible s"
  shows "trim_left encs s = s"
proof -
  have "\<not> HasPrefix s e" if "e \<in> set encs" for e
  proof
    assume "HasPrefix s e"
    moreover have e: "e \<noteq> []" "\<not> (32 < byte (hd e) \<and> byte (hd e) < 128)" using that assms(1) by blast+
    ultimately have "s \<noteq> []" "hd s = hd e"
      unfolding HasPrefix_def by (metis take_Nil, metis hd_take length_greater_0_conv)
    with assms(2) e(2) show False by (cases s) (simp_all add: visible_def)
  qed
  then have "space_prefix encs s = None" by (auto simp: space_prefix_def find_None_iff)
  then show ?thesis by (simp add: trim_left.simps)
qed

lemma space_encodings:
  "list_all (\<lambda>e. e \<noteq> [] \<and> \<not> (32 < byte (hd e) \<and> byte (hd e) < 128)
     \<and> \<not> (32 < byte (last e) \<and> byte (last e) < 128)) (map encode_rune space_runes)"
  by (simp add: space_runes_def encode_rune_def encode_valid_def valid_rune_def)

lemma TrimSpace_visible: "visible s \<Longrightarrow> TrimSpace s = s"
  using space_encodings
  by (simp add: TrimSpace_def trim_left_unchanged list_all_iff hd_rev visible_def)

end
