(* ===== verification/RateLimit.thy ===== *)
theory RateLimit
  imports GoLib
begin

text \<open>
  The per-client token bucket of \<open>src/internal/httpmiddleware/ratelimit.go\<close>: its state, \<open>allow\<close>
  with its float64 refill and the 64-bit token counter, and the middleware around it. The
  lemmas: the counter stays between 0 and the capacity, clients do not influence each other, the
  number of admitted requests is bounded by the capacity plus the rate times the elapsed time
  (up to the four roundings of the refill), and a client that has waited a minute is admitted.
\<close>

section \<open>State and operations\<close>

record bucket =
  tokens :: int
  last :: time

record SimpleTokenBucket =
  capacity :: int
  rate :: int
  state :: "string \<rightharpoonup> bucket"

definition NewSimpleTokenBucket :: "int \<Rightarrow> int \<Rightarrow> SimpleTokenBucket" where
  "NewSimpleTokenBucket cap perMinute =
     \<lparr>capacity = (if cap \<le> 0 then perMinute else cap), rate = perMinute, state = Map.empty\<rparr>"

text \<open>
  The refill of a known bucket: \<open>int(elapsed * float64(l.rate))\<close>, where \<open>oor\<close> is the compiler's
  result for a product outside the range of \<open>int\<close>.
\<close>

definition refill_amount :: "(float64 \<Rightarrow> int) \<Rightarrow> int \<Rightarrow> time \<Rightarrow> time \<Rightarrow> int" where
  "refill_amount oor r prev now =
     f64_to_int oor (f64_mul (Minutes (Sub now prev)) (f64_of_int r))"

definition refill_bucket :: "(float64 \<Rightarrow> int) \<Rightarrow> int \<Rightarrow> int \<Rightarrow> bucket \<Rightarrow> time \<Rightarrow> bucket" where
  "refill_bucket oor cap r b now =
     (let refill = refill_amount oor r (last b) now
      in if refill > 0
         then let t = i64 (tokens b + refill)
              in b\<lparr>tokens := (if t > cap then cap else t), last := now\<rparr>
         else b)"

text \<open>
  \<open>allow\<close> runs under the limiter's mutex, so a call is one step. The map holds pointers: the
  bucket is updated in place on every path, the rejecting one too.
\<close>

definition allow ::
  "(float64 \<Rightarrow> int) \<Rightarrow> SimpleTokenBucket \<Rightarrow> string \<Rightarrow> time \<Rightarrow> bool \<times> SimpleTokenBucket" where
  "allow oor l key now =
     (case state l key of
        None \<Rightarrow>
          (True, l\<lparr>state := (state l)(key \<mapsto> \<lparr>tokens = i64 (capacity l - 1), last = now\<rparr>)\<rparr>)
      | Some b0 \<Rightarrow>
          let b = refill_bucket oor (capacity l) (rate l) b0 now
          in if tokens b \<le> 0
             then (False, l\<lparr>state := (state l)(key \<mapsto> b)\<rparr>)
             else (True, l\<lparr>state := (state l)(key \<mapsto> b\<lparr>tokens := i64 (tokens b - 1)\<rparr>)\<rparr>))"

text \<open>The middleware: an empty client address is counted under \<open>unknown\<close>.\<close>

definition rate_limited ::
  "(float64 \<Rightarrow> int) \<Rightarrow> SimpleTokenBucket \<Rightarrow> string \<Rightarrow> time \<Rightarrow> bool \<times> SimpleTokenBucket" where
  "rate_limited oor l ip now =
     (case allow oor l (if ip = [] then ''unknown'' else ip) now of (ok, l') \<Rightarrow> (\<not> ok, l'))"

text \<open>A sequence of calls: the verdicts in order and the final state.\<close>

fun allow_all ::
  "(float64 \<Rightarrow> int) \<Rightarrow> SimpleTokenBucket \<Rightarrow> (string \<times> time) list \<Rightarrow> bool list \<times> SimpleTokenBucket"
where
  "allow_all oor l [] = ([], l)"
| "allow_all oor l ((k, now) # rs) =
     (case allow oor l k now of (v, l') \<Rightarrow>
        case allow_all oor l' rs of (vs, l'') \<Rightarrow> (v # vs, l''))"

section \<open>The refill\<close>

text \<open>The parameters a deployment uses: a positive capacity and a rate below 2^31 a minute.\<close>

definition sane :: "SimpleTokenBucket \<Rightarrow> bool" where
  "sane l \<longleftrightarrow> 0 < capacity l \<and> capacity l \<le> 2 ^ 62 \<and> 0 \<le> rate l \<and> rate l < 2 ^ 31"

lemma refill_product_upper:
  assumes "0 \<le> d" and "0 \<le> r"
  shows "f64_mul (Minutes d) (f64_of_int r) \<le> of_int d / of_int Minute * of_int r * (1 + eps64) ^ 4"
proof -
  have m: "0 < Minute" by (simp add: duration_units)
  have "\<bar>d mod Minute\<bar> < 2 ^ 53"
    using pos_mod_bound [OF m, of d] pos_mod_sign [OF m, of d] by (simp add: duration_units)
  then have exact: "rnd (of_int (d mod Minute)) = of_int (d mod Minute)" by (rule rnd_of_int)
  have "of_int d = of_int (d div Minute) * of_int Minute + rat_of_int (d mod Minute)"
    by (simp flip: of_int_mult of_int_add)
  then have split: "of_int (d div Minute) + of_int (d mod Minute) / 60000000000
      = rat_of_int d / of_int Minute"
    by (simp add: duration_units field_simps)
  have "f64_mul (Minutes d) (f64_of_int r) =
      rnd (rnd (rnd (of_int (d div Minute)) + rnd (of_int (d mod Minute) / 60000000000)) * rnd (of_int r))"
    using assms m by (simp add: Minutes_def f64_defs quo_nonneg rmd_nonneg exact)
  also have "\<dots> \<le> (of_int (d div Minute) + of_int (d mod Minute) / 60000000000) * of_int r
      * (1 + eps64) ^ 4"
    using assms m by (intro f64.rd_scaled_sum_upper) (simp_all add: pos_imp_zdiv_nonneg_iff)
  finally show ?thesis by (simp add: split)
qed

lemma refill_product_nonneg: "0 \<le> d \<Longrightarrow> 0 \<le> r \<Longrightarrow> 0 \<le> f64_mul (Minutes d) (f64_of_int r)"
  by (simp add: f64_mul_def f64_of_int_def f64.rd_nonneg Minutes_nonneg)

lemma eps_pow4: "(1 + eps64) ^ 4 \<le> 2"
  by (simp add: eps64_def power4_eq_xxxx)

lemma refill_product_range:
  assumes "0 \<le> d" and "d \<le> max_i64 + 1" and "0 \<le> r" and "r < 2 ^ 31"
  shows "f64_mul (Minutes d) (f64_of_int r) \<le> 2 ^ 60"
proof -
  have "rat_of_int d \<le> of_int (2 ^ 63)" "rat_of_int r \<le> of_int (2 ^ 31)"
    using assms by (simp_all only: of_int_le_iff max_i64_def)
  then have "of_int d / of_int Minute * of_int r * (1 + eps64) ^ 4 \<le>
      (2 ^ 63 / of_int Minute) * 2 ^ 31 * 2"
    using assms eps_pow4
    by (intro mult_mono divide_right_mono) (simp_all add: duration_units eps64_def)
  also have "\<dots> \<le> 2 ^ 60" by (simp add: duration_units)
  finally show ?thesis using refill_product_upper [OF assms(1,3)] by linarith
qed

lemma Sub_range: "min_i64 \<le> Sub t u" "Sub t u \<le> max_i64"
  using in_i64_sat [of "t - u"] by (simp_all add: Sub_def in_i64_def)

text \<open>In the deployed range the conversion is defined, so \<open>oor\<close> never shows.\<close>

lemma refill_amount_eq:
  assumes "0 \<le> r" and "r < 2 ^ 31"
  shows "refill_amount oor r prev now = trunc (f64_mul (Minutes (Sub now prev)) (f64_of_int r))"
    and "\<bar>refill_amount oor r prev now\<bar> \<le> 2 ^ 60"
proof -
  let ?d = "Sub now prev" and ?x = "\<lambda>d. f64_mul (Minutes d) (f64_of_int r)"
  have nonneg: "0 \<le> trunc (?x d) \<and> trunc (?x d) \<le> 2 ^ 60" if "0 \<le> d" "d \<le> max_i64 + 1" for d
  proof -
    have x: "0 \<le> ?x d" "?x d \<le> 2 ^ 60"
      using refill_product_nonneg refill_product_range that assms by simp_all
    then have "trunc (?x d) \<le> trunc (of_int (2 ^ 60))" by (intro trunc_mono_nonneg) simp_all
    with x show ?thesis by (simp add: trunc_def)
  qed
  have neg: "?x (- d) = - ?x d" for d
    by (simp add: f64_mul_def Minutes_minus f64.rd_minus)
  have "\<bar>trunc (?x ?d)\<bar> \<le> 2 ^ 60"
  proof (cases "0 \<le> ?d")
    case True
    then show ?thesis using nonneg [of ?d] Sub_range(2) [of now prev] by simp
  next
    case False
    then have "0 \<le> trunc (?x (- ?d)) \<and> trunc (?x (- ?d)) \<le> 2 ^ 60"
      using nonneg [of "- ?d"] Sub_range(1) [of now prev] by (simp add: min_i64_def max_i64_def)
    then show ?thesis by (simp add: neg trunc_minus)
  qed
  moreover from this have "in_i64 (trunc (?x ?d))" by (auto simp: i64_bounds)
  ultimately show "refill_amount oor r prev now = trunc (?x ?d)"
    and "\<bar>refill_amount oor r prev now\<bar> \<le> 2 ^ 60"
    by (simp_all add: refill_amount_def f64_to_int_def)
qed

lemma refill_amount_upper:
  assumes "0 \<le> r" "r < 2 ^ 31" "prev \<le> now"
  shows "of_int (refill_amount oor r prev now) \<le>
    of_int (now - prev) / of_int Minute * of_int r * (1 + eps64) ^ 4"
proof -
  let ?d = "Sub now prev"
  have d: "0 \<le> ?d" "?d \<le> now - prev"
    using assms(3) by (simp_all add: Sub_def sat_i64_def min_i64_def max_i64_def)
  have "of_int (refill_amount oor r prev now) \<le> f64_mul (Minutes ?d) (f64_of_int r)"
    unfolding refill_amount_eq(1) [OF assms(1,2)]
    by (rule trunc_le) (rule refill_product_nonneg [OF d(1) assms(1)])
  also have "\<dots> \<le> of_int ?d / of_int Minute * of_int r * (1 + eps64) ^ 4"
    by (rule refill_product_upper [OF d(1) assms(1)])
  also have "\<dots> \<le> of_int (now - prev) / of_int Minute * of_int r * (1 + eps64) ^ 4"
    using d(2) assms(1)
    by (intro mult_right_mono divide_right_mono of_int_le_iff [THEN iffD2])
      (simp_all add: duration_units eps64_def)
  finally show ?thesis .
qed

lemma refill_amount_minute:
  assumes "1 \<le> r" "r < 2 ^ 31" "Minute \<le> now - prev"
  shows "r \<le> refill_amount oor r prev now"
proof -
  let ?d = "Sub now prev"
  have "Minute \<le> ?d"
    using assms(3) by (simp add: Sub_def sat_i64_def min_i64_def max_i64_def duration_units)
  then have one: "1 \<le> Minutes ?d" by (rule Minutes_ge_one)
  have exact: "rnd (of_int r) = of_int r" using assms by (intro rnd_of_int) simp
  have "1 * rnd (of_int r) \<le> Minutes ?d * rnd (of_int r)"
    using one assms(1) by (intro mult_right_mono) (simp_all add: exact)
  then have "of_int r \<le> Minutes ?d * rnd (of_int r)" by (simp add: exact)
  then have "rnd (of_int r) \<le> f64_mul (Minutes ?d) (f64_of_int r)"
    unfolding f64_mul_def f64_of_int_def by (rule f64.rd_mono)
  then have "of_int r \<le> f64_mul (Minutes ?d) (f64_of_int r)" by (simp add: exact)
  then have "trunc (of_int r) \<le> trunc (f64_mul (Minutes ?d) (f64_of_int r))"
    using assms(1) by (intro trunc_mono_nonneg) simp_all
  then show ?thesis using assms by (simp add: refill_amount_eq(1) trunc_def)
qed


section \<open>One call\<close>

definition wf_limiter :: "SimpleTokenBucket \<Rightarrow> bool" where
  "wf_limiter l \<longleftrightarrow> sane l \<and> (\<forall>k b. state l k = Some b \<longrightarrow> 0 \<le> tokens b \<and> tokens b \<le> capacity l)"

lemma refill_bucket_wf:
  assumes "sane l" and "0 \<le> tokens b" and "tokens b \<le> capacity l"
  shows "0 \<le> tokens (refill_bucket oor (capacity l) (rate l) b now)"
    and "tokens (refill_bucket oor (capacity l) (rate l) b now) \<le> capacity l"
    and "tokens (refill_bucket oor (capacity l) (rate l) b now) \<le>
      tokens b + max 0 (refill_amount oor (rate l) (last b) now)"
proof -
  let ?r = "refill_amount oor (rate l) (last b) now"
  have "\<bar>?r\<bar> \<le> 2 ^ 60" using assms(1) by (intro refill_amount_eq) (simp_all add: sane_def)
  then have "in_i64 (tokens b + ?r)" if "?r > 0"
    using assms that by (simp add: i64_bounds sane_def)
  then show "0 \<le> tokens (refill_bucket oor (capacity l) (rate l) b now)"
    and "tokens (refill_bucket oor (capacity l) (rate l) b now) \<le> capacity l"
    and "tokens (refill_bucket oor (capacity l) (rate l) b now) \<le> tokens b + max 0 ?r"
    using assms by (auto simp: refill_bucket_def Let_def sane_def)
qed

lemma allow_params:
  "allow oor l k now = (v, l') \<Longrightarrow> capacity l' = capacity l \<and> rate l' = rate l"
  by (auto simp: allow_def Let_def split: option.splits if_splits)

lemma allow_frame: "allow oor l k now = (v, l') \<Longrightarrow> k' \<noteq> k \<Longrightarrow> state l' k' = state l k'"
  by (auto simp: allow_def Let_def split: option.splits if_splits)

lemma allow_wf:
  assumes "wf_limiter l" and "allow oor l k now = (v, l')"
  shows "wf_limiter l'"
proof -
  note params = allow_params [OF assms(2)]
  have sane: "sane l" "sane l'" using assms(1) params by (auto simp: wf_limiter_def sane_def)
  have "0 \<le> tokens b \<and> tokens b \<le> capacity l" if b: "state l' k' = Some b" for k' b
  proof (cases "k' = k")
    case False
    then show ?thesis using assms allow_frame [OF assms(2) False] b by (auto simp: wf_limiter_def)
  next
    case True
    show ?thesis
    proof (cases "state l k")
      case None
      moreover have "in_i64 (capacity l - 1)" using sane by (simp add: sane_def i64_bounds)
      ultimately show ?thesis using assms(2) b True sane by (auto simp: allow_def sane_def)
    next
      case (Some b0)
      let ?b = "refill_bucket oor (capacity l) (rate l) b0 now"
      have "0 \<le> tokens b0" "tokens b0 \<le> capacity l"
        using assms(1) Some by (auto simp: wf_limiter_def)
      then have wf: "0 \<le> tokens ?b" "tokens ?b \<le> capacity l"
        using sane(1) by (simp_all add: refill_bucket_wf)
      then have "0 < tokens ?b \<Longrightarrow> i64 (tokens ?b - 1) = tokens ?b - 1"
        using sane(1) by (intro i64_id) (simp add: sane_def i64_bounds)
      with wf show ?thesis using assms(2) b True Some
        by (auto simp: allow_def Let_def split: if_splits)
    qed
  qed
  with sane params show ?thesis by (auto simp: wf_limiter_def)
qed

text \<open>The limiter as a transition system: a step is a call with its client key and clock reading.\<close>

definition fresh_limiter :: "SimpleTokenBucket \<Rightarrow> bool" where
  "fresh_limiter l \<longleftrightarrow> sane l \<and> state l = Map.empty"

definition allow_step ::
  "(float64 \<Rightarrow> int) \<Rightarrow> SimpleTokenBucket \<Rightarrow> string \<times> time \<Rightarrow> SimpleTokenBucket \<Rightarrow> bool" where
  "allow_step oor l ev l' \<longleftrightarrow> l' = snd (allow oor l (fst ev) (snd ev))"

interpretation limiter: invariant_system fresh_limiter "allow_step oor" wf_limiter for oor
proof
  show "wf_limiter l" if "fresh_limiter l" for l
    using that by (simp add: fresh_limiter_def wf_limiter_def)
  show "wf_limiter l'" if "wf_limiter l" "allow_step oor l ev l'" for l ev l'
    using that
    by (cases "allow oor l (fst ev) (snd ev)") (auto simp: allow_step_def intro: allow_wf)
qed


section \<open>Sequences of calls\<close>

text \<open>What \<open>allow\<close> answers to a client, and what it stores for it, depends on that client alone.\<close>

definition same_client :: "string \<Rightarrow> SimpleTokenBucket \<Rightarrow> SimpleTokenBucket \<Rightarrow> bool" where
  "same_client k l m \<longleftrightarrow> capacity l = capacity m \<and> rate l = rate m \<and> state l k = state m k"

lemma allow_same_client:
  assumes "same_client k l m"
  shows "fst (allow oor l k now) = fst (allow oor m k now)"
    and "same_client k (snd (allow oor l k now)) (snd (allow oor m k now))"
  using assms by (auto simp: same_client_def allow_def Let_def split: option.splits)

lemma allow_other_client:
  assumes "same_client k l m" and "k' \<noteq> k"
  shows "same_client k (snd (allow oor l k' now)) m"
proof -
  obtain v l' where l': "allow oor l k' now = (v, l')" by (cases "allow oor l k' now")
  show ?thesis
    using assms allow_params [OF l'] allow_frame [OF l', of k] by (simp add: same_client_def l')
qed

definition admitted :: "(float64 \<Rightarrow> int) \<Rightarrow> SimpleTokenBucket \<Rightarrow> string \<Rightarrow> (string \<times> time) list \<Rightarrow> nat" where
  "admitted oor l k rs = length (filter (\<lambda>(r, v). fst r = k \<and> v) (zip rs (fst (allow_all oor l rs))))"

lemma allow_all_Cons:
  "fst (allow_all oor l (r # rs)) =
     fst (allow oor l (fst r) (snd r)) # fst (allow_all oor (snd (allow oor l (fst r) (snd r))) rs)"
  by (cases r) (simp split: prod.split)

lemma verdicts_same_client:
  "same_client k l m \<Longrightarrow>
     map snd (filter (\<lambda>(r, v). fst r = k) (zip rs (fst (allow_all oor l rs)))) =
     fst (allow_all oor m (filter (\<lambda>r. fst r = k) rs))"
proof (induction rs arbitrary: l m)
  case Nil
  then show ?case by simp
next
  case (Cons r rs)
  show ?case
  proof (cases "fst r = k")
    case True
    then show ?thesis
      using Cons.IH [OF allow_same_client(2) [OF Cons.prems, of oor "snd r"]]
        allow_same_client(1) [OF Cons.prems, of oor "snd r"]
      by (simp add: allow_all_Cons del: allow_all.simps(2))
  next
    case False
    then show ?thesis
      using Cons.IH [OF allow_other_client [OF Cons.prems False, of oor "snd r"]]
      by (simp add: allow_all_Cons del: allow_all.simps(2))
  qed
qed

lemma admitted_own_calls:
  "admitted oor l k rs = length (filter (\<lambda>v. v) (fst (allow_all oor l (filter (\<lambda>r. fst r = k) rs))))"
proof -
  have "filter (\<lambda>(r, v). fst r = k \<and> v) zs = filter snd (filter (\<lambda>(r, v). fst r = k) zs)"
    for zs :: "((string \<times> time) \<times> bool) list" by (induction zs) auto
  then have "admitted oor l k rs =
      length (filter (\<lambda>v. v) (map snd (filter (\<lambda>(r, v). fst r = k) (zip rs (fst (allow_all oor l rs))))))"
    by (simp add: admitted_def filter_map comp_def)
  then show ?thesis
    using verdicts_same_client [of k l l rs oor] by (simp add: same_client_def)
qed

text \<open>The credit a client earns in a span of time: the rate, with the error of four roundings.\<close>

definition earned :: "int \<Rightarrow> time \<Rightarrow> rat" where
  "earned r dt = of_int dt / of_int Minute * of_int r * (1 + eps64) ^ 4"

lemma earned_nonneg: "0 \<le> r \<Longrightarrow> 0 \<le> t \<Longrightarrow> 0 \<le> earned r t"
  by (simp add: earned_def duration_units eps64_def)

lemma earned_add: "earned r s + earned r t = earned r (s + t)"
  by (simp add: earned_def add_divide_distrib algebra_simps)

lemma allow_bucket_cases:
  assumes "wf_limiter l" and "state l k = Some b" and "last b \<le> now"
    and "allow oor l k now = (v, l')"
  obtains b' where "state l' k = Some b'" and "last b \<le> last b'" and "last b' \<le> now"
    and "of_bool v + of_int (tokens b') \<le> of_int (tokens b) + earned (rate l) (last b' - last b)"
proof -
  let ?r = "refill_amount oor (rate l) (last b) now"
  let ?b = "refill_bucket oor (capacity l) (rate l) b now"
  have sane: "sane l" and tok: "0 \<le> tokens b" "tokens b \<le> capacity l"
    using assms(1,2) by (auto simp: wf_limiter_def)
  note wf = refill_bucket_wf [OF sane tok, of oor now]
  have rate: "0 \<le> rate l" "rate l < 2 ^ 31" using sane by (auto simp: sane_def)
  have refill: "of_int (tokens ?b) \<le> of_int (tokens b) + earned (rate l) (last ?b - last b)
      \<and> last b \<le> last ?b \<and> last ?b \<le> now"
  proof (cases "?r > 0")
    case True
    then have "last ?b = now" by (simp add: refill_bucket_def Let_def)
    moreover have "rat_of_int (tokens ?b) \<le> of_int (tokens b + ?r)"
      using wf(3) True by (simp only: of_int_le_iff)
    moreover have "of_int ?r \<le> earned (rate l) (now - last b)"
      using refill_amount_upper [OF rate assms(3)] by (simp add: earned_def)
    ultimately show ?thesis using assms(3) by simp
  next
    case False
    then show ?thesis using assms(3) by (simp add: refill_bucket_def Let_def earned_def)
  qed
  have dec: "0 < tokens ?b \<Longrightarrow> i64 (tokens ?b - 1) = tokens ?b - 1"
    using wf sane by (intro i64_id) (simp add: sane_def i64_bounds)
  show thesis
  proof (cases "tokens ?b \<le> 0")
    case True
    then show thesis using that [of ?b] refill assms(2,4) by (auto simp: allow_def Let_def)
  next
    case False
    then show thesis using that [of "?b\<lparr>tokens := tokens ?b - 1\<rparr>"] refill assms(2,4) dec
      by (auto simp: allow_def Let_def)
  qed
qed

lemma admitted_known_bucket:
  assumes "wf_limiter l" and "state l k = Some b" and "\<forall>r \<in> set rs. fst r = k"
    and "sorted (map snd rs)" and "\<forall>r \<in> set rs. last b \<le> snd r \<and> snd r \<le> tn" and "last b \<le> tn"
  shows "of_nat (length (filter (\<lambda>v. v) (fst (allow_all oor l rs)))) \<le>
    of_int (tokens b) + earned (rate l) (tn - last b)"
  using assms
proof (induction rs arbitrary: l b)
  case Nil
  then show ?case by (auto simp: wf_limiter_def sane_def intro!: add_nonneg_nonneg earned_nonneg)
next
  case (Cons r rs)
  obtain now where r: "r = (k, now)" using Cons.prems(3) by (cases r) auto
  obtain v l' where al: "allow oor l k now = (v, l')" by (cases "allow oor l k now")
  have "last b \<le> now" using Cons.prems(5) r by simp
  from Cons.prems(1,2) this al obtain b' where b': "state l' k = Some b'" "last b \<le> last b'"
      "last b' \<le> now"
      "of_bool v + of_int (tokens b') \<le> of_int (tokens b) + earned (rate l) (last b' - last b)"
    by (rule allow_bucket_cases)
  have wf': "wf_limiter l'" by (rule allow_wf [OF Cons.prems(1) al])
  have rs: "\<forall>r \<in> set rs. last b' \<le> snd r \<and> snd r \<le> tn" "last b' \<le> tn"
    using Cons.prems(4,5) b'(3) r by fastforce+
  have "of_nat (length (filter (\<lambda>v. v) (fst (allow_all oor l' rs)))) \<le>
      of_int (tokens b') + earned (rate l') (tn - last b')"
    by (rule Cons.IH [OF wf' b'(1)]) (use Cons.prems(3,4) rs in auto)
  moreover have "rate l' = rate l" using allow_params [OF al] by simp
  moreover have "earned (rate l) (last b' - last b) + earned (rate l) (tn - last b')
      = earned (rate l) (tn - last b)" by (simp add: earned_add)
  moreover have "fst (allow_all oor l (r # rs)) = v # fst (allow_all oor l' rs)"
    by (simp add: allow_all_Cons r al del: allow_all.simps(2))
  ultimately show ?case using b'(4) by (auto simp: of_bool_def split: if_splits)
qed


text \<open>
  C6. Rate limiting bounds the traffic of a client. Whatever the other clients send, a client
  whose first request arrives at \<open>t0\<close> gets at most \<open>capacity + rate * minutes\<close> requests through
  until \<open>tn\<close>, where the refill's float64 roundings can add at most the factor \<open>(1 + 2^-53)^4\<close>.
\<close>

theorem admitted_bound:
  assumes "wf_limiter l" and "state l k = None"
    and "sorted (map snd (filter (\<lambda>r. fst r = k) rs))"
    and "\<forall>r \<in> set rs. fst r = k \<longrightarrow> t0 \<le> snd r \<and> snd r \<le> tn" and "t0 \<le> tn"
  shows "of_nat (admitted oor l k rs) \<le>
    of_int (capacity l) + of_int (tn - t0) / of_int Minute * of_int (rate l) * (1 + eps64) ^ 4"
proof -
  have sane: "sane l" using assms(1) by (simp add: wf_limiter_def)
  have e0: "0 \<le> earned (rate l) t" if "0 \<le> t" for t
    using that sane by (auto simp: sane_def intro: earned_nonneg)
  show ?thesis
  proof (cases "filter (\<lambda>r. fst r = k) rs")
    case Nil
    then show ?thesis
      using e0 [of "tn - t0"] assms(5) sane
      by (simp add: admitted_own_calls sane_def earned_def)
  next
    case (Cons r qs)
    then have "set (r # qs) \<subseteq> {r \<in> set rs. fst r = k}" by (simp flip: Cons)
    then have mem: "fst r = k" "t0 \<le> snd r" "snd r \<le> tn" and qs: "\<forall>q \<in> set qs. fst q = k \<and> snd q \<le> tn"
      using assms(4) by auto
    have srt: "\<forall>q \<in> set qs. snd r \<le> snd q" "sorted (map snd qs)"
      using assms(3) by (simp_all add: Cons)
    obtain l' where al: "allow oor l k (snd r) = (True, l')"
        "state l' k = Some \<lparr>tokens = capacity l - 1, last = snd r\<rparr>"
      using assms(2) sane by (simp add: allow_def sane_def i64_bounds)
    have "of_nat (length (filter (\<lambda>v. v) (fst (allow_all oor l' qs)))) \<le>
        of_int (tokens \<lparr>tokens = capacity l - 1, last = snd r\<rparr>) +
        earned (rate l') (tn - last \<lparr>tokens = capacity l - 1, last = snd r\<rparr>)"
      by (rule admitted_known_bucket [OF allow_wf [OF assms(1) al(1)] al(2)])
        (use qs srt mem in auto)
    moreover have "rate l' = rate l" using allow_params [OF al(1)] by simp
    moreover have "earned (rate l) (tn - snd r) + earned (rate l) (snd r - t0) =
        earned (rate l) (tn - t0)" by (simp add: earned_add)
    moreover have "admitted oor l k rs = Suc (length (filter (\<lambda>v. v) (fst (allow_all oor l' qs))))"
      using mem(1) al(1) by (simp add: admitted_own_calls Cons allow_all_Cons del: allow_all.simps(2))
    ultimately show ?thesis using e0 [of "snd r - t0"] mem(2) by (simp add: earned_def)
  qed
qed

theorem admitted_bound_witness:
  "of_nat (admitted (\<lambda>_. 0) (NewSimpleTokenBucket 120 120) ''a'' [(''a'', 0), (''b'', 1), (''a'', 5)]) \<le>
   of_int (capacity (NewSimpleTokenBucket 120 120)) +
   of_int (5 - 0) / of_int Minute * of_int (rate (NewSimpleTokenBucket 120 120)) * (1 + eps64) ^ 4"
  by (rule admitted_bound) (simp_all add: wf_limiter_def sane_def NewSimpleTokenBucket_def)

text \<open>
  C11. Clients do not influence each other: the verdicts a client receives within any interleaving
  of requests are those it would receive if it were the only client.
\<close>

theorem clients_independent:
  "map snd (filter (\<lambda>(r, v). fst r = k) (zip rs (fst (allow_all oor l rs)))) =
   fst (allow_all oor l (filter (\<lambda>r. fst r = k) rs))"
  by (rule verdicts_same_client) (simp add: same_client_def)

text \<open>
  No client is shut out for good: with a positive rate, a request is admitted whenever the
  client is new or a minute has passed since its bucket was last refilled.
\<close>

lemma admitted_after_a_minute:
  assumes "wf_limiter l" and "1 \<le> rate l"
    and "state l k = None \<or> (\<exists>b. state l k = Some b \<and> last b + Minute \<le> now)"
  shows "fst (allow oor l k now)"
proof (cases "state l k")
  case None
  then show ?thesis by (simp add: allow_def)
next
  case (Some b)
  let ?r = "refill_amount oor (rate l) (last b) now"
  have sane: "sane l" and tok: "0 \<le> tokens b" "tokens b \<le> capacity l"
    using assms(1) Some by (auto simp: wf_limiter_def)
  have "rate l < 2 ^ 31" "0 \<le> rate l" using sane by (auto simp: sane_def)
  then have r: "rate l \<le> ?r" "\<bar>?r\<bar> \<le> 2 ^ 60"
    using assms(2,3) Some refill_amount_eq(2) [of "rate l" oor "last b" now]
    by (auto intro!: refill_amount_minute)
  then have "i64 (tokens b + ?r) = tokens b + ?r"
    using tok sane by (intro i64_id) (auto simp: sane_def i64_bounds)
  then have "0 < tokens (refill_bucket oor (capacity l) (rate l) b now)"
    using r(1) assms(2) tok sane by (simp add: refill_bucket_def Let_def sane_def)
  then show ?thesis by (simp add: allow_def Some Let_def)
qed

lemma admitted_after_a_minute_example:
  "fst (allow (\<lambda>_. 0) \<lparr>capacity = 2, rate = 2, state = [''a'' \<mapsto> \<lparr>tokens = 0, last = 7\<rparr>]\<rparr> ''a'' (7 + Minute))"
  by (rule admitted_after_a_minute) (simp_all add: wf_limiter_def sane_def)

text \<open>
  Every reachable state of the limiter keeps each client's tokens between 0 and the capacity,
  whatever the clock readings are.
\<close>

lemma tokens_within_capacity:
  assumes "sane (NewSimpleTokenBucket cap perMinute)"
    and "runs (allow_step oor) (NewSimpleTokenBucket cap perMinute) evs l"
    and "state l k = Some b"
  shows "0 \<le> tokens b \<and> tokens b \<le> capacity l"
proof -
  have "fresh_limiter (NewSimpleTokenBucket cap perMinute)"
    using assms(1) by (simp add: fresh_limiter_def NewSimpleTokenBucket_def)
  then have "wf_limiter l" using assms(2) by (rule limiter.inv_reachable)
  then show ?thesis using assms(3) by (auto simp: wf_limiter_def)
qed

lemma tokens_within_capacity_example:
  "0 \<le> tokens \<lparr>tokens = 119, last = 4\<rparr> \<and>
   tokens \<lparr>tokens = 119, last = 4\<rparr> \<le>
     capacity (NewSimpleTokenBucket 0 120\<lparr>state := [''a'' \<mapsto> \<lparr>tokens = 119, last = 4\<rparr>]\<rparr>)"
proof (rule tokens_within_capacity)
  show "sane (NewSimpleTokenBucket 0 120)"
    by (simp add: sane_def NewSimpleTokenBucket_def)
  show "runs (allow_step (\<lambda>_. 0)) (NewSimpleTokenBucket 0 120) [(''a'', 4)]
      (NewSimpleTokenBucket 0 120\<lparr>state := [''a'' \<mapsto> \<lparr>tokens = 119, last = 4\<rparr>]\<rparr>)"
    by (rule runs_single)
      (simp add: allow_step_def allow_def NewSimpleTokenBucket_def i64_bounds)
qed simp

text \<open>
  The limit 0 (\<open>RATE_LIMIT_PER_MIN=0\<close>) does not reject everything: the first request of every
  client passes, and no later one does.
\<close>

lemma limit_zero_admits_first_only:
  assumes "rs \<noteq> []" and "\<forall>r \<in> set rs. fst r = k"
  shows "fst (allow_all oor (NewSimpleTokenBucket 0 0) rs) = True # replicate (length rs - 1) False"
proof -
  have zero: "refill_amount oor 0 prev now = 0" for prev now
    by (simp add: refill_amount_def f64_mul_def f64_of_int_def f64_to_int_def trunc_def i64_bounds)
  have stuck: "fst (allow_all oor l qs) = replicate (length qs) False"
    if "rate l = 0" "state l k = Some b" "tokens b \<le> 0" "\<forall>r \<in> set qs. fst r = k" for l b qs
    using that
  proof (induction qs arbitrary: l)
    case (Cons q qs)
    have step: "allow oor l k (snd q) = (False, l\<lparr>state := (state l)(k \<mapsto> b)\<rparr>)"
      using Cons.prems by (simp add: allow_def refill_bucket_def zero Let_def)
    show ?case
      using Cons.IH [of "l\<lparr>state := (state l)(k \<mapsto> b)\<rparr>"] Cons.prems step
      by (simp add: allow_all_Cons del: allow_all.simps(2))
  qed simp
  obtain r qs where rs: "rs = r # qs" using assms(1) by (cases rs) auto
  have first: "allow oor (NewSimpleTokenBucket 0 0) k (snd r) =
      (True, \<lparr>capacity = 0, rate = 0, state = [k \<mapsto> \<lparr>tokens = - 1, last = snd r\<rparr>]\<rparr>)"
    by (simp add: allow_def NewSimpleTokenBucket_def i64_bounds)
  show ?thesis
    using stuck [of "\<lparr>capacity = 0, rate = 0, state = [k \<mapsto> \<lparr>tokens = - 1, last = snd r\<rparr>]\<rparr>" _ qs]
      assms(2) first by (simp add: rs allow_all_Cons del: allow_all.simps(2))
qed

lemma limit_zero_admits_first_only_example:
  "fst (allow_all (\<lambda>_. 0) (NewSimpleTokenBucket 0 0) [(''a'', 0), (''a'', Minute), (''a'', Hour)]) =
     True # replicate (length [(''a'', 0), (''a'', Minute), (''a'', Hour)] - 1) False"
  by (rule limit_zero_admits_first_only [where k = "''a''"]) simp_all

end
