(* ===== verification/JwtAuth.thy ===== *)
theory JwtAuth
  imports GoLib
begin

text \<open>
  Token issue and verification, \<open>src/internal/auth/jwt.go\<close>, and the bearer middleware,
  \<open>src/internal/auth/middleware.go\<close>. The JWT library is an argument, \<open>jwt_lib\<close>, and \<open>jwt_laws\<close> is
  what its documentation promises: signing with HS256, parsing that hands the method of the token
  to the caller's key function, checks the signature and the expiry, and reads back the claims.
  The lemmas: what an accepted token proves, that issued tokens are accepted until they expire
  and not afterwards, and what the middleware lets through.
\<close>

section \<open>Model\<close>

record TokenPair =
  AccessToken :: string
  RefreshToken :: string
  AccessExp :: time
  RefreshExp :: time

text \<open>\<open>reg_Subject\<close> is the \<open>Subject\<close> of the embedded \<open>jwt.RegisteredClaims\<close>.\<close>

record Claims =
  Subject :: string
  Role :: string
  Issuer :: string
  reg_Subject :: string
  ExpiresAt :: "time option"
  IssuedAt :: "time option"

datatype signing_method = HS256 | OtherMethod string

record jwt_token =
  tok_claims :: Claims
  tok_valid :: bool

record jwt_lib =
  newNumericDate :: "time \<Rightarrow> time"
  signedHS256 :: "Claims \<Rightarrow> string \<Rightarrow> string result"
  parseWithClaims :: "time \<Rightarrow> string \<Rightarrow> (signing_method \<Rightarrow> string result) \<Rightarrow> jwt_token result"

text \<open>The method reads the clock four times, in the order of \<open>clk 0\<close> to \<open>clk 3\<close>.\<close>

definition Issue ::
  "jwt_lib \<Rightarrow> (nat \<Rightarrow> time) \<Rightarrow> string \<Rightarrow> string \<Rightarrow> string \<Rightarrow> string \<Rightarrow> duration \<Rightarrow> duration \<Rightarrow> TokenPair result"
where
  "Issue j clk subject role issuer key accessTTL refreshTTL =
     (let accessExp = clk 0 + accessTTL;
          refreshExp = clk 1 + refreshTTL;
          accessClaims = \<lparr>Subject = subject, Role = role, Issuer = issuer, reg_Subject = subject,
            ExpiresAt = Some (newNumericDate j accessExp), IssuedAt = Some (newNumericDate j (clk 2))\<rparr>;
          refreshClaims = \<lparr>Subject = subject, Role = role, Issuer = issuer, reg_Subject = subject,
            ExpiresAt = Some (newNumericDate j refreshExp), IssuedAt = Some (newNumericDate j (clk 3))\<rparr>
      in case signedHS256 j accessClaims key of
           Inl e \<Rightarrow> Inl e
         | Inr accessToken \<Rightarrow>
             (case signedHS256 j refreshClaims key of
                Inl e \<Rightarrow> Inl e
              | Inr refreshToken \<Rightarrow>
                  Inr \<lparr>AccessToken = accessToken, RefreshToken = refreshToken,
                       AccessExp = accessExp, RefreshExp = refreshExp\<rparr>))"

text \<open>The key function that \<open>Parse\<close> gives to the library.\<close>

definition keyfunc :: "string \<Rightarrow> signing_method \<Rightarrow> string result" where
  "keyfunc key m = (if m \<noteq> HS256 then Inl (Errorf ''unexpected signing method'') else Inr key)"

definition Parse :: "jwt_lib \<Rightarrow> time \<Rightarrow> string \<Rightarrow> string \<Rightarrow> string \<Rightarrow> Claims result" where
  "Parse j now tokenStr key issuer =
     (case parseWithClaims j now tokenStr (keyfunc key) of
        Inl e \<Rightarrow> Inl e
      | Inr parsed \<Rightarrow>
          if \<not> tok_valid parsed then Inl (Errorf ''invalid token'')
          else if issuer \<noteq> [] \<and> Issuer (tok_claims parsed) \<noteq> issuer then Inl (Errorf ''issuer mismatch'')
          else Inr (tok_claims parsed))"

text \<open>The middleware aborts with a status and an error text, or passes the claims on.\<close>

datatype auth_outcome = Abort int string | Continue Claims

definition DeviceAuth ::
  "(nat \<Rightarrow> nat) \<Rightarrow> jwt_lib \<Rightarrow> time \<Rightarrow> string \<Rightarrow> string \<Rightarrow> string \<Rightarrow> auth_outcome" where
  "DeviceAuth lower j now signingKey issuer authz =
     (if authz = [] \<or> \<not> HasPrefix (ToLower lower authz) ''bearer '' then Abort 401 ''missing bearer token''
      else case Parse j now (TrimSpace (drop (length ''bearer '') authz)) signingKey issuer of
        Inl _ \<Rightarrow> Abort 401 ''invalid token''
      | Inr claims \<Rightarrow> Continue claims)"

section \<open>What the library promises\<close>

definition unexpired :: "time \<Rightarrow> Claims \<Rightarrow> bool" where
  "unexpired now c \<longleftrightarrow> (case ExpiresAt c of None \<Rightarrow> True | Some e \<Rightarrow> now < e)"

text \<open>
  JSON keeps text that is valid UTF-8 and dates of whole seconds. The outer \<open>sub\<close> field shadows
  the embedded one, which is therefore neither written nor read.
\<close>

definition json_clean :: "Claims \<Rightarrow> bool" where
  "json_clean c \<longleftrightarrow> valid_utf8 (Subject c) \<and> valid_utf8 (Role c) \<and> valid_utf8 (Issuer c)
     \<and> (\<forall>e \<in> set_option (ExpiresAt c) \<union> set_option (IssuedAt c). e mod Second = 0)"

definition through_json :: "Claims \<Rightarrow> Claims" where
  "through_json c = c\<lparr>reg_Subject := []\<rparr>"

text \<open>
  \<open>verified m key t c\<close>: the text \<open>t\<close> is a token of method \<open>m\<close> with claims \<open>c\<close> whose signature is
  right for \<open>key\<close>.
\<close>

definition jwt_laws ::
  "jwt_lib \<Rightarrow> (signing_method \<Rightarrow> string \<Rightarrow> string \<Rightarrow> Claims \<Rightarrow> bool) \<Rightarrow> bool" where
  "jwt_laws j verified \<longleftrightarrow>
     (\<forall>t. newNumericDate j t = t div Second * Second) \<and>
     (\<forall>c key t. json_clean c \<longrightarrow> signedHS256 j c key = Inr t \<longrightarrow> verified HS256 key t (through_json c)) \<and>
     (\<forall>now t kf tok. parseWithClaims j now t kf = Inr tok \<longrightarrow>
        (\<exists>m key. kf m = Inr key \<and> verified m key t (tok_claims tok)) \<and> unexpired now (tok_claims tok)) \<and>
     (\<forall>now t kf m key c. verified m key t c \<longrightarrow> kf m = Inr key \<longrightarrow>
        (if unexpired now c then parseWithClaims j now t kf = Inr \<lparr>tok_claims = c, tok_valid = True\<rparr>
         else \<exists>e. parseWithClaims j now t kf = Inl e))"

lemma jwt_lawsD:
  assumes "jwt_laws j verified"
  shows "newNumericDate j x = x div Second * Second"
    and "json_clean c \<Longrightarrow> signedHS256 j c key = Inr t \<Longrightarrow> verified HS256 key t (through_json c)"
    and "parseWithClaims j now t kf = Inr tok \<Longrightarrow>
      (\<exists>m key. kf m = Inr key \<and> verified m key t (tok_claims tok)) \<and> unexpired now (tok_claims tok)"
    and "verified m key t c \<Longrightarrow> kf m = Inr key \<Longrightarrow>
        (if unexpired now c then parseWithClaims j now t kf = Inr \<lparr>tok_claims = c, tok_valid = True\<rparr>
         else \<exists>e. parseWithClaims j now t kf = Inl e)"
  using assms unfolding jwt_laws_def by blast+

section \<open>Verification\<close>

lemma keyfunc_Inr_iff [simp]: "keyfunc key m = Inr k \<longleftrightarrow> m = HS256 \<and> k = key"
  by (auto simp: keyfunc_def)

lemma Parse_InrD:
  assumes "jwt_laws j verified" and "Parse j now t key issuer = Inr c"
  shows "verified HS256 key t c \<and> unexpired now c \<and> (issuer \<noteq> [] \<longrightarrow> Issuer c = issuer)"
  using assms(2) jwt_lawsD(3) [OF assms(1), of now t "keyfunc key"]
  by (fastforce simp: Parse_def split: sum.splits if_splits)

lemma Parse_verified:
  assumes "jwt_laws j verified" and "verified HS256 key t c" and "issuer = [] \<or> Issuer c = issuer"
  shows "(if unexpired now c then Parse j now t key issuer = Inr c else \<exists>e. Parse j now t key issuer = Inl e)"
  using jwt_lawsD(4) [OF assms(1,2), of "keyfunc key" now] assms(3)
  by (auto simp: Parse_def split: if_splits)

text \<open>The claims that \<open>Issue\<close> puts into a token with the expiry \<open>e\<close>, issued at \<open>i\<close>, read back.\<close>

definition issued_claims :: "string \<Rightarrow> string \<Rightarrow> string \<Rightarrow> time \<Rightarrow> time \<Rightarrow> Claims" where
  "issued_claims subject role issuer e i =
     \<lparr>Subject = subject, Role = role, Issuer = issuer, reg_Subject = [],
      ExpiresAt = Some (e div Second * Second), IssuedAt = Some (i div Second * Second)\<rparr>"

lemma Issue_InrD:
  assumes laws: "jwt_laws j verified"
    and issue: "Issue j clk subject role issuer key accessTTL refreshTTL = Inr pair"
    and utf8: "valid_utf8 subject" "valid_utf8 role" "valid_utf8 issuer"
  shows "verified HS256 key (AccessToken pair) (issued_claims subject role issuer (AccessExp pair) (clk 2))
    \<and> verified HS256 key (RefreshToken pair) (issued_claims subject role issuer (RefreshExp pair) (clk 3))
    \<and> AccessExp pair = clk 0 + accessTTL \<and> RefreshExp pair = clk 1 + refreshTTL"
proof -
  have "verified HS256 key t (issued_claims subject role issuer e i)"
    if "signedHS256 j \<lparr>Subject = subject, Role = role, Issuer = issuer, reg_Subject = subject,
      ExpiresAt = Some (newNumericDate j e), IssuedAt = Some (newNumericDate j i)\<rparr> key = Inr t" for t e i
    using jwt_lawsD(2) [OF laws _ that] utf8
    by (simp add: json_clean_def through_json_def issued_claims_def jwt_lawsD(1) [OF laws])
  with issue show ?thesis by (auto simp: Issue_def Let_def split: sum.splits)
qed

lemma unexpired_issued: "unexpired now (issued_claims s r i e t) \<longleftrightarrow> now < e div Second * Second"
  by (simp add: unexpired_def issued_claims_def)

section \<open>The bearer prefix\<close>

text \<open>
  The middleware compares the lowered header with the prefix but cuts the original one, by bytes.
  That is safe as long as the Unicode table lowers no rune beyond ASCII to a byte of the prefix.
\<close>

definition lower_table :: "(nat \<Rightarrow> nat) \<Rightarrow> bool" where
  "lower_table lower \<longleftrightarrow> (\<forall>r \<ge> 128. lower r \<notin> byte ` set ''bearer '')"

definition lower_byte :: "char \<Rightarrow> char" where
  "lower_byte c = mk_byte (lower_ascii (byte c))"

lemma encode_rune_ascii_hd:
  assumes "encode_rune r = c # t" and "byte c < 128"
  shows "r = byte c"
proof -
  have "(if valid_rune r then r else RuneError) = byte c"
    using runes_encode_rune [of r "[]"] assms by simp
  with assms(2) show ?thesis by (simp add: RuneError_def split: if_splits)
qed

lemma encode_rune_nonempty: "encode_rune r \<noteq> []"
  by (simp add: encode_rune_def encode_valid_def)

lemma lowered_prefix:
  assumes "\<forall>r \<ge> 128. lower r \<notin> byte ` set p" and "ascii p"
    and "HasPrefix (string_of_runes (map (\<lambda>r. if r < 128 then lower_ascii r else lower r) (runes s))) p"
  shows "length p \<le> length s \<and> map lower_byte (take (length p) s) = p"
  using assms
proof (induction p arbitrary: s)
  case Nil
  then show ?case by simp
next
  case (Cons c p)
  obtain a s' where s: "s = a # s'"
    using Cons.prems(3) by (cases s) (auto simp: HasPrefix_def)
  let ?low = "\<lambda>r. if r < 128 then lower_ascii r else lower r"
  let ?r = "fst (decode_rune a s')"
  obtain h t where enc: "encode_rune (?low ?r) = h # t"
    by (metis encode_rune_nonempty neq_Nil_conv)
  with Cons.prems(3) s have h: "h = c" by (simp add: HasPrefix_def)
  have c: "byte c < 128" using Cons.prems(2) by (simp add: ascii_def)
  have low: "?low ?r = byte c" using encode_rune_ascii_hd [OF enc] h c by simp
  show ?case
  proof (cases "byte a < 128")
    case True
    then have "lower_ascii (byte a) = byte c" using low by simp
    moreover from this c have "encode_rune (byte c) = [c]"
      by (simp add: encode_rune_def encode_valid_def valid_rune_def)
    ultimately have "HasPrefix (string_of_runes (map ?low (runes s'))) p"
      using Cons.prems(3) s True by (simp add: HasPrefix_def)
    with Cons.IH [of s'] Cons.prems(1,2) have "length p \<le> length s' \<and> map lower_byte (take (length p) s') = p"
      by (simp add: ascii_def)
    moreover have "lower_byte a = c"
      using \<open>lower_ascii (byte a) = byte c\<close> by (simp add: lower_byte_def)
    ultimately show ?thesis using s by simp
  next
    case False
    then have "128 \<le> ?r" using fst_decode_ascii_iff [of ?r a s'] by (cases "?r < 128") auto
    with low Cons.prems(1) show ?thesis by auto
  qed
qed

lemma map_prefix: "HasPrefix (map f s) p \<Longrightarrow> length p \<le> length s \<and> map f (take (length p) s) = p"
  unfolding HasPrefix_def by (metis length_map length_take min.cobounded1 take_map)

lemma bearer_bytes:
  "mk_byte 98 = CHR ''b''" "mk_byte 101 = CHR ''e''" "mk_byte 97 = CHR ''a''"
  "mk_byte 114 = CHR ''r''" "mk_byte 32 = CHR '' ''"
  by code_simp+

lemma bearer_prefix:
  assumes "lower_table lower" and "HasPrefix (ToLower lower authz) ''bearer ''"
  shows "length ''bearer '' \<le> length authz \<and> map lower_byte (take (length ''bearer '') authz) = ''bearer ''"
proof (cases "ascii authz")
  case True
  with assms(2) have "HasPrefix (map lower_byte authz) ''bearer ''"
    by (simp add: ToLower_def lower_byte_def [abs_def])
  then show ?thesis by (rule map_prefix)
next
  case False
  then have low: "HasPrefix (string_of_runes (map (\<lambda>r. if r < 128 then lower_ascii r else lower r)
      (runes authz))) ''bearer ''"
    using assms(2) by (simp add: ToLower_def)
  have ascii: "ascii ''bearer ''" by (simp add: ascii_def)
  from assms(1) show ?thesis
    unfolding lower_table_def by (rule lowered_prefix [OF _ ascii low])
qed

lemma bearer_header: "HasPrefix (ToLower lower (''Bearer '' @ t)) ''bearer ''"
  by (simp add: ToLower_def HasPrefix_def lower_ascii_def encode_rune_def encode_valid_def valid_rune_def
    bearer_bytes)

section \<open>The middleware\<close>

lemma DeviceAuth_ContinueD:
  assumes "jwt_laws j verified" and "lower_table lower"
    and "DeviceAuth lower j now key issuer authz = Continue claims"
  shows "length ''bearer '' \<le> length authz
    \<and> map lower_byte (take (length ''bearer '') authz) = ''bearer ''
    \<and> verified HS256 key (TrimSpace (drop (length ''bearer '') authz)) claims
    \<and> unexpired now claims \<and> (issuer = [] \<or> Issuer claims = issuer)"
proof -
  from assms(3) have prefix: "HasPrefix (ToLower lower authz) ''bearer ''"
    and parsed: "Parse j now (TrimSpace (drop (length ''bearer '') authz)) key issuer = Inr claims"
    by (auto simp: DeviceAuth_def split: if_splits sum.splits)
  show ?thesis
    using Parse_InrD [OF assms(1) parsed] bearer_prefix [OF assms(2) prefix] by auto
qed

lemma DeviceAuth_AbortD: "DeviceAuth lower j now key issuer authz = Abort code msg \<Longrightarrow> code = 401"
  by (auto simp: DeviceAuth_def split: if_splits sum.splits)

lemma DeviceAuth_issued:
  assumes "jwt_laws j verified" and "verified HS256 key t (issued_claims subject role issuer e i)" and "visible t"
  shows "DeviceAuth lower j now key issuer (''Bearer '' @ t) =
    (if now < e div Second * Second then Continue (issued_claims subject role issuer e i)
     else Abort 401 ''invalid token'')"
proof -
  have "issuer = [] \<or> Issuer (issued_claims subject role issuer e i) = issuer"
    by (simp add: issued_claims_def)
  from Parse_verified [OF assms(1,2) this, of now] show ?thesis
    using bearer_header [of lower t] TrimSpace_visible [OF assms(3)]
    by (auto simp: DeviceAuth_def unexpired_issued split: if_splits)
qed

section \<open>Properties\<close>

text \<open>
  A request passes the middleware only with a header that starts with the bearer prefix in
  some case, followed by a token that is signed by the HS256 method with the configured key, has
  not expired, and names the configured issuer unless none is configured; the claims passed on are
  those of the token. Every other request is answered with 401. The cut of the header is within
  its bounds.
\<close>

lemma device_auth_sound:
  assumes "jwt_laws j verified" and "lower_table lower"
  shows "case DeviceAuth lower j now key issuer authz of
     Abort status msg \<Rightarrow> status = 401 \<and> msg \<in> {''missing bearer token'', ''invalid token''}
   | Continue claims \<Rightarrow>
       length ''bearer '' \<le> length authz
       \<and> map lower_byte (take (length ''bearer '') authz) = ''bearer ''
       \<and> verified HS256 key (TrimSpace (drop (length ''bearer '') authz)) claims
       \<and> unexpired now claims \<and> (issuer = [] \<or> Issuer claims = issuer)"
proof (cases "DeviceAuth lower j now key issuer authz")
  case (Abort status msg)
  then show ?thesis by (auto simp: DeviceAuth_def split: if_splits sum.splits)
next
  case (Continue claims)
  then show ?thesis using DeviceAuth_ContinueD [OF assms Continue] by simp
qed

text \<open>
  A library for the witnesses: it knows one key and two tokens, an access and a refresh token of
  the device \<open>gate\<close>, issued at 0 for one and for two minutes.
\<close>

definition gate_claims :: "time \<Rightarrow> Claims" where
  "gate_claims e = issued_claims ''gate'' ''device'' ''iss'' e 0"

definition two_tokens :: "(string \<times> Claims) list" where
  "two_tokens = [(''acc'', gate_claims Minute), (''ref'', gate_claims (2 * Minute))]"

definition two_verified :: "signing_method \<Rightarrow> string \<Rightarrow> string \<Rightarrow> Claims \<Rightarrow> bool" where
  "two_verified m key t c \<longleftrightarrow> m = HS256 \<and> key = ''k'' \<and> map_of two_tokens t = Some c"

definition two_jwt :: jwt_lib where
  "two_jwt =
     \<lparr>newNumericDate = (\<lambda>t. t div Second * Second),
      signedHS256 = (\<lambda>c key.
        if key = ''k'' \<and> through_json c = gate_claims Minute then Inr ''acc''
        else if key = ''k'' \<and> through_json c = gate_claims (2 * Minute) then Inr ''ref''
        else Inl (Driver ''unknown claims'')),
      parseWithClaims = (\<lambda>now t kf.
        case kf HS256 of
          Inl e \<Rightarrow> Inl e
        | Inr key \<Rightarrow>
            (case map_of two_tokens t of
               None \<Rightarrow> Inl (Driver ''token is malformed'')
             | Some c \<Rightarrow>
                 if key \<noteq> ''k'' then Inl (Driver ''signature is invalid'')
                 else if unexpired now c then Inr \<lparr>tok_claims = c, tok_valid = True\<rparr>
                 else Inl (Driver ''token is expired'')))\<rparr>"

lemma two_jwt_laws: "jwt_laws two_jwt two_verified"
  by (auto simp: jwt_laws_def two_jwt_def two_verified_def two_tokens_def split: sum.splits option.splits if_splits)

lemma two_jwt_issue:
  "Issue two_jwt (\<lambda>_. 0) ''gate'' ''device'' ''iss'' ''k'' Minute (2 * Minute) =
     Inr \<lparr>AccessToken = ''acc'', RefreshToken = ''ref'', AccessExp = Minute, RefreshExp = 2 * Minute\<rparr>"
  by (simp add: Issue_def two_jwt_def through_json_def gate_claims_def issued_claims_def duration_units)

lemma gate_bearer:
  "DeviceAuth (\<lambda>r. r) two_jwt 0 ''k'' ''iss'' (''Bearer '' @ ''acc'') = Continue (gate_claims Minute)"
proof -
  have "TrimSpace ''acc'' = ''acc''" by (rule TrimSpace_visible) (simp add: visible_def)
  then show ?thesis
    using bearer_header [of "\<lambda>r. r" "''acc''"]
    by (simp add: DeviceAuth_def Parse_def two_jwt_def two_tokens_def keyfunc_def unexpired_def gate_claims_def
      issued_claims_def duration_units)
qed

lemma no_lowering: "lower_table (\<lambda>r. r)"
  by (auto simp: lower_table_def)

lemma device_auth_sound_example:
  "two_verified HS256 ''k'' ''acc'' (gate_claims Minute)"
proof -
  have "TrimSpace ''acc'' = ''acc''" by (rule TrimSpace_visible) (simp add: visible_def)
  with device_auth_sound [OF two_jwt_laws no_lowering, where now = 0 and key = "''k''" and issuer = "''iss''" and authz = "''Bearer '' @ ''acc''"]
  show ?thesis unfolding gate_bearer by simp
qed

text \<open>
  C25. Both tokens of an issued pair are accepted by the middleware, with the subject, role and
  issuer they were issued for, as long as the second of their expiry has not begun, and answered
  with 401 from then on. In particular a refresh token opens the protected routes for its whole
  lifetime.
\<close>

theorem issued_tokens_authenticate:
  assumes "jwt_laws j verified"
    and "Issue j clk subject role issuer key accessTTL refreshTTL = Inr pair"
    and "valid_utf8 subject" and "valid_utf8 role" and "valid_utf8 issuer"
    and "visible (AccessToken pair)" and "visible (RefreshToken pair)"
  shows "DeviceAuth lower j now key issuer (''Bearer '' @ AccessToken pair) =
      (if now < AccessExp pair div Second * Second
       then Continue (issued_claims subject role issuer (AccessExp pair) (clk 2))
       else Abort 401 ''invalid token'')
    \<and> DeviceAuth lower j now key issuer (''Bearer '' @ RefreshToken pair) =
      (if now < RefreshExp pair div Second * Second
       then Continue (issued_claims subject role issuer (RefreshExp pair) (clk 3))
       else Abort 401 ''invalid token'')"
proof -
  have "DeviceAuth lower j now key issuer (''Bearer '' @ t) =
      (if now < e div Second * Second then Continue (issued_claims subject role issuer e i)
       else Abort 401 ''invalid token'')"
    if "verified HS256 key t (issued_claims subject role issuer e i)" and "visible t" for t e i
    using that by (rule DeviceAuth_issued [OF assms(1)])
  then show ?thesis using Issue_InrD [OF assms(1-5)] assms(6,7) by blast
qed

theorem issued_tokens_authenticate_witness:
  "DeviceAuth (\<lambda>r. r) two_jwt (Minute + Second) ''k'' ''iss'' ''Bearer acc'' = Abort 401 ''invalid token''
   \<and> DeviceAuth (\<lambda>r. r) two_jwt (Minute + Second) ''k'' ''iss'' ''Bearer ref'' =
       Continue (gate_claims (2 * Minute))"
  using issued_tokens_authenticate [OF two_jwt_laws two_jwt_issue, of "\<lambda>r. r" "Minute + Second"]
  by (simp add: valid_utf8_ascii ascii_def visible_def duration_units gate_claims_def)

text \<open>
  Tokens are a function of whole seconds: two issues for the same device whose clock readings
  agree to the second after adding the lifetimes give the same pair of token texts.
\<close>

lemma same_second_same_tokens:
  assumes "jwt_laws j verified"
    and "Issue j clk subject role issuer key accessTTL refreshTTL = Inr pair"
    and "Issue j clk' subject role issuer key accessTTL refreshTTL = Inr pair'"
    and "(clk 0 + accessTTL) div Second = (clk' 0 + accessTTL) div Second"
    and "(clk 1 + refreshTTL) div Second = (clk' 1 + refreshTTL) div Second"
    and "clk 2 div Second = clk' 2 div Second" and "clk 3 div Second = clk' 3 div Second"
  shows "AccessToken pair = AccessToken pair' \<and> RefreshToken pair = RefreshToken pair'"
  using assms(2-) by (auto simp: Issue_def Let_def jwt_lawsD(1) [OF assms(1)] split: sum.splits)

lemma same_second_same_tokens_example:
  "\<forall>pair. Issue two_jwt (\<lambda>n. int n) ''gate'' ''device'' ''iss'' ''k'' Minute (2 * Minute) = Inr pair
     \<longleftrightarrow> pair = \<lparr>AccessToken = ''acc'', RefreshToken = ''ref'', AccessExp = Minute, RefreshExp = 2 * Minute + 1\<rparr>"
proof -
  obtain pair where issue: "Issue two_jwt (\<lambda>n. int n) ''gate'' ''device'' ''iss'' ''k'' Minute (2 * Minute) = Inr pair"
    by (simp add: Issue_def two_jwt_def through_json_def gate_claims_def issued_claims_def duration_units)
  from same_second_same_tokens [OF two_jwt_laws two_jwt_issue issue]
  have "AccessToken pair = ''acc'' \<and> RefreshToken pair = ''ref''" by (simp add: duration_units)
  moreover have "AccessExp pair = Minute \<and> RefreshExp pair = 2 * Minute + 1"
    using issue by (auto simp: Issue_def Let_def split: sum.splits)
  ultimately have "pair = \<lparr>AccessToken = ''acc'', RefreshToken = ''ref'', AccessExp = Minute, RefreshExp = 2 * Minute + 1\<rparr>"
    by simp
  with issue show ?thesis by auto
qed

end
