(* ===== verification/Json.thy ===== *)
theory Json
  imports GoLib
begin

text \<open>
  \<open>encoding/json\<close> as the program uses it: the text of a \<open>map[string]string\<close> (\<open>json.Marshal\<close>), the
  reading of a value from text (\<open>Decoder.Decode\<close> reads the first value, \<open>json.Unmarshal\<close> all of
  it), and the storing of a value into Go data. A number keeps its text until it is stored, as in
  the library. The lemmas: the fuel of the reader is enough, so that it is a total function of the
  text, and what \<open>Marshal\<close> writes is read back, up to the replacement of invalid UTF-8.
\<close>

section \<open>Values\<close>

datatype json =
    JNull
  | JBool bool
  | JNum string
  | JStr string
  | JArr "json list"
  | JObj "(string \<times> json) list"

section \<open>Strings\<close>

definition dquote :: char where "dquote = CHR 0x22"
definition backslash :: char where "backslash = CHR 0x5C"

lemmas json_chars = dquote_def backslash_def

definition hex_digit :: "nat \<Rightarrow> char" where
  "hex_digit n = mk_byte (if n < 10 then 48 + n else 87 + n)"

definition hex_value :: "char \<Rightarrow> nat option" where
  "hex_value c =
     (if 48 \<le> byte c \<and> byte c \<le> 57 then Some (byte c - 48)
      else if 97 \<le> byte c \<and> byte c \<le> 102 then Some (byte c - 87)
      else if 65 \<le> byte c \<and> byte c \<le> 70 then Some (byte c - 55)
      else None)"

fun hex4 :: "string \<Rightarrow> (nat \<times> string) option" where
  "hex4 (a # b # c # d # r) =
     (case (hex_value a, hex_value b, hex_value c, hex_value d) of
        (Some w, Some x, Some y, Some z) \<Rightarrow> Some (((w * 16 + x) * 16 + y) * 16 + z, r)
      | _ \<Rightarrow> None)"
| "hex4 _ = None"

definition escape_char :: "char \<Rightarrow> char option" where
  "escape_char c =
     (if c = dquote \<or> c = backslash \<or> c = CHR ''/'' then Some c
      else if c = CHR ''b'' then Some (mk_byte 8)
      else if c = CHR ''f'' then Some (mk_byte 12)
      else if c = CHR ''n'' then Some (mk_byte 10)
      else if c = CHR ''r'' then Some (mk_byte 13)
      else if c = CHR ''t'' then Some (mk_byte 9)
      else None)"

text \<open>A \<open>\u\<close> escape after its four digits: a surrogate pair is joined, a lone surrogate replaced.\<close>

definition surrogate :: "nat \<Rightarrow> bool" where
  "surrogate r \<longleftrightarrow> 55296 \<le> r \<and> r < 57344"

definition low_half :: "string \<Rightarrow> (nat \<times> string) option" where
  "low_half s =
     (case s of a # b # r \<Rightarrow> if a = backslash \<and> b = CHR ''u'' then hex4 r else None | _ \<Rightarrow> None)"

definition unescape_u :: "nat \<Rightarrow> string \<Rightarrow> nat \<times> string" where
  "unescape_u r s =
     (if \<not> surrogate r then (r, s)
      else case low_half s of
        Some (q, s') \<Rightarrow>
          if r < 56320 \<and> 56320 \<le> q \<and> q < 57344
          then ((r - 55296) * 1024 + (q - 56320) + 65536, s') else (RuneError, s)
      | None \<Rightarrow> (RuneError, s))"

lemma hex4_length: "hex4 s = Some (n, r) \<Longrightarrow> length s = length r + 4"
  by (induction s rule: hex4.induct) (auto split: option.splits)

lemma low_half_length: "low_half s = Some (q, r) \<Longrightarrow> length r < length s"
  by (auto simp: low_half_def dest!: hex4_length split: list.splits if_splits)

lemma unescape_u_length: "length (snd (unescape_u r s)) \<le> length s"
  by (auto simp: unescape_u_def dest!: low_half_length split: option.splits)

text \<open>The rest of a string literal after its opening quote, and what follows the closing one.\<close>

function parse_string :: "string \<Rightarrow> string \<Rightarrow> (string \<times> string) option" where
  "parse_string acc [] = None"
| "parse_string acc (c # s) =
     (if c = dquote then Some (acc, s)
      else if c = backslash then
        (case s of
           [] \<Rightarrow> None
         | e # s' \<Rightarrow>
             if e = CHR ''u'' then
               (case hex4 s' of
                  None \<Rightarrow> None
                | Some (r, s'') \<Rightarrow>
                    parse_string (acc @ encode_rune (fst (unescape_u r s''))) (snd (unescape_u r s'')))
             else
               (case escape_char e of
                  None \<Rightarrow> None
                | Some x \<Rightarrow> parse_string (acc @ [x]) s'))
      else if byte c < 32 then None
      else parse_string (acc @ encode_rune (fst (decode_rune c s))) (drop (snd (decode_rune c s)) s))"
  by pat_completeness auto
termination
proof (relation "measure (\<lambda>(acc, s). length s)", goal_cases)
  case (2 acc c s e s' p r s'')
  then show ?case
    using unescape_u_length [of r s''] hex4_length [of s' r s''] by simp
qed auto

declare parse_string.simps(2) [simp del]

section \<open>Numbers\<close>

fun parse_digits :: "string \<Rightarrow> string \<times> string" where
  "parse_digits s = (takeWhile digit s, dropWhile digit s)"

text \<open>The text of a number: an optional minus, an integer without leading zeros, an optional
  fraction and an optional exponent.\<close>

definition parse_int_part :: "string \<Rightarrow> (string \<times> string) option" where
  "parse_int_part s =
     (case s of
        [] \<Rightarrow> None
      | c # r \<Rightarrow>
          if c = CHR ''0'' then Some ([c], r)
          else if digit c then Some (parse_digits s)
          else None)"

definition parse_frac_part :: "string \<Rightarrow> (string \<times> string) option" where
  "parse_frac_part s =
     (case s of
        c # r \<Rightarrow> if c = CHR ''.'' then
                   (if takeWhile digit r = [] then None
                    else Some (c # takeWhile digit r, dropWhile digit r))
                 else Some ([], s)
      | [] \<Rightarrow> Some ([], []))"

definition parse_exp_part :: "string \<Rightarrow> (string \<times> string) option" where
  "parse_exp_part s =
     (case s of
        c # r \<Rightarrow>
          if c = CHR ''e'' \<or> c = CHR ''E'' then
            (let sign = (case r of d # _ \<Rightarrow> if d = CHR ''+'' \<or> d = CHR ''-'' then [d] else [] | [] \<Rightarrow> []);
                 r' = drop (length sign) r
             in if takeWhile digit r' = [] then None
                else Some (c # sign @ takeWhile digit r', dropWhile digit r'))
          else Some ([], s)
      | [] \<Rightarrow> Some ([], []))"

definition parse_number :: "string \<Rightarrow> (json \<times> string) option" where
  "parse_number s =
     (let sign = (case s of c # _ \<Rightarrow> if c = CHR ''-'' then [c] else [] | [] \<Rightarrow> [])
      in case parse_int_part (drop (length sign) s) of
           None \<Rightarrow> None
         | Some (i, s1) \<Rightarrow>
             (case parse_frac_part s1 of
                None \<Rightarrow> None
              | Some (f, s2) \<Rightarrow>
                  (case parse_exp_part s2 of
                     None \<Rightarrow> None
                   | Some (e, s3) \<Rightarrow> Some (JNum (sign @ i @ f @ e), s3))))"

section \<open>The reader\<close>

definition json_space :: "char \<Rightarrow> bool" where
  "json_space c \<longleftrightarrow> c = CHR '' '' \<or> byte c = 9 \<or> byte c = 10 \<or> byte c = 13"

definition skip_space :: "string \<Rightarrow> string" where
  "skip_space s = dropWhile json_space s"

definition literal :: "string \<Rightarrow> json \<Rightarrow> string \<Rightarrow> (json \<times> string) option" where
  "literal w v s = (if HasPrefix s w then Some (v, drop (length w) s) else None)"

definition max_depth :: nat where
  "max_depth = 10000"

text \<open>
  One value, with \<open>d\<close> objects and arrays open around it: \<open>elems\<close> and \<open>members\<close> read on after the
  opening bracket of a non-empty array or object.
\<close>

definition value_step ::
  "(string \<Rightarrow> (json \<times> string) option) \<Rightarrow> (string \<Rightarrow> (json \<times> string) option) \<Rightarrow> nat \<Rightarrow> string
     \<Rightarrow> (json \<times> string) option" where
  "value_step elems members d s =
     (case skip_space s of
        [] \<Rightarrow> None
      | c # r \<Rightarrow>
          if c = dquote then
            (case parse_string [] r of None \<Rightarrow> None | Some (t, r') \<Rightarrow> Some (JStr t, r'))
          else if c = CHR ''{'' then
            (if max_depth \<le> d then None
             else case skip_space r of
               [] \<Rightarrow> None
             | e # r' \<Rightarrow> if e = CHR ''}'' then Some (JObj [], r') else members r)
          else if c = CHR ''['' then
            (if max_depth \<le> d then None
             else case skip_space r of
               [] \<Rightarrow> None
             | e # r' \<Rightarrow> if e = CHR '']'' then Some (JArr [], r') else elems r)
          else if c = CHR ''t'' then literal ''true'' (JBool True) (c # r)
          else if c = CHR ''f'' then literal ''false'' (JBool False) (c # r)
          else if c = CHR ''n'' then literal ''null'' JNull (c # r)
          else parse_number (c # r))"

text \<open>An element or a member, then a comma and \<open>more\<close>, or the closing bracket.\<close>

definition elems_step ::
  "(string \<Rightarrow> (json \<times> string) option) \<Rightarrow> (json list \<Rightarrow> string \<Rightarrow> (json \<times> string) option)
     \<Rightarrow> json list \<Rightarrow> string \<Rightarrow> (json \<times> string) option" where
  "elems_step element more acc s =
     (case element s of
        None \<Rightarrow> None
      | Some (v, r) \<Rightarrow>
          (case skip_space r of
             [] \<Rightarrow> None
           | c # r' \<Rightarrow>
               if c = CHR '','' then more (acc @ [v]) r'
               else if c = CHR '']'' then Some (JArr (acc @ [v]), r')
               else None))"

definition member_key :: "string \<Rightarrow> (string \<times> string) option" where
  "member_key s =
     (case skip_space s of
        [] \<Rightarrow> None
      | q # r \<Rightarrow>
          if q \<noteq> dquote then None
          else (case parse_string [] r of
            None \<Rightarrow> None
          | Some (k, r1) \<Rightarrow>
              (case skip_space r1 of
                 [] \<Rightarrow> None
               | c # r2 \<Rightarrow> if c = CHR '':'' then Some (k, r2) else None)))"

definition members_step ::
  "(string \<Rightarrow> (json \<times> string) option) \<Rightarrow> ((string \<times> json) list \<Rightarrow> string \<Rightarrow> (json \<times> string) option)
     \<Rightarrow> (string \<times> json) list \<Rightarrow> string \<Rightarrow> (json \<times> string) option" where
  "members_step element more acc s =
     (case member_key s of
        None \<Rightarrow> None
      | Some (k, r) \<Rightarrow>
          (case element r of
             None \<Rightarrow> None
           | Some (v, r') \<Rightarrow>
               (case skip_space r' of
                  [] \<Rightarrow> None
                | c # r'' \<Rightarrow>
                    if c = CHR '','' then more (acc @ [(k, v)]) r''
                    else if c = CHR ''}'' then Some (JObj (acc @ [(k, v)]), r'')
                    else None)))"

fun parse_value :: "nat \<Rightarrow> nat \<Rightarrow> string \<Rightarrow> (json \<times> string) option"
  and parse_elems :: "nat \<Rightarrow> nat \<Rightarrow> json list \<Rightarrow> string \<Rightarrow> (json \<times> string) option"
  and parse_members :: "nat \<Rightarrow> nat \<Rightarrow> (string \<times> json) list \<Rightarrow> string \<Rightarrow> (json \<times> string) option" where
  "parse_value 0 d s = None"
| "parse_value (Suc n) d s =
     value_step (\<lambda>r. parse_elems n (Suc d) [] r) (\<lambda>r. parse_members n (Suc d) [] r) d s"
| "parse_elems 0 d acc s = None"
| "parse_elems (Suc n) d acc s =
     elems_step (\<lambda>r. parse_value n d r) (\<lambda>acc' r. parse_elems n d acc' r) acc s"
| "parse_members 0 d acc s = None"
| "parse_members (Suc n) d acc s =
     members_step (\<lambda>r. parse_value n d r) (\<lambda>acc' r. parse_members n d acc' r) acc s"

text \<open>Twice the length of the text is enough fuel (lemma \<open>parse_fuel\<close>).\<close>

definition Decode :: "string \<Rightarrow> json option" where
  "Decode s = map_option fst (parse_value (2 * length s + 1) 0 s)"

definition Unmarshal_text :: "string \<Rightarrow> json option" where
  "Unmarshal_text s =
     (case parse_value (2 * length s + 1) 0 s of
        None \<Rightarrow> None
      | Some (v, r) \<Rightarrow> if skip_space r = [] then Some v else None)"

section \<open>The writer\<close>

definition u_escape :: "nat \<Rightarrow> string" where
  "u_escape n = [backslash, CHR ''u'', hex_digit (n div 4096 mod 16), hex_digit (n div 256 mod 16),
     hex_digit (n div 16 mod 16), hex_digit (n mod 16)]"

definition quote_ascii :: "char \<Rightarrow> string" where
  "quote_ascii c =
     (if c = dquote \<or> c = backslash then [backslash, c]
      else if byte c = 8 then [backslash, CHR ''b'']
      else if byte c = 12 then [backslash, CHR ''f'']
      else if byte c = 10 then [backslash, CHR ''n'']
      else if byte c = 13 then [backslash, CHR ''r'']
      else if byte c = 9 then [backslash, CHR ''t'']
      else if byte c < 32 \<or> c = CHR ''<'' \<or> c = CHR ''>'' \<or> c = CHR ''&'' then u_escape (byte c)
      else [c])"

text \<open>\<open>decode_rune\<close> yields U+FFFD with no further byte exactly for a byte that starts no rune.\<close>

function quote_body :: "string \<Rightarrow> string" where
  "quote_body [] = []"
| "quote_body (a # s) =
     (let (r, w) = decode_rune a s
      in (if r < 128 then quote_ascii a
          else if r = RuneError \<and> w = 0 then u_escape RuneError
          else if r = 8232 \<or> r = 8233 then u_escape r
          else a # take w s) @ quote_body (drop w s))"
  by pat_completeness auto
termination
  by (relation "measure length") auto

definition quote_json :: "string \<Rightarrow> string" where
  "quote_json s = dquote # quote_body s @ [dquote]"

text \<open>\<open>json.Marshal\<close> of a \<open>map[string]string\<close>: the keys sorted. A map is a list of pairs with
  distinct keys, in any order.\<close>

definition member_text :: "string \<times> string \<Rightarrow> string" where
  "member_text kv = quote_json (fst kv) @ CHR '':'' # quote_json (snd kv)"

definition Marshal_map :: "(string \<times> string) list \<Rightarrow> string" where
  "Marshal_map m = CHR ''{'' # Join (map member_text (sort_key fst m)) '','' @ ''}''"

section \<open>The fuel is enough\<close>

lemma skip_space_length: "length (skip_space s) \<le> length s"
  by (simp add: skip_space_def length_dropWhile_le)

lemma skip_space_ConsD: "skip_space s = c # r \<Longrightarrow> length r < length s"
  using skip_space_length [of s] by simp

lemma parse_string_length: "parse_string acc s = Some (t, r) \<Longrightarrow> length r < length s"
proof (induction acc s rule: parse_string.induct)
  case (1 acc)
  then show ?case by simp
next
  case (2 acc c s)
  consider "c = dquote" | "c = backslash" "c \<noteq> dquote" | "c \<noteq> dquote" "c \<noteq> backslash" by blast
  then show ?case
  proof cases
    case 1
    with "2.prems" show ?thesis by (simp add: parse_string.simps)
  next
    case 2
    show ?thesis
    proof (cases s)
      case Nil
      with 2 "2.prems" show ?thesis by (simp add: parse_string.simps)
    next
      case (Cons e s')
      show ?thesis
      proof (cases "e = CHR ''u''")
        case True
        with "2.prems" 2 Cons obtain n s'' where h: "hex4 s' = Some (n, s'')"
          and p: "parse_string (acc @ encode_rune (fst (unescape_u n s''))) (snd (unescape_u n s'')) = Some (t, r)"
          by (auto simp: parse_string.simps split: option.splits)
        have "length r < length (snd (unescape_u n s''))"
          using "2.IH"(1) [OF 2(2,1) Cons True h refl] p by simp
        with unescape_u_length [of n s''] hex4_length [OF h] Cons show ?thesis by simp
      next
        case False
        with "2.prems" 2 Cons obtain x where x: "escape_char e = Some x"
          and p: "parse_string (acc @ [x]) s' = Some (t, r)"
          by (auto simp: parse_string.simps split: option.splits)
        from "2.IH"(2) [OF 2(2,1) Cons False x p] Cons show ?thesis by simp
      qed
    qed
  next
    case 3
    with "2.prems" have c: "\<not> byte c < 32"
      and p: "parse_string (acc @ encode_rune (fst (decode_rune c s))) (drop (snd (decode_rune c s)) s) = Some (t, r)"
      by (auto simp: parse_string.simps split: if_splits)
    from "2.IH"(3) [OF 3 c p] show ?thesis by simp
  qed
qed

lemma parse_number_length: "parse_number s = Some (v, r) \<Longrightarrow> length r < length s"
proof -
  have int_part: "length r' < length s'" if "parse_int_part s' = Some (i, r')" for s' i r'
  proof (cases s')
    case Nil
    with that show ?thesis by (simp add: parse_int_part_def)
  next
    case (Cons c cs)
    with that length_dropWhile_le [of digit cs] show ?thesis
      by (auto simp: parse_int_part_def split: if_splits)
  qed
  have frac: "length r' \<le> length s'" if "parse_frac_part s' = Some (f, r')" for s' f r'
    using that length_dropWhile_le [of digit "tl s'"]
    by (cases s') (auto simp: parse_frac_part_def split: if_splits)
  have exp: "length r' \<le> length s'" if "parse_exp_part s' = Some (e, r')" for s' e r'
  proof (cases s')
    case Nil
    with that show ?thesis by (simp add: parse_exp_part_def)
  next
    case (Cons c cs)
    have "length (dropWhile digit (drop k cs)) \<le> Suc (length cs)" for k
      using length_dropWhile_le [of digit "drop k cs"] by simp
    with Cons that show ?thesis by (auto simp: parse_exp_part_def Let_def split: if_splits)
  qed
  assume "parse_number s = Some (v, r)"
  then obtain k i s1 f s2 e where "parse_int_part (drop k s) = Some (i, s1)"
    "parse_frac_part s1 = Some (f, s2)" "parse_exp_part s2 = Some (e, r)"
    by (auto simp: parse_number_def Let_def split: option.splits)
  with int_part [of "drop k s"] frac [of s1] exp [of s2] show ?thesis by fastforce
qed

lemma literal_length: "w \<noteq> [] \<Longrightarrow> literal w v s = Some (x, r) \<Longrightarrow> length r < length s"
  by (cases s) (auto simp: literal_def HasPrefix_def split: if_splits)

lemma value_step_length:
  assumes "value_step elems members d s = Some (v, r)"
    and "\<And>t v r. elems t = Some (v, r) \<Longrightarrow> length r < length t"
    and "\<And>t v r. members t = Some (v, r) \<Longrightarrow> length r < length t"
  shows "length r < length s"
  using assms(1)
  by (auto simp: value_step_def dest!: skip_space_ConsD parse_string_length parse_number_length assms(2,3)
      literal_length [rotated] split: list.splits option.splits if_splits)

lemma elems_step_length:
  assumes "elems_step element more acc s = Some (v, r)"
    and "\<And>t v r. element t = Some (v, r) \<Longrightarrow> length r < length t"
    and "\<And>acc t v r. more acc t = Some (v, r) \<Longrightarrow> length r < length t"
  shows "length r < length s"
  using assms(1)
  by (auto simp: elems_step_def dest!: skip_space_ConsD assms(2,3) split: list.splits option.splits if_splits)

lemma member_key_length: "member_key s = Some (k, r) \<Longrightarrow> length r < length s"
  by (auto simp: member_key_def dest!: skip_space_ConsD parse_string_length
      split: list.splits option.splits if_splits)

lemma members_step_length:
  assumes "members_step element more acc s = Some (v, r)"
    and "\<And>t v r. element t = Some (v, r) \<Longrightarrow> length r < length t"
    and "\<And>acc t v r. more acc t = Some (v, r) \<Longrightarrow> length r < length t"
  shows "length r < length s"
  using assms(1)
  by (auto simp: members_step_def dest!: skip_space_ConsD member_key_length assms(2,3)
      split: list.splits option.splits if_splits)

lemma parse_length:
  "\<forall>d s v r. parse_value n d s = Some (v, r) \<longrightarrow> length r < length s"
  "\<forall>d acc s v r. parse_elems n d acc s = Some (v, r) \<longrightarrow> length r < length s"
  "\<forall>d acc s v r. parse_members n d acc s = Some (v, r) \<longrightarrow> length r < length s"
proof (induction n)
  case (Suc n)
  {
    case 1
    show ?case using value_step_length Suc.IH by (fastforce)
  next
    case 2
    show ?case using elems_step_length Suc.IH by (fastforce)
  next
    case 3
    show ?case using members_step_length Suc.IH by (fastforce)
  }
qed simp_all

text \<open>The steps look at their continuations only on shorter texts.\<close>

lemma value_step_cong:
  assumes "\<And>t. length t < length s \<Longrightarrow> elems t = elems' t"
    and "\<And>t. length t < length s \<Longrightarrow> members t = members' t"
  shows "value_step elems members d s = value_step elems' members' d s"
  by (auto simp: value_step_def assms skip_space_ConsD split: list.split)

lemma elems_step_cong:
  assumes "element s = element' s"
    and "\<And>v r. element s = Some (v, r) \<Longrightarrow> length r < length s"
    and "\<And>acc t. length t < length s \<Longrightarrow> more acc t = more' acc t"
  shows "elems_step element more acc s = elems_step element' more' acc s"
  unfolding elems_step_def assms(1) [symmetric]
  by (auto dest!: skip_space_ConsD assms(2) intro!: assms(3) split: option.split list.split)

lemma members_step_cong:
  assumes "\<And>t. length t < length s \<Longrightarrow> element t = element' t"
    and "\<And>t v r. element t = Some (v, r) \<Longrightarrow> length r < length t"
    and "\<And>acc t. length t < length s \<Longrightarrow> more acc t = more' acc t"
  shows "members_step element more acc s = members_step element' more' acc s"
proof (cases "member_key s")
  case None
  then show ?thesis by (simp add: members_step_def)
next
  case (Some p)
  obtain k r where p: "p = (k, r)" by fastforce
  have "length r < length s" using Some p member_key_length by simp
  then show ?thesis
    using Some p assms(1) [of r]
    by (auto simp: members_step_def dest!: skip_space_ConsD assms(2) intro!: assms(3)
        split: option.split list.split)
qed

lemma parse_fuel_irrelevant:
  "\<forall>m d s. 2 * length s + 1 \<le> n \<longrightarrow> 2 * length s + 1 \<le> m \<longrightarrow> parse_value n d s = parse_value m d s"
  "\<forall>m d acc s. 2 * length s + 2 \<le> n \<longrightarrow> 2 * length s + 2 \<le> m \<longrightarrow> parse_elems n d acc s = parse_elems m d acc s"
  "\<forall>m d acc s. 2 * length s + 2 \<le> n \<longrightarrow> 2 * length s + 2 \<le> m \<longrightarrow> parse_members n d acc s = parse_members m d acc s"
proof (induction n)
  case (Suc n)
  {
    case 1
    show ?case
    proof (intro allI impI)
      fix m d and s :: string
      assume n: "2 * length s + 1 \<le> Suc n" and "2 * length s + 1 \<le> m"
      then obtain k where m: "m = Suc k" "2 * length s \<le> k" by (cases m) auto
      show "parse_value (Suc n) d s = parse_value m d s"
        unfolding m parse_value.simps
      proof (rule value_step_cong)
        show "parse_elems n (Suc d) [] t = parse_elems k (Suc d) [] t" if "length t < length s" for t
          by (rule Suc.IH(2) [rule_format]) (use n m that in simp_all)
        show "parse_members n (Suc d) [] t = parse_members k (Suc d) [] t" if "length t < length s" for t
          by (rule Suc.IH(3) [rule_format]) (use n m that in simp_all)
      qed
    qed
  next
    case 2
    show ?case
    proof (intro allI impI)
      fix m d acc and s :: string
      assume n: "2 * length s + 2 \<le> Suc n" and "2 * length s + 2 \<le> m"
      then obtain k where m: "m = Suc k" "2 * length s + 1 \<le> k" by (cases m) auto
      show "parse_elems (Suc n) d acc s = parse_elems m d acc s"
        unfolding m parse_elems.simps
      proof (rule elems_step_cong)
        show "parse_value n d s = parse_value k d s"
          by (rule Suc.IH(1) [rule_format]) (use n m in simp_all)
        show "length r < length s" if "parse_value n d s = Some (v, r)" for v r
          using parse_length(1) that by blast
        show "parse_elems n d acc' t = parse_elems k d acc' t" if "length t < length s" for acc' t
          by (rule Suc.IH(2) [rule_format]) (use n m that in simp_all)
      qed
    qed
  next
    case 3
    show ?case
    proof (intro allI impI)
      fix m d acc and s :: string
      assume n: "2 * length s + 2 \<le> Suc n" and "2 * length s + 2 \<le> m"
      then obtain k where m: "m = Suc k" "2 * length s + 1 \<le> k" by (cases m) auto
      show "parse_members (Suc n) d acc s = parse_members m d acc s"
        unfolding m parse_members.simps
      proof (rule members_step_cong)
        show "parse_value n d t = parse_value k d t" if "length t < length s" for t
          by (rule Suc.IH(1) [rule_format]) (use n m that in simp_all)
        show "length r < length t" if "parse_value n d t = Some (v, r)" for t v r
          using parse_length(1) that by blast
        show "parse_members n d acc' t = parse_members k d acc' t" if "length t < length s" for acc' t
          by (rule Suc.IH(3) [rule_format]) (use n m that in simp_all)
      qed
    qed
  }
qed simp_all

lemma parse_fuel: "2 * length s + 1 \<le> n \<Longrightarrow> parse_value n d s = parse_value (2 * length s + 1) d s"
  using parse_fuel_irrelevant(1) by blast

section \<open>What is written is read back\<close>

lemma hex_value_digit: "n < 16 \<Longrightarrow> hex_value (hex_digit n) = Some n"
  by (auto simp: hex_value_def hex_digit_def)

lemma hex4_u_escape:
  assumes "n < 65536"
  shows "hex4 (hex_digit (n div 4096 mod 16) # hex_digit (n div 256 mod 16) # hex_digit (n div 16 mod 16)
    # hex_digit (n mod 16) # t) = Some (n, t)"
proof -
  have "n div 4096 mod 16 = n div 4096" using assms by auto
  then have "((n div 4096 mod 16 * 16 + n div 256 mod 16) * 16 + n div 16 mod 16) * 16 + n mod 16 = n"
    (is "((?w * 16 + ?x) * 16 + ?y) * 16 + ?z = n")
  proof -
    assume w: "?w = n div 4096"
    have "n div 4096 * 16 + n div 256 mod 16 = n div 256"
      "n div 256 * 16 + n div 16 mod 16 = n div 16" "n div 16 * 16 + n mod 16 = n"
      using div_mult_mod_eq [of n 16] div_mult_mod_eq [of "n div 16" 16] div_mult_mod_eq [of "n div 256" 16]
      by (simp_all add: div_mult2_eq [symmetric])
    then show ?thesis unfolding w by (simp only:)
  qed
  moreover have "hex4 (hex_digit a # hex_digit b # hex_digit c # hex_digit d # t) =
      Some (((a * 16 + b) * 16 + c) * 16 + d, t)" if "a < 16" "b < 16" "c < 16" "d < 16" for a b c d
    using that by (simp add: hex_value_digit)
  ultimately show ?thesis by (metis mod_less_divisor zero_less_numeral)
qed

lemma parse_u_escape:
  assumes "n < 65536" and "\<not> surrogate n"
  shows "parse_string acc (u_escape n @ t) = parse_string (acc @ encode_rune n) t"
proof -
  have "u_escape n @ t = backslash # CHR ''u'' # hex_digit (n div 4096 mod 16) # hex_digit (n div 256 mod 16)
      # hex_digit (n div 16 mod 16) # hex_digit (n mod 16) # t"
    by (simp add: u_escape_def)
  with hex4_u_escape [OF assms(1), of t] show ?thesis
    by (simp add: parse_string.simps json_chars unescape_u_def assms(2) del: hex4.simps)
qed

lemma ascii_encode: "byte c < 128 \<Longrightarrow> encode_rune (byte c) = [c]"
  by (simp add: encode_ascii)

lemma parse_plain:
  assumes "byte c < 128" "32 \<le> byte c" "c \<noteq> dquote" "c \<noteq> backslash"
  shows "parse_string acc (c # t) = parse_string (acc @ [c]) t"
  using assms by (simp add: parse_string.simps ascii_encode)

lemma byte_eqD: "byte c = n \<Longrightarrow> c = mk_byte n"
  by auto

lemma parse_quote_ascii:
  assumes "byte c < 128"
  shows "parse_string acc (quote_ascii c @ t) = parse_string (acc @ [c]) t"
proof -
  have u: "parse_string acc (u_escape (byte c) @ t) = parse_string (acc @ [c]) t"
    using assms by (simp add: parse_u_escape surrogate_def ascii_encode)
  have e: "parse_string acc (backslash # e # t) = parse_string (acc @ [x]) t"
    if "escape_char e = Some x" "e \<noteq> CHR ''u''" for e x
    using that by (simp add: parse_string.simps json_chars)
  have short: "c = dquote \<or> c = backslash \<Longrightarrow> parse_string acc (backslash # c # t) = parse_string (acc @ [c]) t"
    "byte c = 8 \<Longrightarrow> parse_string acc (backslash # CHR ''b'' # t) = parse_string (acc @ [c]) t"
    "byte c = 12 \<Longrightarrow> parse_string acc (backslash # CHR ''f'' # t) = parse_string (acc @ [c]) t"
    "byte c = 10 \<Longrightarrow> parse_string acc (backslash # CHR ''n'' # t) = parse_string (acc @ [c]) t"
    "byte c = 13 \<Longrightarrow> parse_string acc (backslash # CHR ''r'' # t) = parse_string (acc @ [c]) t"
    "byte c = 9 \<Longrightarrow> parse_string acc (backslash # CHR ''t'' # t) = parse_string (acc @ [c]) t"
    by (rule e; auto simp: escape_char_def json_chars dest: byte_eqD)+
  show ?thesis
    using assms by (simp add: quote_ascii_def u short parse_plain)
qed

lemma decode_rune_take:
  assumes "decode_rune a s = (r, w)" and "\<not> (r = RuneError \<and> w = 0)"
  shows "decode_rune a (take w s @ t) = (r, w)"
  using assms
  by (cases rule: decode_rune_cases [where a = a and s = s]) (auto simp: decode2 decode3 decode4)

lemma parse_quote_body:
  "parse_string acc (quote_body s @ dquote # t) = Some (acc @ string_of_runes (runes s), t)"
proof (induction s arbitrary: acc rule: quote_body.induct)
  case 1
  then show ?case by (simp add: parse_string.simps)
next
  case (2 a s)
  obtain r w where d: "decode_rune a s = (r, w)" by fastforce
  have IH: "parse_string acc (quote_body (drop w s) @ dquote # t) =
      Some (acc @ string_of_runes (runes (drop w s)), t)" for acc
    using "2.IH" d by simp
  consider "byte a < 128" | "128 \<le> byte a" "r = RuneError \<and> w = 0"
    | "128 \<le> byte a" "\<not> (r = RuneError \<and> w = 0)" "r = 8232 \<or> r = 8233"
    | "128 \<le> byte a" "\<not> (r = RuneError \<and> w = 0)" "\<not> (r = 8232 \<or> r = 8233)" by linarith
  then show ?case
  proof cases
    case 1
    then have "r = byte a" "w = 0" using d by simp_all
    with 1 IH [of "acc @ [a]"] show ?thesis by (simp add: parse_quote_ascii ascii_encode)
  next
    case 2
    with d IH [of "acc @ encode_rune RuneError"] show ?thesis
      by (simp add: parse_u_escape RuneError_def surrogate_def)
  next
    case 3
    with d show ?thesis by (auto simp: parse_u_escape IH RuneError_def surrogate_def)
  next
    case 4
    have r: "\<not> r < 128" using fst_decode_ascii_iff [of r a s] d 4(1) by auto
    have "w \<le> length s" using decode_rune_width [of a s] d by simp
    moreover have "a \<noteq> dquote" "a \<noteq> backslash" "\<not> byte a < 32" using 4(1) by (auto simp: json_chars)
    ultimately show ?thesis using r d 4 IH [of "acc @ encode_rune r"]
      by (auto simp: parse_string.simps decode_rune_take [OF d 4(2)])
  qed
qed

lemma parse_quote_json:
  "parse_string acc (tl (quote_json s) @ t) = Some (acc @ string_of_runes (runes s), t)"
  by (simp add: quote_json_def parse_quote_body)

text \<open>Invalid UTF-8 is replaced on the way.\<close>

definition to_utf8 :: "string \<Rightarrow> string" where
  "to_utf8 s = string_of_runes (runes s)"

lemma ascii_to_utf8: "ascii s \<Longrightarrow> to_utf8 s = s"
  using valid_utf8_ascii [of s] by (simp add: to_utf8_def valid_utf8_def)

lemma skip_space_Cons: "\<not> json_space c \<Longrightarrow> skip_space (c # s) = c # s"
  by (simp add: skip_space_def)

lemma no_space [simp]:
  "\<not> json_space dquote" "\<not> json_space CHR ''{''" "\<not> json_space CHR '':''" "\<not> json_space CHR '',''"
  "\<not> json_space CHR ''}''"
  by (simp_all add: json_space_def json_chars)

lemma parse_quoted_value: "parse_value (Suc n) d (quote_json s @ t) = Some (JStr (to_utf8 s), t)"
  by (simp add: quote_json_def value_step_def skip_space_Cons parse_quote_body to_utf8_def)

lemma parse_quoted_key: "member_key (quote_json k @ CHR '':'' # t) = Some (to_utf8 k, t)"
  by (simp add: quote_json_def member_key_def skip_space_Cons parse_quote_body to_utf8_def)

lemma parse_member_texts:
  assumes "ms \<noteq> []" and "length ms < n"
  shows "parse_members n d acc (Join (map member_text ms) '','' @ CHR ''}'' # t) =
    Some (JObj (acc @ map (\<lambda>(k, v). (to_utf8 k, JStr (to_utf8 v))) ms), t)"
  using assms
proof (induction ms arbitrary: n acc rule: list_nonempty_induct)
  case (single kv)
  then obtain m where n: "n = Suc (Suc m)" by (cases n; cases "n - 1") auto
  show ?case
    by (simp add: n members_step_def member_text_def parse_quoted_key parse_quoted_value skip_space_Cons
        case_prod_beta del: parse_value.simps)
next
  case (cons kv ms)
  then obtain m where n: "n = Suc (Suc m)" by (cases n; cases "n - 1") auto
  obtain kv' ms' where ms: "ms = kv' # ms'" using cons.hyps by (cases ms) auto
  have "parse_members (Suc m) d (acc @ [(to_utf8 (fst kv), JStr (to_utf8 (snd kv)))])
      (Join (map member_text ms) '','' @ CHR ''}'' # t) =
    Some (JObj ((acc @ [(to_utf8 (fst kv), JStr (to_utf8 (snd kv)))])
      @ map (\<lambda>(k, v). (to_utf8 k, JStr (to_utf8 v))) ms), t)"
    using cons.IH [of "Suc m"] cons.prems n by simp
  then show ?case
    by (simp add: n ms members_step_def member_text_def [of kv] parse_quoted_key parse_quoted_value
        skip_space_Cons case_prod_beta del: parse_value.simps)
qed

lemma parse_Marshal_map:
  "parse_value (2 * length (Marshal_map m @ t) + 1) 0 (Marshal_map m @ t) =
     Some (JObj (map (\<lambda>(k, v). (to_utf8 k, JStr (to_utf8 v))) (sort_key fst m)), t)"
proof -
  let ?s = "Marshal_map m @ t" and ?n = "2 * length (Marshal_map m @ t) + length m + 1"
  have "parse_value (2 * length ?s + 1) 0 ?s = parse_value (Suc ?n) 0 ?s"
    by (rule parse_fuel [symmetric]) simp
  also have "\<dots> = Some (JObj (map (\<lambda>(k, v). (to_utf8 k, JStr (to_utf8 v))) (sort_key fst m)), t)"
  proof (cases "sort_key fst m")
    case Nil
    then show ?thesis by (simp add: Marshal_map_def value_step_def skip_space_Cons max_depth_def json_chars)
  next
    case (Cons kv ms)
    let ?ms = "Join (map member_text (sort_key fst m)) '','' @ CHR ''}'' # t"
    have "?ms = dquote # tl ?ms"
      using Cons by (cases ms) (simp_all add: member_text_def quote_json_def)
    then have "skip_space ?ms = dquote # tl ?ms" by (metis skip_space_Cons no_space(1))
    moreover have "parse_members ?n (Suc 0) [] ?ms =
        Some (JObj ([] @ map (\<lambda>(k, v). (to_utf8 k, JStr (to_utf8 v))) (sort_key fst m)), t)"
      by (rule parse_member_texts) (use Cons in \<open>auto simp flip: length_sort [of fst m]\<close>)
    ultimately show ?thesis
      by (simp add: Marshal_map_def value_step_def skip_space_Cons max_depth_def json_chars)
  qed
  finally show ?thesis .
qed

section \<open>Storing a value\<close>

text \<open>
  Decoding into Go data: an absent key and \<open>null\<close> leave the data as it is (\<open>null\<close> sets a pointer, a
  slice or a map to nil), a value of the wrong type is an error. The keys of an object are
  processed in order; a key names the field whose tag it equals, or else one it equals up to case.
\<close>

text \<open>Case folding of \<open>foldName\<close>: ASCII letters, and the two runes that fold into ASCII. Other
  runes fold among themselves, which does not matter against field names, all of them ASCII.\<close>

definition fold_rune :: "nat \<Rightarrow> nat" where
  "fold_rune r =
     (if 97 \<le> r \<and> r \<le> 122 then r - 32 else if r = 383 then 83 else if r = 8490 then 75 else r)"

definition same_fold :: "string \<Rightarrow> string \<Rightarrow> bool" where
  "same_fold a b \<longleftrightarrow> map fold_rune (runes a) = map fold_rune (runes b)"

text \<open>
  A field: its name and how a value changes the struct, None for a value of the wrong type. The
  library notes the first such error and reads on; the callers drop the data then.
\<close>

type_synonym 's field = "string \<times> (json \<Rightarrow> 's \<Rightarrow> 's option)"

definition find_field :: "'s field list \<Rightarrow> string \<Rightarrow> (json \<Rightarrow> 's \<Rightarrow> 's option) option" where
  "find_field fs k =
     (case find (\<lambda>f. fst f = k) fs of
        Some f \<Rightarrow> Some (snd f)
      | None \<Rightarrow> map_option snd (find (\<lambda>f. same_fold (fst f) k) fs))"

fun decode_members :: "'s field list \<Rightarrow> (string \<times> json) list \<Rightarrow> 's \<Rightarrow> 's option" where
  "decode_members fs [] s = Some s"
| "decode_members fs ((k, v) # ms) s =
     (case find_field fs k of
        None \<Rightarrow> decode_members fs ms s
      | Some store \<Rightarrow> (case store v s of None \<Rightarrow> None | Some s' \<Rightarrow> decode_members fs ms s'))"

definition decode_struct :: "'s field list \<Rightarrow> json \<Rightarrow> 's \<Rightarrow> 's option" where
  "decode_struct fs v s =
     (case v of JNull \<Rightarrow> Some s | JObj ms \<Rightarrow> decode_members fs ms s | _ \<Rightarrow> None)"

definition store_string :: "(string \<Rightarrow> 's \<Rightarrow> 's) \<Rightarrow> json \<Rightarrow> 's \<Rightarrow> 's option" where
  "store_string put v s = (case v of JNull \<Rightarrow> Some s | JStr t \<Rightarrow> Some (put t s) | _ \<Rightarrow> None)"

definition store_bool :: "(bool \<Rightarrow> 's \<Rightarrow> 's) \<Rightarrow> json \<Rightarrow> 's \<Rightarrow> 's option" where
  "store_bool put v s = (case v of JNull \<Rightarrow> Some s | JBool b \<Rightarrow> Some (put b s) | _ \<Rightarrow> None)"

text \<open>An int takes the text of a number that \<open>strconv.ParseInt\<close> accepts.\<close>

definition store_int :: "(int \<Rightarrow> 's \<Rightarrow> 's) \<Rightarrow> json \<Rightarrow> 's \<Rightarrow> 's option" where
  "store_int put v s =
     (case v of
        JNull \<Rightarrow> Some s
      | JNum t \<Rightarrow> (case Atoi t of (n, ok) \<Rightarrow> if ok then Some (put n s) else None)
      | _ \<Rightarrow> None)"

text \<open>\<open>strconv.ParseFloat\<close> of a JSON number: its exact value rounded to \<open>prec\<close> binary digits, no
  finer than \<open>2 powi emin\<close>, an error from \<open>2 powi emax\<close> on.\<close>

definition number_value :: "string \<Rightarrow> rat" where
  "number_value t =
     (let neg = (t \<noteq> [] \<and> hd t = CHR ''-'');
          u = (if neg then tl t else t);
          m = takeWhile (\<lambda>c. c \<noteq> CHR ''e'' \<and> c \<noteq> CHR ''E'') u;
          e = fst (Atoi (drop (length m + 1) u));
          i = takeWhile (\<lambda>c. c \<noteq> CHR ''.'') m;
          f = drop (length i + 1) m;
          v = of_nat (digits_value (i @ f)) * 10 powi (e - int (length f))
      in if neg then - v else v)"

definition round_binary :: "int \<Rightarrow> int \<Rightarrow> rat \<Rightarrow> rat" where
  "round_binary prec emin q =
     (if q = 0 then 0
      else let u = 2 powi max (expo \<bar>q\<bar> - (prec - 1)) emin; v = of_int (rne (\<bar>q\<bar> / u)) * u
           in if q < 0 then - v else v)"

definition ParseFloat :: "int \<Rightarrow> int \<Rightarrow> int \<Rightarrow> string \<Rightarrow> rat option" where
  "ParseFloat prec emin emax t =
     (let v = round_binary prec emin (number_value t)
      in if \<bar>v\<bar> < 2 powi emax then Some v else None)"

definition float64_text :: "string \<Rightarrow> float64 option" where
  "float64_text t = ParseFloat 53 (- 1074) 1024 t"

definition float32_text :: "string \<Rightarrow> rat option" where
  "float32_text t = ParseFloat 24 (- 149) 128 t"

definition store_float64 :: "(float64 \<Rightarrow> 's \<Rightarrow> 's) \<Rightarrow> json \<Rightarrow> 's \<Rightarrow> 's option" where
  "store_float64 put v s =
     (case v of
        JNull \<Rightarrow> Some s
      | JNum t \<Rightarrow> (case float64_text t of None \<Rightarrow> None | Some x \<Rightarrow> Some (put x s))
      | _ \<Rightarrow> None)"

text \<open>A slice is filled element by element; a null element is the zero value.\<close>

fun decode_elems :: "(json \<Rightarrow> 'a \<Rightarrow> 'a option) \<Rightarrow> 'a \<Rightarrow> json list \<Rightarrow> 'a list option" where
  "decode_elems store zero [] = Some []"
| "decode_elems store zero (v # vs) =
     (case store v zero of
        None \<Rightarrow> None
      | Some x \<Rightarrow> map_option (Cons x) (decode_elems store zero vs))"

definition store_slice ::
  "(json \<Rightarrow> 'a \<Rightarrow> 'a option) \<Rightarrow> 'a \<Rightarrow> ('a list \<Rightarrow> 's \<Rightarrow> 's) \<Rightarrow> json \<Rightarrow> 's \<Rightarrow> 's option" where
  "store_slice store zero put v s =
     (case v of
        JNull \<Rightarrow> Some (put [] s)
      | JArr vs \<Rightarrow> map_option (\<lambda>xs. put xs s) (decode_elems store zero vs)
      | _ \<Rightarrow> None)"

text \<open>A pointer to a struct: \<open>null\<close> is nil, an object is read into what it points to, or a new one.\<close>

definition store_pointer ::
  "'a field list \<Rightarrow> 'a \<Rightarrow> ('s \<Rightarrow> 'a option) \<Rightarrow> ('a option \<Rightarrow> 's \<Rightarrow> 's) \<Rightarrow> json \<Rightarrow> 's \<Rightarrow> 's option" where
  "store_pointer fs zero get put v s =
     (if v = JNull then Some (put None s)
      else map_option (\<lambda>x. put (Some x) s)
        (decode_struct fs v (case get s of None \<Rightarrow> zero | Some x \<Rightarrow> x)))"

text \<open>Into an \<open>interface{}\<close> goes every value whose numbers a \<open>float64\<close> can hold.\<close>

fun any_value :: "json \<Rightarrow> bool" where
  "any_value (JNum t) = (float64_text t \<noteq> None)"
| "any_value (JArr vs) = list_all any_value vs"
| "any_value (JObj ms) = list_all (\<lambda>(k, v). any_value v) ms"
| "any_value _ = True"

section \<open>Evaluation\<close>

lemma parse_close: "parse_string acc (CHR 0x22 # t) = Some (acc, t)"
  by (simp add: parse_string.simps dquote_def)

lemma parse_numerals:
  "parse_value (numeral k) d s =
     value_step (\<lambda>r. parse_elems (pred_numeral k) (Suc d) [] r) (\<lambda>r. parse_members (pred_numeral k) (Suc d) [] r) d s"
  "parse_elems (numeral k) d acc s =
     elems_step (\<lambda>r. parse_value (pred_numeral k) d r) (\<lambda>acc' r. parse_elems (pred_numeral k) d acc' r) acc s"
  "parse_members (numeral k) d mem s =
     members_step (\<lambda>r. parse_value (pred_numeral k) d r) (\<lambda>acc' r. parse_members (pred_numeral k) d acc' r) mem s"
  by (simp_all add: numeral_eq_Suc)

lemma Decode_fuel: "2 * length s + 1 \<le> n \<Longrightarrow> Decode s = map_option fst (parse_value n 0 s)"
  using parse_fuel [of s n 0] by (simp add: Decode_def)

lemmas json_eval = parse_numerals [unfolded value_step_def elems_step_def members_step_def]
  parse_close parse_plain member_key_def skip_space_def json_space_def json_chars max_depth_def parse_number_def
  parse_int_part_def parse_frac_part_def parse_exp_part_def literal_def HasPrefix_def digit_def
  quote_json_def quote_ascii_def

lemma zero_text: "float64_text ''0'' = Some 0" "float32_text ''0'' = Some 0"
  by (simp_all add: float64_text_def float32_text_def ParseFloat_def round_binary_def number_value_def
    digits_value_def Atoi_def)

end
