(* ===== verification/GoHttp.thy ===== *)
theory GoHttp
  imports GoLib
begin

text \<open>
  What the clients of HTTP services share: requests and responses of \<open>net/http\<close>, with the network
  and the service as an argument (\<open>transport\<close>: whether a request can be built, and the answer to it
  or an error), and the text of a \<open>mime/multipart\<close> form.
\<close>

section \<open>Requests and responses\<close>

record http_request =
  rq_method :: string
  rq_url :: string
  rq_content_type :: string
  rq_body :: bytes

record http_response =
  StatusCode :: int
  rs_Status :: string
  rs_Body :: bytes

text \<open>Errors of the transport are given by their text.\<close>

record transport =
  newRequest :: "string \<Rightarrow> string \<Rightarrow> string option"
  http_Do :: "http_request \<Rightarrow> string + http_response"

section \<open>Multipart forms\<close>

datatype form_part = Field string string | FileField string string bytes

definition crlf :: string where
  "crlf = [CHR 0x0D, CHR 0x0A]"

text \<open>\<open>escapeQuotes\<close>: a backslash before backslashes and quotes.\<close>

definition escapeQuotes :: "string \<Rightarrow> string" where
  "escapeQuotes s =
     concat (map (\<lambda>c. if c = CHR 0x5C \<or> c = CHR 0x22 then [CHR 0x5C, c] else [c]) s)"

fun part_header :: "form_part \<Rightarrow> string" where
  "part_header (Field name v) =
     ''Content-Disposition: form-data; name='' @ CHR 0x22 # escapeQuotes name @ CHR 0x22 # crlf"
| "part_header (FileField name filename v) =
     ''Content-Disposition: form-data; name='' @ CHR 0x22 # escapeQuotes name @ CHR 0x22 # ''; filename=''
       @ CHR 0x22 # escapeQuotes filename @ CHR 0x22 # crlf @ ''Content-Type: application/octet-stream'' @ crlf"

fun part_content :: "form_part \<Rightarrow> bytes" where
  "part_content (Field name v) = v"
| "part_content (FileField name filename v) = v"

text \<open>\<open>CreatePart\<close> ends the previous part, if there is one, and \<open>Close\<close> the last.\<close>

fun write_parts :: "string \<Rightarrow> bool \<Rightarrow> form_part list \<Rightarrow> bytes" where
  "write_parts boundary first [] = crlf @ ''--'' @ boundary @ ''--'' @ crlf"
| "write_parts boundary first (p # ps) =
     (if first then [] else crlf) @ ''--'' @ boundary @ crlf @ part_header p @ crlf @ part_content p
       @ write_parts boundary False ps"

definition multipart_body :: "string \<Rightarrow> form_part list \<Rightarrow> bytes" where
  "multipart_body boundary parts = write_parts boundary True parts"

definition FormDataContentType :: "string \<Rightarrow> string" where
  "FormDataContentType boundary = ''multipart/form-data; boundary='' @ boundary"

end
