(* ===== verification/Cloudinary.thy ===== *)
theory Cloudinary
  imports Sha1 Json GoHttp
begin

text \<open>
  The image uploads of the API, \<open>src/internal/cloudinary/client.go\<close>: the signed parameters, the
  form that is posted and the reading of the answer. A Go map is a list of pairs with distinct keys,
  and the order in which a loop visits it is an argument. The lemmas: the signature does not depend
  on that order and is the one the service documents, and what a successful upload means.
\<close>

section \<open>Model\<close>

record CloudClient =
  CloudName :: string
  APIKey :: string
  APISecret :: string
  Folder :: string

definition NewCloudClient :: "string \<Rightarrow> string \<Rightarrow> string \<Rightarrow> string \<Rightarrow> CloudClient" where
  "NewCloudClient cloudName apiKey apiSecret folder =
     \<lparr>CloudName = cloudName, APIKey = apiKey, APISecret = apiSecret, Folder = folder\<rparr>"

record UploadResult =
  PublicID :: string
  SecureURL :: string
  URL :: string
  Format :: string
  Width :: int
  Height :: int
  Bytes :: int

type_synonym params = "(string \<times> string) list"

definition excludeKeys :: "string \<Rightarrow> bool" where
  "excludeKeys k \<longleftrightarrow> k = ''api_key'' \<or> k = ''file'' \<or> k = ''resource_type''"

definition signed_pairs :: "params \<Rightarrow> string list" where
  "signed_pairs ps = map (\<lambda>(k, v). k @ ''='' @ v) (filter (\<lambda>(k, v). \<not> excludeKeys k \<and> v \<noteq> []) ps)"

text \<open>\<open>ps\<close> are the parameters in the order in which the loop visits them.\<close>

definition sign :: "CloudClient \<Rightarrow> params \<Rightarrow> string" where
  "sign c ps = sha1_hex (Join (sort (signed_pairs ps)) ''&'' @ APISecret c)"

text \<open>What the environment contributes to an upload: clock, the two map orders, the boundary.\<close>

record upload_env =
  up_now :: time
  up_sign_order :: "params \<Rightarrow> params"
  up_write_order :: "params \<Rightarrow> params"
  up_boundary :: string
  up_net :: transport

definition upload_params :: "CloudClient \<Rightarrow> time \<Rightarrow> params" where
  "upload_params c now =
     [(''timestamp'', int_text (now div Second)), (''api_key'', APIKey c)]
       @ (if Folder c \<noteq> [] then [(''folder'', Folder c)] else [])"

definition signed_params :: "CloudClient \<Rightarrow> upload_env \<Rightarrow> params" where
  "signed_params c e =
     (let ps = upload_params c (up_now e) in ps @ [(''signature'', sign c (up_sign_order e ps))])"

definition upload_url :: "string \<Rightarrow> string" where
  "upload_url cloudName = ''https://api.cloudinary.com/v1_1/'' @ cloudName @ ''/image/upload''"

definition upload_fields :: "UploadResult field list" where
  "upload_fields =
     [(''public_id'', store_string (\<lambda>x r. r\<lparr>PublicID := x\<rparr>)),
      (''secure_url'', store_string (\<lambda>x r. r\<lparr>SecureURL := x\<rparr>)),
      (''url'', store_string (\<lambda>x r. r\<lparr>URL := x\<rparr>)),
      (''format'', store_string (\<lambda>x r. r\<lparr>Format := x\<rparr>)),
      (''width'', store_int (\<lambda>x r. r\<lparr>Width := x\<rparr>)),
      (''height'', store_int (\<lambda>x r. r\<lparr>Height := x\<rparr>)),
      (''bytes'', store_int (\<lambda>x r. r\<lparr>Bytes := x\<rparr>))]"

definition upload_zero :: UploadResult where
  "upload_zero = \<lparr>PublicID = [], SecureURL = [], URL = [], Format = [], Width = 0, Height = 0, Bytes = 0\<rparr>"

text \<open>Both methods post the parameters followed by the file part. The body of a response is what
  \<open>io.ReadAll\<close> returns, its error being ignored; the text of a JSON error is left out.\<close>

definition post_form :: "CloudClient \<Rightarrow> upload_env \<Rightarrow> form_part \<Rightarrow> UploadResult result" where
  "post_form c e file =
     (let url = upload_url (CloudName c);
          parts = map (\<lambda>(k, v). Field k v) (up_write_order e (signed_params c e)) @ [file]
      in case newRequest (up_net e) ''POST'' url of
           Some t \<Rightarrow> Inl (Errorf (''cloudinary: create request failed: '' @ t))
         | None \<Rightarrow>
             (case http_Do (up_net e) \<lparr>rq_method = ''POST'', rq_url = url,
                     rq_content_type = FormDataContentType (up_boundary e),
                     rq_body = multipart_body (up_boundary e) parts\<rparr> of
                Inl t \<Rightarrow> Inl (Errorf (''cloudinary: request failed: '' @ t))
              | Inr resp \<Rightarrow>
                  if 300 \<le> StatusCode resp
                  then Inl (Errorf (''cloudinary: upload failed ('' @ int_text (StatusCode resp) @ ''): '' @ rs_Body resp))
                  else (case Unmarshal_text (rs_Body resp) of
                    None \<Rightarrow> Inl (Errorf ''cloudinary: decode response failed'')
                  | Some v \<Rightarrow>
                      (case decode_struct upload_fields v upload_zero of
                         None \<Rightarrow> Inl (Errorf ''cloudinary: decode response failed'')
                       | Some result \<Rightarrow> Inr result))))"

definition UploadBase64 :: "CloudClient \<Rightarrow> upload_env \<Rightarrow> string \<Rightarrow> UploadResult result" where
  "UploadBase64 c e data = post_form c e (Field ''file'' data)"

definition UploadBytes :: "CloudClient \<Rightarrow> upload_env \<Rightarrow> bytes \<Rightarrow> string \<Rightarrow> UploadResult result" where
  "UploadBytes c e data filename = post_form c e (FileField ''file'' filename data)"

section \<open>Signatures\<close>

lemma signed_pairs_mset:
  "mset (signed_pairs ps) =
     image_mset (\<lambda>(k, v). k @ ''='' @ v) (filter_mset (\<lambda>(k, v). \<not> excludeKeys k \<and> v \<noteq> []) (mset ps))"
  by (simp add: signed_pairs_def)

lemma sort_mset_cong: "mset xs = mset ys \<Longrightarrow> sort xs = sort ys"
  by (metis properties_for_sort mset_sort sorted_sort)

lemma int_text_nonempty: "int_text i \<noteq> []"
  by (simp add: int_text_def nat_text_nonempty)

lemma sign_upload_params:
  assumes "mset (ord (upload_params c now)) = mset (upload_params c now)"
  shows "sign c (ord (upload_params c now)) = sha1_hex
    ((if Folder c \<noteq> [] then ''folder='' @ Folder c @ ''&'' else []) @ ''timestamp='' @ int_text (now div Second)
      @ APISecret c)"
proof -
  have "sort (signed_pairs (ord (upload_params c now))) = sort (signed_pairs (upload_params c now))"
    by (rule sort_mset_cong) (simp only: signed_pairs_mset assms)
  also have "\<dots> = (if Folder c \<noteq> [] then [''folder='' @ Folder c] else []) @ [''timestamp='' @ int_text (now div Second)]"
    by (simp add: signed_pairs_def upload_params_def excludeKeys_def int_text_nonempty)
  finally show ?thesis by (simp add: sign_def)
qed

section \<open>Properties\<close>

lemma post_form_InrD:
  assumes "post_form c e file = Inr result"
  obtains resp v where "http_Do (up_net e) \<lparr>rq_method = ''POST'', rq_url = upload_url (CloudName c),
      rq_content_type = FormDataContentType (up_boundary e),
      rq_body = multipart_body (up_boundary e)
        (map (\<lambda>(k, v). Field k v) (up_write_order e (signed_params c e)) @ [file])\<rparr> = Inr resp"
    and "StatusCode resp < 300" and "Unmarshal_text (rs_Body resp) = Some v"
    and "decode_struct upload_fields v upload_zero = Some result"
  using assms by (auto simp: post_form_def Let_def split: option.splits sum.splits if_splits)

text \<open>
  The signature of a request does not depend on the order in which Go visits the parameters, on
  the API key, or on parameters without a value: two parameter maps with the same remaining pairs
  are signed alike.
\<close>

lemma sign_depends_on_signed_params:
  assumes "filter_mset (\<lambda>(k, v). \<not> excludeKeys k \<and> v \<noteq> []) (mset ps)
    = filter_mset (\<lambda>(k, v). \<not> excludeKeys k \<and> v \<noteq> []) (mset qs)"
  shows "sign c ps = sign c qs"
proof -
  have "sort (signed_pairs ps) = sort (signed_pairs qs)"
    by (rule sort_mset_cong) (simp only: signed_pairs_mset assms)
  then show ?thesis by (simp add: sign_def)
qed

lemma sign_depends_on_signed_params_example:
  "sign (NewCloudClient ''n'' ''k'' ''s'' ''f'') [(''timestamp'', ''7''), (''api_key'', ''k''), (''folder'', ''f'')]
     = sign (NewCloudClient ''n'' ''k'' ''s'' ''f'') [(''folder'', ''f''), (''eager'', []), (''timestamp'', ''7'')]"
  by (rule sign_depends_on_signed_params) (simp add: excludeKeys_def)

text \<open>
  C31. An upload that succeeds has posted to the image endpoint of the cloud one form with, in some
  order, the timestamp, the API key, the folder if one is configured and the signature the service
  documents (SHA-1 of the sorted parameters followed by the secret), and then the image; the service
  has answered below 300 with a JSON text, and the result is decoded from it.
\<close>

theorem upload_is_signed:
  assumes "UploadBase64 c e data = Inr result"
    and "\<And>ps. mset (up_sign_order e ps) = mset ps" and "\<And>ps. mset (up_write_order e ps) = mset ps"
  shows "\<exists>fields resp v.
    mset fields = mset ([(''timestamp'', int_text (up_now e div Second)), (''api_key'', APIKey c)]
      @ (if Folder c \<noteq> [] then [(''folder'', Folder c)] else [])
      @ [(''signature'', sha1_hex ((if Folder c \<noteq> [] then ''folder='' @ Folder c @ ''&'' else [])
           @ ''timestamp='' @ int_text (up_now e div Second) @ APISecret c))])
    \<and> http_Do (up_net e) \<lparr>rq_method = ''POST'', rq_url = upload_url (CloudName c),
        rq_content_type = FormDataContentType (up_boundary e),
        rq_body = multipart_body (up_boundary e) (map (\<lambda>(k, v). Field k v) fields @ [Field ''file'' data])\<rparr>
      = Inr resp
    \<and> StatusCode resp < 300 \<and> Unmarshal_text (rs_Body resp) = Some v
    \<and> decode_struct upload_fields v upload_zero = Some result"
proof -
  from assms(1) have "post_form c e (Field ''file'' data) = Inr result" by (simp add: UploadBase64_def)
  then obtain resp v where "http_Do (up_net e) \<lparr>rq_method = ''POST'', rq_url = upload_url (CloudName c),
      rq_content_type = FormDataContentType (up_boundary e),
      rq_body = multipart_body (up_boundary e)
        (map (\<lambda>(k, v). Field k v) (up_write_order e (signed_params c e)) @ [Field ''file'' data])\<rparr> = Inr resp"
    "StatusCode resp < 300" "Unmarshal_text (rs_Body resp) = Some v"
    "decode_struct upload_fields v upload_zero = Some result"
    by (rule post_form_InrD)
  moreover have "mset (up_write_order e (signed_params c e)) = mset (upload_params c (up_now e)
      @ [(''signature'', sha1_hex ((if Folder c \<noteq> [] then ''folder='' @ Folder c @ ''&'' else [])
           @ ''timestamp='' @ int_text (up_now e div Second) @ APISecret c))])"
    using assms(2,3) by (simp only: signed_params_def Let_def sign_upload_params)
  ultimately show ?thesis unfolding upload_params_def append.assoc by (intro exI conjI)
qed

definition one_upload :: upload_env where
  "one_upload = \<lparr>up_now = 0, up_sign_order = rev, up_write_order = rev, up_boundary = ''b'',
     up_net = \<lparr>newRequest = (\<lambda>_ _. None),
       http_Do = (\<lambda>_. Inr \<lparr>StatusCode = 200, rs_Status = ''200 OK'', rs_Body = ''{}''\<rparr>)\<rparr>\<rparr>"

lemma empty_object: "Unmarshal_text ''{}'' = Some (JObj [])"
  by (simp add: Unmarshal_text_def json_eval)

lemma one_upload_answer: "UploadBase64 c one_upload data = Inr upload_zero"
  by (simp add: UploadBase64_def post_form_def one_upload_def empty_object decode_struct_def)

lemma zero_timestamp: "int_text 0 = ''0''"
  by (simp add: int_text_def nat_text.simps char_of_def bit_0)

theorem upload_is_signed_witness:
  "UploadBase64 (NewCloudClient ''n'' ''k'' ''s'' ''f'') one_upload ''x'' = Inr upload_zero \<and>
   (\<exists>fields resp v. mset fields = mset [(''timestamp'', ''0''), (''api_key'', ''k''), (''folder'', ''f''),
        (''signature'', sha1_hex ''folder=f&timestamp=0s'')]
      \<and> http_Do (up_net one_upload) \<lparr>rq_method = ''POST'', rq_url = upload_url ''n'',
          rq_content_type = FormDataContentType ''b'',
          rq_body = multipart_body ''b'' (map (\<lambda>(k, v). Field k v) fields @ [Field ''file'' ''x''])\<rparr> = Inr resp
      \<and> StatusCode resp < 300 \<and> Unmarshal_text (rs_Body resp) = Some v
      \<and> decode_struct upload_fields v upload_zero = Some upload_zero)"
proof (rule conjI [OF one_upload_answer])
  have n: "up_now one_upload = 0" "up_boundary one_upload = ''b''"
    "\<And>ps. mset (up_sign_order one_upload ps) = mset ps" "\<And>ps. mset (up_write_order one_upload ps) = mset ps"
    by (simp_all add: one_upload_def)
  show "\<exists>fields resp v. mset fields = mset [(''timestamp'', ''0''), (''api_key'', ''k''), (''folder'', ''f''),
        (''signature'', sha1_hex ''folder=f&timestamp=0s'')]
      \<and> http_Do (up_net one_upload) \<lparr>rq_method = ''POST'', rq_url = upload_url ''n'',
          rq_content_type = FormDataContentType ''b'',
          rq_body = multipart_body ''b'' (map (\<lambda>(k, v). Field k v) fields @ [Field ''file'' ''x''])\<rparr> = Inr resp
      \<and> StatusCode resp < 300 \<and> Unmarshal_text (rs_Body resp) = Some v
      \<and> decode_struct upload_fields v upload_zero = Some upload_zero"
    using upload_is_signed [OF one_upload_answer [of "NewCloudClient ''n'' ''k'' ''s'' ''f''" "''x''"] n(3,4)]
    by (simp add: n(1,2) NewCloudClient_def zero_timestamp)
qed

end
