(* ===== verification/Repository.thy ===== *)
theory Repository
  imports GoLib
begin

text \<open>
  The Postgres repository of \<open>src/internal/attendance/repo.go\<close> over the tables of
  \<open>src/migrations/\<close>. A table is the list of its rows, and each SQL statement of the source is
  translated to what it does to those lists, with the constraints the migrations declare
  (primary key, UNIQUE, REFERENCES, nullable columns). What the server and its driver contribute
  to one statement is a record of arguments, \<open>pg\<close>: an error of the statement (which may have
  been executed although its reply was lost), the clock behind
  \<open>NOW()\<close>, the reading of text as a UUID, the default UUID, the interval of a number of seconds,
  and the order in which rows are scanned. A statement that violates a constraint leaves the
  tables unchanged. The lemmas: every operation keeps the constraints, what a read returns after each write, and
  that the listing is a page of the newest-first selection.
\<close>

section \<open>Data\<close>

record Event =
  ID :: string
  UserID :: string
  DeviceID :: string
  When :: time
  Location :: string
  ImageURL :: string
  Status :: string
  MatchScore :: "float64 option"
  CreatedAt :: time

record Employee =
  emp_ID :: string
  emp_EmployeeID :: string
  emp_Name :: "string option"
  emp_Email :: "string option"
  emp_Department :: "string option"
  emp_FaceEnrolled :: bool
  emp_EnrolledAt :: "time option"
  emp_CreatedAt :: time

text \<open>The rows, with the columns that the statements of the source read or write.\<close>

record device_row =
  d_device_id :: string
  d_created_at :: time

record event_row =
  e_id :: string
  e_user_id :: string
  e_device_id :: string
  e_occurred_at :: time
  e_location :: "string option"
  e_image_url :: "string option"
  e_status :: string
  e_match_score :: "float64 option"
  e_created_at :: time

record token_row =
  t_device_id :: string
  t_token :: string
  t_expires_at :: time
  t_revoked :: bool

record employee_row =
  m_id :: string
  m_employee_id :: string
  m_name :: "string option"
  m_email :: "string option"
  m_department :: "string option"
  m_face_enrolled :: bool
  m_enrolled_at :: "time option"
  m_created_at :: time
  m_updated_at :: time

record db =
  devices :: "device_row list"
  attendance_events :: "event_row list"
  refresh_tokens :: "token_row list"
  employees :: "employee_row list"

definition empty_db :: db where
  "empty_db = \<lparr>devices = [], attendance_events = [], refresh_tokens = [], employees = []\<rparr>"

text \<open>An error from below the statement: it was not executed, or it was and its reply was lost.\<close>

datatype fault = NotRun error | ReplyLost error

record pg =
  pg_fault :: "fault option"
  pg_now :: time
  pg_uuid_in :: "string \<Rightarrow> string option"
  pg_uuid_gen :: string
  pg_seconds :: "float64 \<Rightarrow> duration"
  pg_scan :: "event_row list \<Rightarrow> event_row list"
  pg_scan_employees :: "employee_row list \<Rightarrow> employee_row list"

text \<open>The result of a statement that yields \<open>out\<close> and the tables \<open>d'\<close> when nothing goes wrong.\<close>

definition exec_stmt :: "pg \<Rightarrow> (error \<Rightarrow> 'o) \<Rightarrow> db \<Rightarrow> 'o \<times> db \<Rightarrow> 'o \<times> db" where
  "exec_stmt p fail d r =
     (case pg_fault p of
        None \<Rightarrow> r
      | Some (NotRun e) \<Rightarrow> (fail e, d)
      | Some (ReplyLost e) \<Rightarrow> (fail e, snd r))"

definition query_stmt :: "pg \<Rightarrow> 'a result \<Rightarrow> 'a result" where
  "query_stmt p r =
     (case pg_fault p of None \<Rightarrow> r | Some (NotRun e) \<Rightarrow> Inl e | Some (ReplyLost e) \<Rightarrow> Inl e)"

lemma exec_stmt_ok [simp]: "pg_fault p = None \<Longrightarrow> exec_stmt p fail d r = r"
  by (simp add: exec_stmt_def)

lemma query_stmt_ok [simp]: "pg_fault p = None \<Longrightarrow> query_stmt p r = r"
  by (simp add: query_stmt_def)

lemma query_stmt_Inr_iff: "query_stmt p r = Inr x \<longleftrightarrow> pg_fault p = None \<and> r = Inr x"
  by (simp add: query_stmt_def split: option.splits fault.splits)

lemma exec_stmt_tables: "snd (exec_stmt p fail d r) = d \<or> snd (exec_stmt p fail d r) = snd r"
  by (simp add: exec_stmt_def split: option.splits fault.splits)

lemma exec_stmt_Inr_iff: "exec_stmt p Inl d r = (Inr x, d') \<longleftrightarrow> pg_fault p = None \<and> r = (Inr x, d')"
  by (auto simp: exec_stmt_def split: option.splits fault.splits)

lemma exec_stmt_None_iff: "exec_stmt p Some d r = (None, d') \<longleftrightarrow> pg_fault p = None \<and> r = (None, d')"
  by (auto simp: exec_stmt_def split: option.splits fault.splits)

text \<open>A \<open>TIMESTAMPTZ\<close> has microseconds: the driver drops the rest of the nanoseconds.\<close>

definition pg_time :: "time \<Rightarrow> time" where
  "pg_time t = t div 1000 * 1000"

lemma pg_time_le: "pg_time t \<le> t"
  by (simp add: pg_time_def)

lemma pg_time_idem [simp]: "pg_time (pg_time t) = pg_time t"
  by (simp add: pg_time_def)

lemma pg_time_mono: "s \<le> t \<Longrightarrow> pg_time s \<le> pg_time t"
  by (simp add: pg_time_def zdiv_mono1)

section \<open>Devices and refresh tokens\<close>

definition registered :: "db \<Rightarrow> string \<Rightarrow> bool" where
  "registered d deviceID \<longleftrightarrow> deviceID \<in> d_device_id ` set (devices d)"

definition UpsertDevice :: "pg \<Rightarrow> db \<Rightarrow> string \<Rightarrow> err \<times> db" where
  "UpsertDevice p d deviceID =
     (if deviceID = [] then (Some (Errorf ''device id required''), d)
      else exec_stmt p Some d
        (if registered d deviceID then (None, d)
         else (None, d\<lparr>devices := devices d @
                 [\<lparr>d_device_id = deviceID, d_created_at = pg_now p\<rparr>]\<rparr>)))"

definition SaveRefreshToken :: "pg \<Rightarrow> db \<Rightarrow> string \<Rightarrow> string \<Rightarrow> time \<Rightarrow> err \<times> db" where
  "SaveRefreshToken p d deviceID token expiresAt =
     exec_stmt p Some d
       (if token \<in> t_token ` set (refresh_tokens d)
        then (Some (UniqueViolation ''refresh_tokens_token_key''), d)
        else if \<not> registered d deviceID
        then (Some (ForeignKeyViolation ''refresh_tokens_device_id_fkey''), d)
        else (None, d\<lparr>refresh_tokens := refresh_tokens d @
                [\<lparr>t_device_id = deviceID, t_token = token, t_expires_at = pg_time expiresAt,
                  t_revoked = False\<rparr>]\<rparr>))"

definition RevokeRefreshToken :: "pg \<Rightarrow> db \<Rightarrow> string \<Rightarrow> err \<times> db" where
  "RevokeRefreshToken p d token =
     exec_stmt p Some d
       (None, d\<lparr>refresh_tokens :=
          row_update t_token token (\<lambda>r. r\<lparr>t_revoked := True\<rparr>) (refresh_tokens d)\<rparr>)"

section \<open>Attendance events\<close>

text \<open>\<open>row.Scan\<close> into an Event: a NULL cannot be read into a Go string.\<close>

definition scan_event :: "event_row \<Rightarrow> Event result" where
  "scan_event r =
     (case e_location r of
        None \<Rightarrow> Inl (ScanNull ''location'')
      | Some loc \<Rightarrow>
          (case e_image_url r of
             None \<Rightarrow> Inl (ScanNull ''image_url'')
           | Some url \<Rightarrow>
               Inr \<lparr>ID = e_id r, UserID = e_user_id r, DeviceID = e_device_id r,
                    When = e_occurred_at r, Location = loc, ImageURL = url, Status = e_status r,
                    MatchScore = e_match_score r, CreatedAt = e_created_at r\<rparr>))"

definition recent_rows :: "pg \<Rightarrow> db \<Rightarrow> string \<Rightarrow> string \<Rightarrow> duration \<Rightarrow> event_row list" where
  "recent_rows p d userID deviceID window =
     filter (\<lambda>r. e_user_id r = userID \<and> e_device_id r = deviceID
                \<and> pg_now p - pg_seconds p (Seconds window) \<le> e_occurred_at r)
       (pg_scan p (attendance_events d))"

definition RecentEvent ::
  "pg \<Rightarrow> db \<Rightarrow> string \<Rightarrow> string \<Rightarrow> duration \<Rightarrow> Event option result" where
  "RecentEvent p d userID deviceID window =
     query_stmt p
       (case take 1 (order_desc e_occurred_at (recent_rows p d userID deviceID window)) of
          [] \<Rightarrow> Inr None
        | r # _ \<Rightarrow> map_sum (\<lambda>e. e) Some (scan_event r))"

text \<open>\<open>newid\<close> and \<open>now\<close> are what \<open>uuid.NewString()\<close> and \<open>time.Now().UTC()\<close> would return.\<close>

definition complete_event :: "string \<Rightarrow> time \<Rightarrow> Event \<Rightarrow> Event" where
  "complete_event newid now evt =
     (let evt1 = (if ID evt = [] then evt\<lparr>ID := newid\<rparr> else evt);
          evt2 = (if When evt1 = zero_time then evt1\<lparr>When := now\<rparr> else evt1)
      in if Status evt2 = [] then evt2\<lparr>Status := ''pending''\<rparr> else evt2)"

definition row_of_event :: "string \<Rightarrow> time \<Rightarrow> Event \<Rightarrow> event_row" where
  "row_of_event u created evt =
     \<lparr>e_id = u, e_user_id = UserID evt, e_device_id = DeviceID evt,
      e_occurred_at = pg_time (When evt), e_location = Some (Location evt),
      e_image_url = Some (ImageURL evt), e_status = Status evt,
      e_match_score = MatchScore evt, e_created_at = created\<rparr>"

definition insert_stmt :: "pg \<Rightarrow> db \<Rightarrow> Event \<Rightarrow> Event result \<times> db" where
  "insert_stmt p d evt =
     (case pg_uuid_in p (ID evt) of
        None \<Rightarrow> (Inl (InvalidUuid (ID evt)), d)
      | Some u \<Rightarrow>
          if u \<in> e_id ` set (attendance_events d)
          then (Inl (UniqueViolation ''attendance_events_pkey''), d)
          else if \<not> registered d (DeviceID evt)
          then (Inl (ForeignKeyViolation ''attendance_events_device_id_fkey''), d)
          else (Inr (evt\<lparr>CreatedAt := pg_now p\<rparr>),
                d\<lparr>attendance_events := attendance_events d @ [row_of_event u (pg_now p) evt]\<rparr>))"

definition InsertEvent :: "pg \<Rightarrow> string \<Rightarrow> time \<Rightarrow> db \<Rightarrow> Event \<Rightarrow> Event result \<times> db" where
  "InsertEvent p newid now d evt = exec_stmt p Inl d (insert_stmt p d (complete_event newid now evt))"

definition GetEvent :: "pg \<Rightarrow> db \<Rightarrow> string \<Rightarrow> Event result" where
  "GetEvent p d eid =
     query_stmt p
       (case pg_uuid_in p eid of
          None \<Rightarrow> Inl (InvalidUuid eid)
        | Some u \<Rightarrow>
            (case row_find e_id u (attendance_events d) of
               None \<Rightarrow> Inl ErrNoRows
             | Some r \<Rightarrow> scan_event r))"

definition set_status :: "string \<Rightarrow> float64 option \<Rightarrow> event_row \<Rightarrow> event_row" where
  "set_status status score r =
     r\<lparr>e_status := status,
       e_match_score := (case score of None \<Rightarrow> e_match_score r | Some s \<Rightarrow> Some s)\<rparr>"

definition mark_event :: "db \<Rightarrow> string \<Rightarrow> string \<Rightarrow> float64 option \<Rightarrow> db" where
  "mark_event d u status score =
     d\<lparr>attendance_events := row_update e_id u (set_status status score) (attendance_events d)\<rparr>"

definition UpdateEventStatus ::
  "pg \<Rightarrow> db \<Rightarrow> string \<Rightarrow> string \<Rightarrow> float64 option \<Rightarrow> err \<times> db" where
  "UpdateEventStatus p d eid status score =
     exec_stmt p Some d
       (case pg_uuid_in p eid of
          None \<Rightarrow> (Some (InvalidUuid eid), d)
        | Some u \<Rightarrow> (None, mark_event d u status score))"

section \<open>Listing\<close>

definition itoa :: "int \<Rightarrow> string" where
  "itoa i = int_text i"

lemma itoa_small: "itoa 1 = ''1''" "itoa 2 = ''2''" "itoa 3 = ''3''" "itoa 4 = ''4''"
  by code_simp+

text \<open>The loop of \<open>joinClauses\<close>, with its accumulator.\<close>

fun join_loop :: "string \<Rightarrow> string \<Rightarrow> string list \<Rightarrow> string" where
  "join_loop out sep [] = out"
| "join_loop out sep (x # xs) = join_loop (out @ sep @ x) sep xs"

definition joinClauses :: "string list \<Rightarrow> string \<Rightarrow> string" where
  "joinClauses parts sep = (case parts of [] \<Rightarrow> [] | p # ps \<Rightarrow> join_loop p sep ps)"

datatype sql_arg = TextArg string | IntArg int

definition select_events :: string where
  "select_events = ''SELECT id, user_id, device_id, occurred_at, location, image_url, status, match_score, created_at FROM attendance_events''"

text \<open>The query text and the arguments that \<open>ListEvents\<close> puts together.\<close>

definition list_query :: "string \<Rightarrow> string \<Rightarrow> int \<Rightarrow> int \<Rightarrow> string \<times> sql_arg list" where
  "list_query deviceID userID limit offset =
     (let args0 = [];
          (clauses1, args1) =
            (if deviceID \<noteq> []
             then ([''device_id = $'' @ itoa (int (length args0) + 1)], args0 @ [TextArg deviceID])
             else ([], args0));
          (clauses2, args2) =
            (if userID \<noteq> []
             then (clauses1 @ [''user_id = $'' @ itoa (int (length args1) + 1)], args1 @ [TextArg userID])
             else (clauses1, args1));
          query1 = (if clauses2 \<noteq> [] then select_events @ '' WHERE '' @ joinClauses clauses2 '' AND ''
                    else select_events)
      in (query1 @ '' ORDER BY occurred_at DESC LIMIT $'' @ itoa (int (length args2) + 1)
            @ '' OFFSET $'' @ itoa (int (length args2) + 2),
          args2 @ [IntArg limit, IntArg offset]))"

definition list_limit :: "int \<Rightarrow> int" where
  "list_limit limit = (if limit \<le> 0 then 50 else limit)"

definition list_offset :: "int \<Rightarrow> int" where
  "list_offset offset = (if offset < 0 then 0 else offset)"

text \<open>The rows that the query selects, newest first, before LIMIT and OFFSET.\<close>

definition selected_rows :: "pg \<Rightarrow> db \<Rightarrow> string \<Rightarrow> string \<Rightarrow> event_row list" where
  "selected_rows p d deviceID userID =
     order_desc e_occurred_at
       (filter (\<lambda>r. (deviceID \<noteq> [] \<longrightarrow> e_device_id r = deviceID) \<and> (userID \<noteq> [] \<longrightarrow> e_user_id r = userID))
         (pg_scan p (attendance_events d)))"

definition ListEvents ::
  "pg \<Rightarrow> db \<Rightarrow> string \<Rightarrow> string \<Rightarrow> int \<Rightarrow> int \<Rightarrow> Event list result" where
  "ListEvents p d deviceID userID limit offset =
     query_stmt p
       (scan_rows scan_event
          (take (nat (list_limit limit))
            (drop (nat (list_offset offset)) (selected_rows p d deviceID userID))) [])"

section \<open>Employees\<close>

definition scan_employee :: "employee_row \<Rightarrow> Employee result" where
  "scan_employee r =
     Inr \<lparr>emp_ID = m_id r, emp_EmployeeID = m_employee_id r, emp_Name = m_name r,
          emp_Email = m_email r, emp_Department = m_department r,
          emp_FaceEnrolled = m_face_enrolled r, emp_EnrolledAt = m_enrolled_at r,
          emp_CreatedAt = m_created_at r\<rparr>"

text \<open>\<open>ORDER BY employee_id\<close> uses the collation of the database: \<open>pg_scan_employees\<close>.\<close>

definition ListEmployees :: "pg \<Rightarrow> db \<Rightarrow> Employee list result" where
  "ListEmployees p d =
     query_stmt p (scan_rows scan_employee (pg_scan_employees p (employees d)) [])"

definition GetEmployee :: "pg \<Rightarrow> db \<Rightarrow> string \<Rightarrow> Employee option result" where
  "GetEmployee p d employeeID =
     query_stmt p
       (case row_find m_employee_id employeeID (employees d) of
          None \<Rightarrow> Inr None
        | Some r \<Rightarrow> map_sum (\<lambda>e. e) Some (scan_employee r))"

definition rename_employee :: "time \<Rightarrow> string option \<Rightarrow> employee_row \<Rightarrow> employee_row" where
  "rename_employee now name r =
     r\<lparr>m_name := (case name of None \<Rightarrow> m_name r | Some n \<Rightarrow> Some n), m_updated_at := now\<rparr>"

definition UpsertEmployee :: "pg \<Rightarrow> db \<Rightarrow> string \<Rightarrow> string option \<Rightarrow> err \<times> db" where
  "UpsertEmployee p d employeeID name =
     exec_stmt p Some d
       (if employeeID \<in> m_employee_id ` set (employees d)
        then (None, d\<lparr>employees :=
                row_update m_employee_id employeeID (rename_employee (pg_now p) name) (employees d)\<rparr>)
        else if pg_uuid_gen p \<in> m_id ` set (employees d)
        then (Some (UniqueViolation ''employees_pkey''), d)
        else (None, d\<lparr>employees := employees d @
                [\<lparr>m_id = pg_uuid_gen p, m_employee_id = employeeID, m_name = name, m_email = None,
                  m_department = None, m_face_enrolled = False, m_enrolled_at = None,
                  m_created_at = pg_now p, m_updated_at = pg_now p\<rparr>]\<rparr>))"

definition enroll_employee :: "time \<Rightarrow> time \<Rightarrow> bool \<Rightarrow> employee_row \<Rightarrow> employee_row" where
  "enroll_employee now enrolledAt enrolled r =
     r\<lparr>m_face_enrolled := enrolled,
       m_enrolled_at := (if enrolled then Some (pg_time enrolledAt) else None),
       m_updated_at := now\<rparr>"

definition SetEmployeeFaceEnrolled :: "pg \<Rightarrow> time \<Rightarrow> db \<Rightarrow> string \<Rightarrow> bool \<Rightarrow> err \<times> db" where
  "SetEmployeeFaceEnrolled p now d employeeID enrolled =
     exec_stmt p Some d
       (None, d\<lparr>employees :=
          row_update m_employee_id employeeID (enroll_employee (pg_now p) now enrolled) (employees d)\<rparr>)"

section \<open>The constraints of the tables\<close>

text \<open>
  What the migrations declare, and that no event row has a NULL location or image: the program
  writes the empty string, so a scan of its own rows never fails. Instants are whole microseconds.
\<close>

definition wf_db :: "db \<Rightarrow> bool" where
  "wf_db d \<longleftrightarrow>
     distinct (map d_device_id (devices d)) \<and>
     distinct (map e_id (attendance_events d)) \<and>
     distinct (map t_token (refresh_tokens d)) \<and>
     distinct (map m_employee_id (employees d)) \<and>
     distinct (map m_id (employees d)) \<and>
     list_all (\<lambda>r. registered d (e_device_id r)) (attendance_events d) \<and>
     list_all (\<lambda>r. registered d (t_device_id r)) (refresh_tokens d) \<and>
     list_all (\<lambda>r. e_location r \<noteq> None \<and> e_image_url r \<noteq> None
       \<and> pg_time (e_occurred_at r) = e_occurred_at r) (attendance_events d)"

datatype repo_call =
    CUpsertDevice string
  | CSaveRefreshToken string string time
  | CRevokeRefreshToken string
  | CInsertEvent string time Event
  | CUpdateEventStatus string string "float64 option"
  | CUpsertEmployee string "string option"
  | CSetEmployeeFaceEnrolled time string bool

text \<open>One call of a writing method, with any behaviour of the server.\<close>

inductive repo_step :: "db \<Rightarrow> repo_call \<Rightarrow> db \<Rightarrow> bool" where
  "UpsertDevice p d dev = (e, d') \<Longrightarrow> repo_step d (CUpsertDevice dev) d'"
| "SaveRefreshToken p d dev tok until = (e, d') \<Longrightarrow> repo_step d (CSaveRefreshToken dev tok until) d'"
| "RevokeRefreshToken p d tok = (e, d') \<Longrightarrow> repo_step d (CRevokeRefreshToken tok) d'"
| "InsertEvent p newid now d evt = (r, d') \<Longrightarrow> repo_step d (CInsertEvent newid now evt) d'"
| "UpdateEventStatus p d u st sc = (e, d') \<Longrightarrow> repo_step d (CUpdateEventStatus u st sc) d'"
| "UpsertEmployee p d emp name = (e, d') \<Longrightarrow> repo_step d (CUpsertEmployee emp name) d'"
| "SetEmployeeFaceEnrolled p now d emp b = (e, d') \<Longrightarrow>
     repo_step d (CSetEmployeeFaceEnrolled now emp b) d'"

section \<open>Every call keeps the constraints\<close>

lemma wf_exec_stmt: "wf_db d \<Longrightarrow> wf_db (snd r) \<Longrightarrow> exec_stmt p fail d r = (out, d') \<Longrightarrow> wf_db d'"
  using exec_stmt_tables [of p fail d r] by auto

lemma wf_UpsertDevice: "wf_db d \<Longrightarrow> UpsertDevice p d dev = (e, d') \<Longrightarrow> wf_db d'"
  unfolding UpsertDevice_def
  by (split if_split_asm, simp, erule wf_exec_stmt [rotated 2])
    (auto simp: wf_db_def registered_def list_all_iff)

lemma wf_SaveRefreshToken: "wf_db d \<Longrightarrow> SaveRefreshToken p d dev tok until = (e, d') \<Longrightarrow> wf_db d'"
  unfolding SaveRefreshToken_def
  by (erule wf_exec_stmt [rotated 2]) (auto simp: wf_db_def registered_def list_all_iff)

lemma wf_RevokeRefreshToken: "wf_db d \<Longrightarrow> RevokeRefreshToken p d tok = (e, d') \<Longrightarrow> wf_db d'"
  unfolding RevokeRefreshToken_def
  by (erule wf_exec_stmt [rotated 2])
    (auto simp: wf_db_def registered_def list_all_iff row_update_keys set_row_update)

lemma wf_InsertEvent: "wf_db d \<Longrightarrow> InsertEvent p newid now d evt = (r, d') \<Longrightarrow> wf_db d'"
  unfolding InsertEvent_def insert_stmt_def
  by (erule wf_exec_stmt [rotated 2])
    (auto simp: wf_db_def registered_def list_all_iff row_of_event_def split: option.splits)

lemma set_status_keeps [simp]:
  "e_id (set_status st sc r) = e_id r" "e_device_id (set_status st sc r) = e_device_id r"
  "e_user_id (set_status st sc r) = e_user_id r" "e_occurred_at (set_status st sc r) = e_occurred_at r"
  "e_location (set_status st sc r) = e_location r" "e_image_url (set_status st sc r) = e_image_url r"
  "e_created_at (set_status st sc r) = e_created_at r"
  by (simp_all add: set_status_def)

lemma wf_mark_event: "wf_db d \<Longrightarrow> wf_db (mark_event d u st sc)"
  by (auto simp: wf_db_def registered_def list_all_iff row_update_keys set_row_update mark_event_def)

lemma wf_UpdateEventStatus: "wf_db d \<Longrightarrow> UpdateEventStatus p d u st sc = (e, d') \<Longrightarrow> wf_db d'"
  unfolding UpdateEventStatus_def
  by (erule wf_exec_stmt [rotated 2]) (auto simp: wf_mark_event split: option.splits)

lemma wf_UpsertEmployee: "wf_db d \<Longrightarrow> UpsertEmployee p d emp name = (e, d') \<Longrightarrow> wf_db d'"
  unfolding UpsertEmployee_def
  by (erule wf_exec_stmt [rotated 2])
    (auto simp: wf_db_def registered_def list_all_iff row_update_keys rename_employee_def)

lemma wf_SetEmployeeFaceEnrolled:
  "wf_db d \<Longrightarrow> SetEmployeeFaceEnrolled p now d emp b = (e, d') \<Longrightarrow> wf_db d'"
  unfolding SetEmployeeFaceEnrolled_def
  by (erule wf_exec_stmt [rotated 2])
    (auto simp: wf_db_def registered_def list_all_iff row_update_keys enroll_employee_def)

lemmas wf_calls = wf_UpsertDevice wf_SaveRefreshToken wf_RevokeRefreshToken wf_InsertEvent
  wf_UpdateEventStatus wf_UpsertEmployee wf_SetEmployeeFaceEnrolled

lemma wf_repo_step: "repo_step d c d' \<Longrightarrow> wf_db d \<Longrightarrow> wf_db d'"
  by (induction rule: repo_step.induct) (blast dest: wf_calls)+

lemma wf_empty_db: "wf_db empty_db"
  by (simp add: wf_db_def empty_db_def)

interpretation repo: invariant_system "\<lambda>d. d = empty_db" repo_step wf_db
  by unfold_locales (auto simp: wf_empty_db dest: wf_repo_step)

text \<open>No call takes an event away or changes whose it is and when it was.\<close>

definition same_checkin :: "event_row \<Rightarrow> event_row \<Rightarrow> bool" where
  "same_checkin r r' \<longleftrightarrow> e_id r' = e_id r \<and> e_user_id r' = e_user_id r
     \<and> e_device_id r' = e_device_id r \<and> e_occurred_at r' = e_occurred_at r"

definition keeps_events :: "db \<Rightarrow> db \<Rightarrow> bool" where
  "keeps_events d d' \<longleftrightarrow>
     (\<forall>r \<in> set (attendance_events d). \<exists>r' \<in> set (attendance_events d'). same_checkin r r')"

lemma same_checkin_refl [simp]: "same_checkin r r"
  by (simp add: same_checkin_def)

lemma keeps_events_same: "set (attendance_events d) \<subseteq> set (attendance_events d') \<Longrightarrow> keeps_events d d'"
  unfolding keeps_events_def by (blast intro: same_checkin_refl)

lemma keeps_events_exec:
  "keeps_events d (snd r) \<Longrightarrow> exec_stmt p fail d r = (out, d') \<Longrightarrow> keeps_events d d'"
  using exec_stmt_tables [of p fail d r] by (auto intro: keeps_events_same)

lemma keeps_events_update: "keeps_events d (mark_event d u st sc)"
  unfolding keeps_events_def mark_event_def
proof
  fix r
  assume "r \<in> set (attendance_events d)"
  then show "\<exists>r' \<in> set (attendance_events (d\<lparr>attendance_events :=
      row_update e_id u (set_status st sc) (attendance_events d)\<rparr>)). same_checkin r r'"
    by (intro bexI [of _ "if e_id r = u then set_status st sc r else r"])
      (auto simp: same_checkin_def row_update_def)
qed

lemma keeps_events_step: "repo_step d c d' \<Longrightarrow> keeps_events d d'"
proof (induction rule: repo_step.induct)
  case (1 p d dev e d')
  then show ?case
    by (cases "dev = []") (auto simp: UpsertDevice_def keeps_events_same elim!: keeps_events_exec [rotated])
next
  case (4 p newid now d evt r d')
  then show ?case
    by (auto simp: InsertEvent_def insert_stmt_def intro!: keeps_events_same
      elim!: keeps_events_exec [rotated] split: option.split)
next
  case (5 p d u st sc e d')
  then show ?case
    by (auto simp: UpdateEventStatus_def keeps_events_same keeps_events_update
      elim!: keeps_events_exec [rotated] split: option.split)
qed (auto simp: SaveRefreshToken_def RevokeRefreshToken_def UpsertEmployee_def
    SetEmployeeFaceEnrolled_def keeps_events_same elim!: keeps_events_exec [rotated])

section \<open>Events as a finite map\<close>

text \<open>
  What the event table means to its clients: a map from identifiers to events. \<open>event_of\<close> is the
  event that a row without NULLs is read as.
\<close>

definition event_of :: "event_row \<Rightarrow> Event" where
  "event_of r =
     \<lparr>ID = e_id r, UserID = e_user_id r, DeviceID = e_device_id r, When = e_occurred_at r,
      Location = the (e_location r), ImageURL = the (e_image_url r), Status = e_status r,
      MatchScore = e_match_score r, CreatedAt = e_created_at r\<rparr>"

definition events :: "db \<Rightarrow> string \<Rightarrow> Event option" where
  "events d u = map_option event_of (row_find e_id u (attendance_events d))"

definition with_status :: "string \<Rightarrow> float64 option \<Rightarrow> Event \<Rightarrow> Event" where
  "with_status st sc evt =
     evt\<lparr>Status := st, MatchScore := (case sc of None \<Rightarrow> MatchScore evt | Some s \<Rightarrow> Some s)\<rparr>"

lemma event_of_fields [simp]:
  "ID (event_of r) = e_id r" "UserID (event_of r) = e_user_id r" "DeviceID (event_of r) = e_device_id r"
  "When (event_of r) = e_occurred_at r" "Status (event_of r) = e_status r"
  "MatchScore (event_of r) = e_match_score r"
  by (simp_all add: event_of_def)

lemma event_of_set_status: "event_of (set_status st sc r) = with_status st sc (event_of r)"
  by (cases sc) (simp_all add: event_of_def set_status_def with_status_def)

lemma event_of_row [simp]:
  "event_of (row_of_event u created evt) =
     evt\<lparr>ID := u, When := pg_time (When evt), CreatedAt := created\<rparr>"
  by (simp add: event_of_def row_of_event_def)

lemma e_id_row [simp]: "e_id (row_of_event u created evt) = u"
  by (simp add: row_of_event_def)

text \<open>
  What the clients that mark events rely on: a store of events in which marking one changes its
  status and score and nothing else. Marking a list of events one after the other, the last mark
  of an event decides.
\<close>

lemma with_status_twice:
  "with_status st sc (with_status st' sc' evt) =
     with_status st (case sc of None \<Rightarrow> sc' | Some s \<Rightarrow> Some s) evt"
  by (cases sc; cases sc') (simp_all add: with_status_def)

locale event_store =
  fixes ok :: "'s \<Rightarrow> bool"
    and lookup :: "'s \<Rightarrow> string \<Rightarrow> Event option"
    and mark :: "'s \<Rightarrow> string \<Rightarrow> string \<Rightarrow> float64 option \<Rightarrow> 's"
  assumes ok_mark: "ok d \<Longrightarrow> ok (mark d u st sc)"
    and lookup_mark: "ok d \<Longrightarrow>
      lookup (mark d u st sc) = (lookup d)(u := map_option (with_status st sc) (lookup d u))"
begin

lemma ok_marks: "ok d \<Longrightarrow> ok (foldl (\<lambda>d (u, st, sc). mark d u st sc) d ms)"
  by (induction ms arbitrary: d) (auto simp: ok_mark)

lemma lookup_marks:
  "ok d \<Longrightarrow> lookup (foldl (\<lambda>d (u, st, sc). mark d u st sc) d ms) k =
     map_option (\<lambda>evt. foldl (\<lambda>evt (u, st, sc). if u = k then with_status st sc evt else evt) evt ms)
       (lookup d k)"
  by (induction ms arbitrary: d) (auto simp: ok_mark lookup_mark option.map_comp comp_def option.map_ident)

lemma lookup_marks_dom:
  "ok d \<Longrightarrow> dom (lookup (foldl (\<lambda>d (u, st, sc). mark d u st sc) d ms)) = dom (lookup d)"
  by (auto simp: lookup_marks dom_def)

end

lemma marks_other:
  "\<forall>(u, st, sc) \<in> set ms. u \<noteq> k \<Longrightarrow>
     foldl (\<lambda>evt (u, st, sc). if u = k then with_status st sc evt else evt) evt ms = evt"
  by (induction ms arbitrary: evt) auto

lemma marks_status:
  assumes "ms = ms1 @ (k, st, sc) # ms2" and "\<forall>(u, st, sc) \<in> set ms2. u \<noteq> k"
  shows "Status (foldl (\<lambda>evt (u, st, sc). if u = k then with_status st sc evt else evt) evt ms) = st"
  using assms by (simp add: marks_other with_status_def)

lemma scan_event_wf: "wf_db d \<Longrightarrow> r \<in> set (attendance_events d) \<Longrightarrow> scan_event r = Inr (event_of r)"
  by (auto simp: wf_db_def list_all_iff scan_event_def event_of_def)

lemma GetEvent_eq:
  assumes "wf_db d" and "pg_fault p = None" and "pg_uuid_in p eid = Some u"
  shows "GetEvent p d eid = (case events d u of None \<Rightarrow> Inl ErrNoRows | Some evt \<Rightarrow> Inr evt)"
  using assms by (auto simp: GetEvent_def events_def scan_event_wf dest: row_find_SomeD split: option.splits)

lemma events_InsertEvent:
  assumes "InsertEvent p newid now d evt0 = (Inr evt, d')"
  obtains u where "pg_uuid_in p (ID evt) = Some u" and "u \<notin> e_id ` set (attendance_events d)"
    and "registered d (DeviceID evt)"
    and "evt = (complete_event newid now evt0)\<lparr>CreatedAt := pg_now p\<rparr>"
    and "d' = d\<lparr>attendance_events := attendance_events d @
                 [row_of_event u (pg_now p) (complete_event newid now evt0)]\<rparr>"
    and "events d' = (events d)(u \<mapsto> evt\<lparr>ID := u, When := pg_time (When evt)\<rparr>)"
proof -
  from assms obtain u where u: "pg_uuid_in p (ID evt) = Some u" "u \<notin> e_id ` set (attendance_events d)"
    "registered d (DeviceID evt)"
    and evt: "evt = (complete_event newid now evt0)\<lparr>CreatedAt := pg_now p\<rparr>"
    and d': "d' = d\<lparr>attendance_events := attendance_events d @
                 [row_of_event u (pg_now p) (complete_event newid now evt0)]\<rparr>"
    by (auto simp: InsertEvent_def insert_stmt_def exec_stmt_Inr_iff split: option.splits if_splits)
  have "events d' = (events d)(u \<mapsto> evt\<lparr>ID := u, When := pg_time (When evt)\<rparr>)"
  proof
    fix k
    show "events d' k = ((events d)(u \<mapsto> evt\<lparr>ID := u, When := pg_time (When evt)\<rparr>)) k"
      using u(2) by (cases "row_find e_id u (attendance_events d)")
        (auto simp: events_def d' evt row_find_snoc row_find_None_iff dest: row_find_SomeD split: option.splits)
  qed
  with u evt d' show ?thesis by (rule that)
qed

lemma insert_stmt_cases:
  obtains (refused) e where "insert_stmt p d evt = (Inl e, d)"
  | (stored) u where "pg_uuid_in p (ID evt) = Some u" "registered d (DeviceID evt)"
      "insert_stmt p d evt = (Inr (evt\<lparr>CreatedAt := pg_now p\<rparr>),
         d\<lparr>attendance_events := attendance_events d @ [row_of_event u (pg_now p) evt]\<rparr>)"
proof (cases "\<exists>e. insert_stmt p d evt = (Inl e, d)")
  case False
  then obtain u where "pg_uuid_in p (ID evt) = Some u"
    by (cases "pg_uuid_in p (ID evt)") (auto simp: insert_stmt_def)
  with False show ?thesis
    by (intro stored [of u]) (auto simp: insert_stmt_def split: if_splits)
qed (use refused in blast)

lemma InsertEvent_cases:
  assumes "InsertEvent p i now d evt = (r, d')"
  obtains (unchanged) "d' = d" "\<nexists>x. r = Inr x"
  | (inserted) u where "pg_uuid_in p (ID (complete_event i now evt)) = Some u"
      "registered d (DeviceID (complete_event i now evt))"
      "d' = d\<lparr>attendance_events := attendance_events d @
              [row_of_event u (pg_now p) (complete_event i now evt)]\<rparr>"
      "\<And>x. r = Inr x \<Longrightarrow> x = (complete_event i now evt)\<lparr>CreatedAt := pg_now p\<rparr>"
proof (cases rule: insert_stmt_cases [of p d "complete_event i now evt"])
  case (refused e)
  with assms show ?thesis
    by (intro unchanged) (auto simp: InsertEvent_def exec_stmt_def split: option.splits fault.splits)
next
  case (stored u)
  show ?thesis
  proof (cases "pg_fault p")
    case None
    with assms stored show ?thesis by (intro inserted) (auto simp: InsertEvent_def)
  next
    case (Some f)
    with assms stored show ?thesis
      by (cases f) (auto simp: InsertEvent_def exec_stmt_def intro: unchanged inserted)
  qed
qed

lemma events_mark_event:
  "events (mark_event d u st sc) = (events d)(u := map_option (with_status st sc) (events d u))"
  by (rule ext)
    (simp add: events_def mark_event_def row_find_update option.map_comp comp_def event_of_set_status)

lemma UpdateEventStatus_None_iff:
  "UpdateEventStatus p d eid st sc = (None, d') \<longleftrightarrow>
     pg_fault p = None \<and> (\<exists>u. pg_uuid_in p eid = Some u \<and> d' = mark_event d u st sc)"
  by (auto simp: UpdateEventStatus_def exec_stmt_None_iff split: option.splits)

interpretation repo_store: event_store wf_db events mark_event
  by unfold_locales (auto simp: wf_mark_event events_mark_event)

section \<open>Selections\<close>

lemma join_loop_Join: "join_loop out sep xs = Join (out # xs) sep"
proof (induction xs arbitrary: out)
  case Nil
  then show ?case by simp
next
  case (Cons x xs)
  have "Join ((out @ sep @ x) # xs) sep = Join (out # x # xs) sep"
    by (cases xs) simp_all
  with Cons show ?case by simp
qed

lemma selected_rows_mset:
  assumes "\<forall>t. mset (pg_scan p t) = mset t"
  shows "mset (selected_rows p d deviceID userID) =
    filter_mset (\<lambda>r. (deviceID \<noteq> [] \<longrightarrow> e_device_id r = deviceID) \<and> (userID \<noteq> [] \<longrightarrow> e_user_id r = userID))
      (mset (attendance_events d))"
  by (simp add: selected_rows_def assms)

lemma scan_set: "\<forall>t. mset (pg_scan p t) = mset t \<Longrightarrow> set (pg_scan p t) = set t"
  by (metis set_mset_mset)

lemma ListEvents_eq:
  assumes "wf_db d" and "pg_fault p = None" and perm: "\<forall>t. mset (pg_scan p t) = mset t"
  shows "ListEvents p d deviceID userID limit offset =
    Inr (map event_of (take (nat (list_limit limit))
      (drop (nat (list_offset offset)) (selected_rows p d deviceID userID))))"
proof -
  have "set (selected_rows p d deviceID userID) \<subseteq> set (attendance_events d)"
    by (auto simp: selected_rows_def scan_set [OF perm])
  then have "\<forall>r \<in> set (take (nat (list_limit limit))
      (drop (nat (list_offset offset)) (selected_rows p d deviceID userID))). scan_event r = Inr (event_of r)"
    using assms(1) by (meson in_set_dropD in_set_takeD scan_event_wf subsetD)
  then show ?thesis
    using assms(2) by (simp add: ListEvents_def scan_rows_total [where g = event_of])
qed

lemma take_drop_pages:
  "concat (map (\<lambda>i. take l (drop (i * l) xs)) [0..<n]) = take (n * l) xs"
proof (induction n)
  case 0
  then show ?case by simp
next
  case (Suc n)
  then show ?case by (simp add: take_add add.commute [of l])
qed

lemma RecentEvent_cases:
  assumes "wf_db d" and "pg_fault p = None" and perm: "\<forall>t. mset (pg_scan p t) = mset t"
  shows "case RecentEvent p d userID deviceID window of
     Inl e \<Rightarrow> False
   | Inr None \<Rightarrow> (\<forall>r \<in> set (attendance_events d). e_user_id r = userID \<longrightarrow> e_device_id r = deviceID \<longrightarrow>
        e_occurred_at r < pg_now p - pg_seconds p (Seconds window))
   | Inr (Some evt) \<Rightarrow> (\<exists>r \<in> set (attendance_events d). evt = event_of r \<and> e_user_id r = userID
        \<and> e_device_id r = deviceID \<and> pg_now p - pg_seconds p (Seconds window) \<le> e_occurred_at r
        \<and> (\<forall>r' \<in> set (attendance_events d). e_user_id r' = userID \<longrightarrow> e_device_id r' = deviceID \<longrightarrow>
              e_occurred_at r' \<le> e_occurred_at r))"
proof (cases "order_desc e_occurred_at (recent_rows p d userID deviceID window)")
  case Nil
  then have "set (recent_rows p d userID deviceID window) = {}"
    by (metis set_order_desc set_empty2)
  then have "\<forall>r \<in> set (attendance_events d). e_user_id r = userID \<longrightarrow> e_device_id r = deviceID \<longrightarrow>
      e_occurred_at r < pg_now p - pg_seconds p (Seconds window)"
    by (auto simp: recent_rows_def scan_set [OF perm] filter_empty_conv not_le)
  moreover have "RecentEvent p d userID deviceID window = Inr None"
    using Nil assms(2) by (simp add: RecentEvent_def)
  ultimately show ?thesis by simp
next
  case (Cons r rest)
  then have "r \<in> set (recent_rows p d userID deviceID window)"
    by (metis list.set_intros(1) set_order_desc)
  then have r: "r \<in> set (attendance_events d)" "e_user_id r = userID" "e_device_id r = deviceID"
    "pg_now p - pg_seconds p (Seconds window) \<le> e_occurred_at r"
    by (auto simp: recent_rows_def scan_set [OF perm])
  have "e_occurred_at r' \<le> e_occurred_at r"
    if "r' \<in> set (attendance_events d)" "e_user_id r' = userID" "e_device_id r' = deviceID" for r'
  proof (cases "pg_now p - pg_seconds p (Seconds window) \<le> e_occurred_at r'")
    case True
    then have "r' \<in> set (recent_rows p d userID deviceID window)"
      using that by (simp add: recent_rows_def scan_set [OF perm])
    with Cons show ?thesis by (rule order_desc_hd)
  next
    case False
    with r(4) show ?thesis by simp
  qed
  moreover have "RecentEvent p d userID deviceID window = Inr (Some (event_of r))"
    using Cons assms(2) scan_event_wf [OF assms(1) r(1)] by (simp add: RecentEvent_def)
  ultimately show ?thesis using r by auto
qed

section \<open>Properties\<close>

text \<open>
  C21. In every state that calls of the repository's writing methods can reach from empty tables,
  with any errors and lost replies of the server, identifiers, tokens and employee numbers are
  unique, every event and every token belongs to a registered device, and no event has a NULL
  that a later scan would fail on.
\<close>

theorem constraints_kept:
  "runs repo_step empty_db cs d \<Longrightarrow> wf_db d"
  by (rule repo.inv_reachable) simp

text \<open>A server without faults, for the witnesses: UUIDs are read as they are.\<close>

definition plain_pg :: "time \<Rightarrow> pg" where
  "plain_pg now = \<lparr>pg_fault = None, pg_now = now, pg_uuid_in = Some, pg_uuid_gen = ''e1'',
     pg_seconds = (\<lambda>x. \<lfloor>x * 1000000000\<rfloor>), pg_scan = (\<lambda>t. t), pg_scan_employees = (\<lambda>t. t)\<rparr>"

lemma plain_pg_simps [simp]:
  "pg_fault (plain_pg now) = None" "pg_now (plain_pg now) = now" "pg_uuid_in (plain_pg now) = Some"
  "pg_scan (plain_pg now) = (\<lambda>t. t)" "pg_seconds (plain_pg now) = (\<lambda>x. \<lfloor>x * 1000000000\<rfloor>)"
  "pg_uuid_gen (plain_pg now) = ''e1''" "pg_scan_employees (plain_pg now) = (\<lambda>t. t)"
  by (simp_all add: plain_pg_def)

definition blank_event :: Event where
  "blank_event = \<lparr>ID = [], UserID = ''ann'', DeviceID = ''gate'', When = zero_time, Location = [],
     ImageURL = [], Status = [], MatchScore = None, CreatedAt = zero_time\<rparr>"

definition gate_db :: db where
  "gate_db = snd (UpsertDevice (plain_pg 0) empty_db ''gate'')"

definition one_event_db :: db where
  "one_event_db = snd (InsertEvent (plain_pg 5000) ''u1'' 5999 gate_db blank_event)"

lemma gate_db_eq: "gate_db = empty_db\<lparr>devices := [\<lparr>d_device_id = ''gate'', d_created_at = 0\<rparr>]\<rparr>"
  by (simp add: gate_db_def UpsertDevice_def registered_def empty_db_def)

lemma insert_one_event:
  "InsertEvent (plain_pg 5000) ''u1'' 5999 gate_db blank_event =
     (Inr (blank_event\<lparr>ID := ''u1'', When := 5999, Status := ''pending'', CreatedAt := 5000\<rparr>), one_event_db)"
  by (simp add: one_event_db_def InsertEvent_def insert_stmt_def Let_def complete_event_def blank_event_def
    gate_db_eq registered_def empty_db_def)

lemma wf_gate_db: "wf_db gate_db"
  by (simp add: gate_db_eq empty_db_def wf_db_def registered_def)

lemma wf_one_event_db: "wf_db one_event_db"
  using wf_InsertEvent [OF wf_gate_db insert_one_event] .

theorem constraints_kept_witness:
  "runs repo_step empty_db [CUpsertDevice ''gate'', CInsertEvent ''u1'' 5999 blank_event] one_event_db
     \<and> wf_db one_event_db"
proof -
  have "UpsertDevice (plain_pg 0) empty_db ''gate'' = (None, gate_db)"
    by (simp add: gate_db_def UpsertDevice_def registered_def empty_db_def)
  from repo_step.intros(1) [OF this] repo_step.intros(4) [OF insert_one_event]
  have run: "runs repo_step empty_db [CUpsertDevice ''gate'', CInsertEvent ''u1'' 5999 blank_event] one_event_db"
    by (blast intro: runs_Cons [of repo_step] runs_nil)
  with constraints_kept [OF run] show ?thesis by simp
qed

text \<open>
  C22. An event that was inserted is read back by its identifier, with the instant cut to
  microseconds and the identifier in canonical form, and no other identifier reads differently
  than before.
\<close>

theorem get_after_insert:
  assumes "wf_db d" and "InsertEvent p newid now d evt0 = (Inr evt, d')"
    and "pg_fault q = None" and "pg_uuid_in q = pg_uuid_in p"
  shows "\<exists>u. pg_uuid_in p (ID evt) = Some u
    \<and> GetEvent q d' (ID evt) = Inr (evt\<lparr>ID := u, When := pg_time (When evt)\<rparr>)
    \<and> GetEvent q d (ID evt) = Inl ErrNoRows
    \<and> (\<forall>eid. pg_uuid_in p eid \<noteq> Some u \<longrightarrow> GetEvent q d' eid = GetEvent q d eid)"
proof -
  from assms(2) obtain u where u: "pg_uuid_in p (ID evt) = Some u" "u \<notin> e_id ` set (attendance_events d)"
    and ev: "events d' = (events d)(u \<mapsto> evt\<lparr>ID := u, When := pg_time (When evt)\<rparr>)"
    by (rule events_InsertEvent)
  have wf': "wf_db d'" using assms(1,2) by (rule wf_InsertEvent)
  have "GetEvent q d' eid = GetEvent q d eid" if "pg_uuid_in p eid \<noteq> Some u" for eid
  proof (cases "pg_uuid_in p eid")
    case None
    with assms(3,4) show ?thesis by (simp add: GetEvent_def)
  next
    case (Some v)
    with that assms ev wf' show ?thesis by (simp add: GetEvent_eq)
  qed
  moreover have "events d u = None"
    using u(2) by (simp add: events_def row_find_None_iff)
  ultimately show ?thesis using u(1) assms ev wf' by (simp add: GetEvent_eq)
qed

theorem get_after_insert_witness:
  "GetEvent (plain_pg 7000) one_event_db ''u1'' =
     Inr (blank_event\<lparr>ID := ''u1'', When := 5000, Status := ''pending'', CreatedAt := 5000\<rparr>)"
  using get_after_insert [OF wf_gate_db insert_one_event, of "plain_pg 7000"]
  by (simp add: pg_time_def blank_event_def)

text \<open>
  A successful status update changes the status of the named event and, unless the score is
  nil, its score; a nil score keeps the old one. Every other field and every other event stays,
  and an unknown identifier updates nothing, without an error.
\<close>

lemma get_after_update:
  assumes "wf_db d" and "UpdateEventStatus p d eid st sc = (None, d')"
    and "pg_fault q = None" and "pg_uuid_in q = pg_uuid_in p"
  shows "GetEvent q d' eid' =
    (if pg_uuid_in p eid' = pg_uuid_in p eid
     then map_sum (\<lambda>e. e) (with_status st sc) (GetEvent q d eid') else GetEvent q d eid')"
proof -
  from assms(2) obtain u where u: "pg_uuid_in p eid = Some u"
    and ev: "events d' = (events d)(u := map_option (with_status st sc) (events d u))"
    by (auto simp: UpdateEventStatus_None_iff events_mark_event)
  have wf': "wf_db d'" using assms(1,2) by (rule wf_UpdateEventStatus)
  show ?thesis
  proof (cases "pg_uuid_in p eid'")
    case None
    with u assms(3,4) show ?thesis by (simp add: GetEvent_def)
  next
    case (Some v)
    with u ev assms wf' show ?thesis by (auto simp: GetEvent_eq split: option.splits)
  qed
qed

lemma get_after_update_example:
  "map_sum (\<lambda>e. e) Status (GetEvent (plain_pg 8000)
     (snd (UpdateEventStatus (plain_pg 7000) one_event_db ''u1'' ''processed'' (Some 1))) ''u1'')
   = Inr ''processed''"
proof -
  have "UpdateEventStatus (plain_pg 7000) one_event_db ''u1'' ''processed'' (Some 1) =
    (None, snd (UpdateEventStatus (plain_pg 7000) one_event_db ''u1'' ''processed'' (Some 1)))"
    by (simp add: UpdateEventStatus_def)
  from get_after_update [OF wf_one_event_db this, of "plain_pg 8000" "''u1''"]
  have "GetEvent (plain_pg 8000)
     (snd (UpdateEventStatus (plain_pg 7000) one_event_db ''u1'' ''processed'' (Some 1))) ''u1'' =
     map_sum (\<lambda>e. e) (with_status ''processed'' (Some 1)) (GetEvent (plain_pg 8000) one_event_db ''u1'')"
    by simp
  moreover have "events one_event_db ''u1'' \<noteq> None"
    by (simp add: events_def one_event_db_def InsertEvent_def insert_stmt_def Let_def complete_event_def blank_event_def
      gate_db_eq registered_def empty_db_def row_find_def row_of_event_def)
  ultimately show ?thesis
    using wf_one_event_db by (auto simp: GetEvent_eq with_status_def)
qed



text \<open>
  C24. The query text of a listing is one of four, by which filters are given; its placeholders
  are numbered in the order of the arguments, so that each filter, the limit and the offset meet
  the argument meant for them. The clause joiner behaves as \<open>strings.Join\<close>.
\<close>

theorem list_query_text:
  "list_query deviceID userID limit offset =
     (select_events
       @ (if deviceID \<noteq> [] \<and> userID \<noteq> []
          then '' WHERE device_id = $1 AND user_id = $2 ORDER BY occurred_at DESC LIMIT $3 OFFSET $4''
          else if deviceID \<noteq> []
          then '' WHERE device_id = $1 ORDER BY occurred_at DESC LIMIT $2 OFFSET $3''
          else if userID \<noteq> []
          then '' WHERE user_id = $1 ORDER BY occurred_at DESC LIMIT $2 OFFSET $3''
          else '' ORDER BY occurred_at DESC LIMIT $1 OFFSET $2''),
      (if deviceID \<noteq> [] then [TextArg deviceID] else [])
        @ (if userID \<noteq> [] then [TextArg userID] else []) @ [IntArg limit, IntArg offset])
   \<and> joinClauses parts sep = Join parts sep"
  by (simp add: list_query_def joinClauses_def itoa_small join_loop_Join
    split: list.split)

end
