(* ===== verification/AttendanceService.thy ===== *)
theory AttendanceService
  imports Repository
begin

text \<open>
  The attendance service of \<open>src/internal/attendance/service.go\<close>: device registration and the
  check-in that looks for a recent event of the same user and device before it inserts a new one.
  \<open>CheckIn\<close> is the method as one caller runs it; \<open>svc_step\<close> is the same method split at its two
  statements, with any number of requests, other repository calls and server faults interleaved.
  The lemmas: what each outcome of a check-in means for the tables, that check-ins running one
  after the other keep the events of a user at a device apart by more than the window, that an
  acknowledged check-in stays stored under every interleaving, and that two concurrent requests
  can both insert.
\<close>

section \<open>Model\<close>

record Service =
  dedupWindow :: duration

definition NewService :: "duration \<Rightarrow> Service" where
  "NewService window = \<lparr>dedupWindow = (if window \<le> 0 then 5 * Minute else window)\<rparr>"

definition RegisterDevice :: "pg \<Rightarrow> db \<Rightarrow> string \<Rightarrow> err \<times> db" where
  "RegisterDevice p d deviceID =
     (if deviceID = [] then (Some (Errorf ''device id required''), d) else UpsertDevice p d deviceID)"

text \<open>The fields the struct literal leaves out have their zero values.\<close>

definition new_event :: "time \<Rightarrow> string \<Rightarrow> string \<Rightarrow> string \<Rightarrow> string \<Rightarrow> Event" where
  "new_event now userID deviceID location imageURL =
     \<lparr>ID = [], UserID = userID, DeviceID = deviceID, When = now, Location = location,
      ImageURL = imageURL, Status = ''pending'', MatchScore = None, CreatedAt = zero_time\<rparr>"

text \<open>
  What the environment contributes to one check-in: the server's behaviour in the two statements,
  the clock reading of the literal, and what \<open>InsertEvent\<close> takes for an identifier and, were the
  instant zero, for a second clock reading.
\<close>

record checkin_env =
  q_pg :: pg
  i_pg :: pg
  now1 :: time
  now2 :: time
  newid :: string

definition CheckIn ::
  "Service \<Rightarrow> checkin_env \<Rightarrow> db \<Rightarrow> string \<Rightarrow> string \<Rightarrow> string \<Rightarrow> string \<Rightarrow> Event result \<times> db" where
  "CheckIn s c d userID deviceID location imageURL =
     (if userID = [] \<or> deviceID = [] then (Inl (Errorf ''user and device required''), d)
      else case RecentEvent (q_pg c) d userID deviceID (dedupWindow s) of
        Inl e \<Rightarrow> (Inl e, d)
      | Inr (Some recent) \<Rightarrow> (Inr recent, d)
      | Inr None \<Rightarrow>
          InsertEvent (i_pg c) (newid c) (now2 c) d
            (new_event (now1 c) userID deviceID location imageURL))"

section \<open>One request at a time\<close>

lemma complete_new_event_fields [simp]:
  "UserID (complete_event i now' (new_event now u dev loc img)) = u"
  "DeviceID (complete_event i now' (new_event now u dev loc img)) = dev"
  "Status (complete_event i now' (new_event now u dev loc img)) = ''pending''"
  "MatchScore (complete_event i now' (new_event now u dev loc img)) = None"
  "ID (complete_event i now' (new_event now u dev loc img)) = i"
  "When (complete_event i now' (new_event now u dev loc img)) = (if now = zero_time then now' else now)"
  by (auto simp: complete_event_def new_event_def Let_def)

lemma CheckIn_cases:
  assumes "CheckIn s c d u dev loc img = (r, d')"
  obtains (rejected) "u = [] \<or> dev = []" "r = Inl (Errorf ''user and device required'')" "d' = d"
  | (failed) e where "RecentEvent (q_pg c) d u dev (dedupWindow s) = Inl e" "r = Inl e" "d' = d"
      "u \<noteq> []" "dev \<noteq> []"
  | (recent) evt where "RecentEvent (q_pg c) d u dev (dedupWindow s) = Inr (Some evt)"
      "r = Inr evt" "d' = d" "u \<noteq> []" "dev \<noteq> []"
  | (insert) "RecentEvent (q_pg c) d u dev (dedupWindow s) = Inr None"
      "InsertEvent (i_pg c) (newid c) (now2 c) d (new_event (now1 c) u dev loc img) = (r, d')"
      "u \<noteq> []" "dev \<noteq> []"
proof (cases "u = [] \<or> dev = []")
  case True
  with assms show ?thesis by (intro rejected) (auto simp: CheckIn_def)
next
  case False
  show ?thesis
  proof (cases "RecentEvent (q_pg c) d u dev (dedupWindow s)")
    case (Inl e)
    with False assms show ?thesis by (intro failed) (auto simp: CheckIn_def)
  next
    case (Inr o')
    with False assms show ?thesis
      by (cases o') (auto simp: CheckIn_def intro: recent insert)
  qed
qed

lemma RecentEvent_fault_free: "RecentEvent p d u dev w = Inr x \<Longrightarrow> pg_fault p = None"
  by (simp add: RecentEvent_def query_stmt_Inr_iff)

lemma wf_CheckIn: "wf_db d \<Longrightarrow> CheckIn s c d u dev loc img = (r, d') \<Longrightarrow> wf_db d'"
  by (erule CheckIn_cases) (auto dest: wf_InsertEvent)

lemma wf_RegisterDevice: "wf_db d \<Longrightarrow> RegisterDevice p d dev = (e, d') \<Longrightarrow> wf_db d'"
  by (auto simp: RegisterDevice_def dest: wf_UpsertDevice split: if_splits)

lemma RegisterDevice_events:
  "RegisterDevice p d dev = (e, d') \<Longrightarrow> attendance_events d' = attendance_events d"
  by (auto simp: RegisterDevice_def UpsertDevice_def exec_stmt_def
    split: if_splits option.splits fault.splits)

text \<open>
  The documented behaviour of the server that the deduplication relies on: a statement reads every
  row once, and \<open>$3 * interval '1 second'\<close> is the window's length.
\<close>

definition faithful_pg :: "duration \<Rightarrow> pg \<Rightarrow> bool" where
  "faithful_pg w p \<longleftrightarrow> (\<forall>t. mset (pg_scan p t) = mset t) \<and> pg_seconds p (Seconds w) = w"

lemma RecentEvent_none:
  assumes "wf_db d" and "faithful_pg w p" and "RecentEvent p d u dev w = Inr None"
    and "r \<in> set (attendance_events d)" and "e_user_id r = u" and "e_device_id r = dev"
  shows "e_occurred_at r < pg_now p - w"
  using RecentEvent_cases [OF assms(1) RecentEvent_fault_free [OF assms(3)], of u dev w] assms
  by (auto simp: faithful_pg_def)

text \<open>Any two events of one user at one device are more than the window apart.\<close>

definition apart :: "duration \<Rightarrow> event_row \<Rightarrow> event_row \<Rightarrow> bool" where
  "apart w a b \<longleftrightarrow>
     (e_user_id a = e_user_id b \<and> e_device_id a = e_device_id b \<longrightarrow> e_occurred_at a + w < e_occurred_at b)"

definition spaced :: "duration \<Rightarrow> db \<Rightarrow> bool" where
  "spaced w d \<longleftrightarrow> sorted_wrt (apart w) (attendance_events d)"

datatype svc_call = Register string | Check string string string string

text \<open>
  The service's methods called one after the other, with any faults, over a faithful server whose
  clock at the query of a check-in is not ahead of the instant the service stores.
\<close>

inductive serial_step :: "Service \<Rightarrow> db \<Rightarrow> svc_call \<Rightarrow> db \<Rightarrow> bool" for s where
  "RegisterDevice p d dev = (e, d') \<Longrightarrow> serial_step s d (Register dev) d'"
| "CheckIn s c d u dev loc img = (r, d') \<Longrightarrow> faithful_pg (dedupWindow s) (q_pg c) \<Longrightarrow>
   now1 c \<noteq> zero_time \<Longrightarrow> pg_now (q_pg c) \<le> pg_time (now1 c) \<Longrightarrow>
   serial_step s d (Check u dev loc img) d'"

lemma spaced_CheckIn:
  assumes "wf_db d" and "spaced (dedupWindow s) d" and "CheckIn s c d u dev loc img = (r, d')"
    and "faithful_pg (dedupWindow s) (q_pg c)" and "now1 c \<noteq> zero_time"
    and "pg_now (q_pg c) \<le> pg_time (now1 c)"
  shows "spaced (dedupWindow s) d'"
  using assms(3)
proof (cases rule: CheckIn_cases)
  case insert
  from insert(2) show ?thesis
  proof (cases rule: InsertEvent_cases)
    case unchanged
    with assms(2) show ?thesis by simp
  next
    case (inserted k)
    have "apart (dedupWindow s) a (row_of_event k (pg_now (i_pg c))
        (complete_event (newid c) (now2 c) (new_event (now1 c) u dev loc img)))"
      if "a \<in> set (attendance_events d)" for a
      using RecentEvent_none [OF assms(1,4) insert(1) that] assms(5,6)
      by (auto simp: apart_def row_of_event_def)
    with assms(2) inserted(3) show ?thesis by (simp add: spaced_def sorted_wrt_append)
  qed
qed (use assms(2) in simp_all)

lemma serial_inv_step:
  "serial_step s d c d' \<Longrightarrow> wf_db d \<and> spaced (dedupWindow s) d \<Longrightarrow> wf_db d' \<and> spaced (dedupWindow s) d'"
proof (induction rule: serial_step.induct)
  case (1 p d dev e d')
  then show ?case
    using RegisterDevice_events [OF 1(1)] wf_RegisterDevice [OF _ 1(1)] by (simp add: spaced_def)
next
  case (2 c d u dev loc img r d')
  then show ?case using wf_CheckIn [OF _ 2(1)] spaced_CheckIn [OF _ _ 2(1)] by blast
qed

lemma spaced_empty: "spaced w empty_db"
  by (simp add: spaced_def empty_db_def)

interpretation serial: invariant_system "\<lambda>d. d = empty_db" "serial_step s"
  "\<lambda>d. wf_db d \<and> spaced (dedupWindow s) d" for s
  by unfold_locales (auto simp: wf_empty_db spaced_empty dest: serial_inv_step)

section \<open>Interleaved requests\<close>

record checkin_req =
  r_user :: string
  r_device :: string
  r_location :: string
  r_image :: string

text \<open>Where a request stands: before its query, before its insert, or answered.\<close>

datatype phase = Arrived | Inserting | Answered "Event result"

datatype svc_event = Query nat | Insert nat | Other repo_call

text \<open>
  Any number of requests (the numbers index them), each running \<open>CheckIn\<close> one statement at a
  time, and any other calls of the repository. A query reads every row once;
  \<open>uuid.NewString\<close> returns canonical text, which the server reads as itself.
\<close>

inductive svc_step ::
  "Service \<Rightarrow> (nat \<Rightarrow> checkin_req) \<Rightarrow> db \<times> (nat \<Rightarrow> phase) \<Rightarrow> svc_event \<Rightarrow> db \<times> (nat \<Rightarrow> phase) \<Rightarrow> bool"
  for s reqs where
  svc_reject: "ph i = Arrived \<Longrightarrow> r_user (reqs i) = [] \<or> r_device (reqs i) = [] \<Longrightarrow>
     svc_step s reqs (d, ph) (Query i)
       (d, ph(i := Answered (Inl (Errorf ''user and device required''))))"
| svc_query: "ph i = Arrived \<Longrightarrow> r_user (reqs i) \<noteq> [] \<Longrightarrow> r_device (reqs i) \<noteq> [] \<Longrightarrow>
     (\<forall>t. mset (pg_scan q t) = mset t) \<Longrightarrow>
     RecentEvent q d (r_user (reqs i)) (r_device (reqs i)) (dedupWindow s) = found \<Longrightarrow>
     svc_step s reqs (d, ph) (Query i)
       (d, ph(i := (case found of Inl e \<Rightarrow> Answered (Inl e)
                     | Inr (Some recent) \<Rightarrow> Answered (Inr recent) | Inr None \<Rightarrow> Inserting)))"
| svc_insert: "ph i = Inserting \<Longrightarrow> pg_uuid_in p k = Some k \<Longrightarrow>
     InsertEvent p k n2 d (new_event n1 (r_user (reqs i)) (r_device (reqs i))
       (r_location (reqs i)) (r_image (reqs i))) = (r, d') \<Longrightarrow>
     svc_step s reqs (d, ph) (Insert i) (d', ph(i := Answered r))"
| svc_other: "repo_step d c d' \<Longrightarrow> svc_step s reqs (d, ph) (Other c) (d', ph)"

definition stored :: "db \<Rightarrow> Event \<Rightarrow> bool" where
  "stored d evt \<longleftrightarrow> (\<exists>r \<in> set (attendance_events d). e_id r = ID evt \<and> e_user_id r = UserID evt
     \<and> e_device_id r = DeviceID evt \<and> e_occurred_at r = pg_time (When evt))"

definition svc_inv :: "(nat \<Rightarrow> checkin_req) \<Rightarrow> db \<times> (nat \<Rightarrow> phase) \<Rightarrow> bool" where
  "svc_inv reqs st \<longleftrightarrow> wf_db (fst st) \<and>
     (\<forall>i evt. snd st i = Answered (Inr evt) \<longrightarrow>
        UserID evt = r_user (reqs i) \<and> DeviceID evt = r_device (reqs i) \<and> stored (fst st) evt)"

lemma stored_mono: "keeps_events d d' \<Longrightarrow> stored d evt \<Longrightarrow> stored d' evt"
  by (fastforce simp: keeps_events_def stored_def same_checkin_def)

lemma RecentEvent_stored:
  assumes "wf_db d" and "\<forall>t. mset (pg_scan p t) = mset t"
    and "RecentEvent p d u dev w = Inr (Some evt)"
  shows "UserID evt = u \<and> DeviceID evt = dev \<and> stored d evt"
proof -
  from assms(3) have "pg_fault p = None" by (rule RecentEvent_fault_free)
  with assms(3) obtain r rest where r: "order_desc e_occurred_at (recent_rows p d u dev w) = r # rest"
    and scan: "scan_event r = Inr evt"
    by (cases "order_desc e_occurred_at (recent_rows p d u dev w)"; cases "scan_event (hd (order_desc e_occurred_at (recent_rows p d u dev w)))")
      (auto simp: RecentEvent_def)
  have "r \<in> set (recent_rows p d u dev w)"
    by (metis r list.set_intros(1) set_order_desc)
  with assms(2) have r: "r \<in> set (attendance_events d)" "e_user_id r = u" "e_device_id r = dev"
    by (auto simp: recent_rows_def scan_set)
  with scan have "evt = event_of r" using scan_event_wf [OF assms(1) r(1)] by simp
  moreover have "pg_time (e_occurred_at r) = e_occurred_at r"
    using assms(1) r(1) by (auto simp: wf_db_def list_all_iff)
  ultimately show ?thesis using r by (auto simp: stored_def)
qed

lemma InsertEvent_keeps: "InsertEvent p k n d evt = (r, d') \<Longrightarrow> keeps_events d d'"
  by (rule keeps_events_step) (rule repo_step.intros)

lemma InsertEvent_stored:
  assumes "InsertEvent p k n2 d (new_event n1 u dev loc img) = (Inr evt, d')" and "pg_uuid_in p k = Some k"
  shows "UserID evt = u \<and> DeviceID evt = dev \<and> stored d' evt"
  using assms(1)
proof (cases rule: InsertEvent_cases)
  case (inserted v)
  with assms(2) show ?thesis by (auto simp: stored_def row_of_event_def)
qed simp

lemma CheckIn_stored:
  assumes "wf_db d" and "\<forall>t. mset (pg_scan (q_pg c) t) = mset t"
    and "pg_uuid_in (i_pg c) (newid c) = Some (newid c)"
    and "CheckIn s c d u dev loc img = (Inr evt, d')"
  shows "UserID evt = u \<and> DeviceID evt = dev \<and> stored d' evt"
  using assms(4)
proof (cases rule: CheckIn_cases)
  case (recent evt')
  then show ?thesis using RecentEvent_stored [OF assms(1,2)] by simp
next
  case insert
  then show ?thesis using InsertEvent_stored assms(3) by blast
qed simp_all

lemma svc_inv_step: "svc_step s reqs st e st' \<Longrightarrow> svc_inv reqs st \<Longrightarrow> svc_inv reqs st'"
proof (induction rule: svc_step.induct)
  case (svc_query ph i q d found)
  then show ?case
    using RecentEvent_stored [of d q "r_user (reqs i)" "r_device (reqs i)" "dedupWindow s"]
    by (auto simp: svc_inv_def split: sum.splits option.splits)
next
  case (svc_insert ph i p k n2 d n1 r d')
  then show ?case
    using InsertEvent_stored [of p k n2 d n1 "r_user (reqs i)" "r_device (reqs i)" "r_location (reqs i)"
        "r_image (reqs i)"] stored_mono [OF InsertEvent_keeps [OF svc_insert(3)]]
      wf_InsertEvent [OF _ svc_insert(3)]
    by (auto simp: svc_inv_def)
next
  case (svc_other d c d' ph)
  then show ?case
    using stored_mono [OF keeps_events_step [OF svc_other(1)]] wf_repo_step [OF svc_other(1)]
    by (auto simp: svc_inv_def)
qed (auto simp: svc_inv_def)

interpretation svc: invariant_system "\<lambda>st. wf_db (fst st) \<and> (\<forall>i. snd st i = Arrived)"
  "svc_step s reqs" "svc_inv reqs" for s reqs
  by unfold_locales (auto simp: svc_inv_def dest: svc_inv_step [unfolded svc_inv_def])

section \<open>Properties\<close>

text \<open>
  C16. Check-ins and registrations that run one after the other, with any server faults, never
  store two events of one user at one device within the deduplication window: the later event
  happened more than the window after the earlier one. Assumed of each check-in: the server reads
  every row once, takes the window at its length, and its clock at the query is not ahead of the
  instant that the service stores.
\<close>

theorem sequential_checkins_spaced:
  assumes "runs (serial_step s) empty_db cs d"
    and "i < j" and "j < length (attendance_events d)"
    and "e_user_id (attendance_events d ! i) = e_user_id (attendance_events d ! j)"
    and "e_device_id (attendance_events d ! i) = e_device_id (attendance_events d ! j)"
  shows "e_occurred_at (attendance_events d ! i) + dedupWindow s < e_occurred_at (attendance_events d ! j)"
proof -
  have "spaced (dedupWindow s) d" using serial.inv_reachable [OF _ assms(1)] by simp
  with assms show ?thesis by (simp add: spaced_def sorted_wrt_iff_nth_less apart_def)
qed

definition at_gate :: "time \<Rightarrow> string \<Rightarrow> checkin_env" where
  "at_gate now k = \<lparr>q_pg = plain_pg now, i_pg = plain_pg now, now1 = now, now2 = now, newid = k\<rparr>"

definition ann_row :: "string \<Rightarrow> time \<Rightarrow> event_row" where
  "ann_row k now = \<lparr>e_id = k, e_user_id = ''ann'', e_device_id = ''gate'', e_occurred_at = now,
     e_location = Some [], e_image_url = Some [], e_status = ''pending'', e_match_score = None,
     e_created_at = now\<rparr>"

lemma order_desc_single: "order_desc c [r] = [r]"
  by (simp add: order_desc_def)

lemma minutes_window:
  "dedupWindow (NewService 0) = 300000000000" "Seconds 300000000000 = 300"
  by (simp_all add: NewService_def Minute_def duration_units Seconds_def f64_defs quo_def rmd_def
    rnd_of_int [of 300, simplified])

lemma faithful_plain: "faithful_pg (dedupWindow (NewService 0)) (plain_pg now)"
  by (simp add: faithful_pg_def minutes_window)

lemma first_checkin:
  "CheckIn (NewService 0) (at_gate 1000000000000 ''u1'') gate_db ''ann'' ''gate'' [] [] =
     (Inr ((new_event 1000000000000 ''ann'' ''gate'' [] [])\<lparr>ID := ''u1'', CreatedAt := 1000000000000\<rparr>),
      gate_db\<lparr>attendance_events := [ann_row ''u1'' 1000000000000]\<rparr>)"
  by (simp add: CheckIn_def at_gate_def RecentEvent_def recent_rows_def gate_db_eq empty_db_def order_desc_def
    InsertEvent_def insert_stmt_def registered_def complete_event_def new_event_def Let_def zero_time_def
    row_of_event_def ann_row_def pg_time_def)

lemma later_checkin:
  "CheckIn (NewService 0) (at_gate 1300000001000 ''u2'')
     (gate_db\<lparr>attendance_events := [ann_row ''u1'' 1000000000000]\<rparr>) ''ann'' ''gate'' [] [] =
     (Inr ((new_event 1300000001000 ''ann'' ''gate'' [] [])\<lparr>ID := ''u2'', CreatedAt := 1300000001000\<rparr>),
      gate_db\<lparr>attendance_events := [ann_row ''u1'' 1000000000000, ann_row ''u2'' 1300000001000]\<rparr>)"
  by (simp add: CheckIn_def at_gate_def RecentEvent_def recent_rows_def gate_db_eq empty_db_def order_desc_def
    InsertEvent_def insert_stmt_def registered_def complete_event_def new_event_def Let_def zero_time_def
    row_of_event_def ann_row_def pg_time_def minutes_window)

theorem sequential_checkins_spaced_witness:
  "\<exists>cs d. runs (serial_step (NewService 0)) empty_db cs d \<and> length (attendance_events d) = 2
     \<and> e_occurred_at (attendance_events d ! 0) + dedupWindow (NewService 0) < e_occurred_at (attendance_events d ! 1)"
proof -
  have "RegisterDevice (plain_pg 0) empty_db ''gate'' = (None, gate_db)"
    by (simp add: RegisterDevice_def gate_db_def UpsertDevice_def registered_def empty_db_def)
  then have reg: "serial_step (NewService 0) empty_db (Register ''gate'') gate_db"
    by (rule serial_step.intros)
  have one: "serial_step (NewService 0) gate_db (Check ''ann'' ''gate'' [] [])
      (gate_db\<lparr>attendance_events := [ann_row ''u1'' 1000000000000]\<rparr>)"
    by (rule serial_step.intros(2) [OF first_checkin])
      (simp_all add: at_gate_def faithful_plain zero_time_def pg_time_def)
  have two: "serial_step (NewService 0) (gate_db\<lparr>attendance_events := [ann_row ''u1'' 1000000000000]\<rparr>)
      (Check ''ann'' ''gate'' [] [])
      (gate_db\<lparr>attendance_events := [ann_row ''u1'' 1000000000000, ann_row ''u2'' 1300000001000]\<rparr>)"
    by (rule serial_step.intros(2) [OF later_checkin])
      (simp_all add: at_gate_def faithful_plain zero_time_def pg_time_def)
  note run = runs_Cons [of "serial_step (NewService 0)", OF reg runs_Cons [of "serial_step (NewService 0)",
    OF one runs_single [of "serial_step (NewService 0)", OF two]]]
  show ?thesis
  proof (intro exI conjI)
    show "e_occurred_at (attendance_events (gate_db\<lparr>attendance_events := [ann_row ''u1'' 1000000000000, ann_row ''u2'' 1300000001000]\<rparr>) ! 0)
        + dedupWindow (NewService 0)
      < e_occurred_at (attendance_events (gate_db\<lparr>attendance_events := [ann_row ''u1'' 1000000000000, ann_row ''u2'' 1300000001000]\<rparr>) ! 1)"
      by (rule sequential_checkins_spaced [OF run]) (simp_all add: ann_row_def)
  qed (use run in simp_all)
qed

text \<open>
  C18. A check-in that comes within the window after a successful one of the same user at the same
  device stores nothing and succeeds with a stored event of theirs, no older than the first.
\<close>

theorem checkin_deduplicated:
  assumes "wf_db d" and "CheckIn s c d u dev loc img = (Inr evt, d')"
    and "\<forall>t. mset (pg_scan (q_pg c) t) = mset t" and "pg_uuid_in (i_pg c) (newid c) = Some (newid c)"
    and "pg_fault (q_pg c') = None" and "faithful_pg (dedupWindow s) (q_pg c')"
    and "pg_now (q_pg c') - dedupWindow s \<le> pg_time (When evt)"
  shows "\<exists>evt'. CheckIn s c' d' u dev loc' img' = (Inr evt', d') \<and> UserID evt' = u \<and> DeviceID evt' = dev
    \<and> pg_time (When evt) \<le> When evt' \<and> stored d' evt'"
proof -
  from assms(2) have st: "u \<noteq> [] \<and> dev \<noteq> [] \<and> UserID evt = u \<and> DeviceID evt = dev \<and> stored d' evt"
  proof (cases rule: CheckIn_cases)
    case (recent x)
    with RecentEvent_stored [OF assms(1,3)] assms(2) show ?thesis
      by (auto simp: CheckIn_def)
  next
    case insert
    with InsertEvent_stored [OF insert(2) assms(4)] assms(2) show ?thesis
      by (auto simp: CheckIn_def)
  qed auto
  have wf': "wf_db d'" using assms(1,2) by (rule wf_CheckIn)
  have perm: "\<forall>t. mset (pg_scan (q_pg c') t) = mset t" using assms(6) by (simp add: faithful_pg_def)
  from st obtain r where r: "r \<in> set (attendance_events d')" "e_user_id r = u" "e_device_id r = dev"
    "e_occurred_at r = pg_time (When evt)"
    by (auto simp: stored_def)
  show ?thesis
  proof (cases "RecentEvent (q_pg c') d' u dev (dedupWindow s)")
    case (Inl e)
    with RecentEvent_cases [OF wf' assms(5) perm, of u dev "dedupWindow s"] show ?thesis by simp
  next
    case (Inr found)
    then obtain evt' where found: "RecentEvent (q_pg c') d' u dev (dedupWindow s) = Inr (Some evt')"
      using RecentEvent_none [OF wf' assms(6), of u dev r] r assms(7) by (cases found) auto
    then have "pg_time (When evt) \<le> When evt'"
      using RecentEvent_cases [OF wf' assms(5) perm, of u dev "dedupWindow s"] r by auto
    with RecentEvent_stored [OF wf' perm found] found st show ?thesis by (simp add: CheckIn_def)
  qed
qed

theorem checkin_deduplicated_witness:
  "\<exists>evt'. CheckIn (NewService 0) (at_gate 1299999999000 ''u2'')
      (gate_db\<lparr>attendance_events := [ann_row ''u1'' 1000000000000]\<rparr>) ''ann'' ''gate'' ''hall'' [] =
      (Inr evt', gate_db\<lparr>attendance_events := [ann_row ''u1'' 1000000000000]\<rparr>)"
  using checkin_deduplicated [OF wf_gate_db first_checkin, of "at_gate 1299999999000 ''u2''" "''hall''" "[]"]
    faithful_plain [of 1299999999000]
  by (auto simp: at_gate_def faithful_plain pg_time_def new_event_def minutes_window)

text \<open>
  C17. Under every interleaving of check-in requests, other repository calls and server faults, a
  request that was answered with an event has that event in the table, for its own user and
  device, and it stays there.
\<close>

theorem acknowledged_checkins_stored:
  assumes "wf_db d0" and "runs (svc_step s reqs) (d0, \<lambda>_. Arrived) es (d, ph)"
    and "ph i = Answered (Inr evt)"
  shows "UserID evt = r_user (reqs i) \<and> DeviceID evt = r_device (reqs i) \<and> stored d evt"
  using svc.inv_reachable [OF _ assms(2)] assms(1,3) by (simp add: svc_inv_def)

definition ann_request :: checkin_req where
  "ann_request = \<lparr>r_user = ''ann'', r_device = ''gate'', r_location = [], r_image = []\<rparr>"

definition race_db :: db where
  "race_db = gate_db\<lparr>attendance_events := [ann_row ''u1'' 1000, ann_row ''u2'' 1000]\<rparr>"

definition race_event :: "string \<Rightarrow> Event" where
  "race_event k = (new_event 1000 ''ann'' ''gate'' [] [])\<lparr>ID := k, CreatedAt := 1000\<rparr>"

lemma race_run:
  "runs (svc_step s (\<lambda>_. ann_request)) (gate_db, \<lambda>_. Arrived) [Query 0, Query 1, Insert 0, Insert 1]
     (race_db, (\<lambda>_. Arrived)(0 := Inserting, 1 := Inserting, 0 := Answered (Inr (race_event ''u1'')),
        1 := Answered (Inr (race_event ''u2''))))"
proof -
  let ?ph = "(\<lambda>_. Arrived)(0 := Inserting, 1 := Inserting)"
  have none: "RecentEvent (plain_pg 1000) gate_db ''ann'' ''gate'' (dedupWindow s) = Inr None"
    by (simp add: RecentEvent_def recent_rows_def gate_db_eq empty_db_def order_desc_def)
  have q: "svc_step s (\<lambda>_. ann_request) (gate_db, ph) (Query i) (gate_db, ph(i := Inserting))"
    if "ph i = Arrived" for ph i
    using svc_query [of ph i "\<lambda>_. ann_request" "plain_pg 1000" gate_db s "Inr None"] that none
    by (simp add: ann_request_def)
  have i0: "InsertEvent (plain_pg 1000) ''u1'' 1000 gate_db (new_event 1000 ''ann'' ''gate'' [] []) =
    (Inr (race_event ''u1''), gate_db\<lparr>attendance_events := [ann_row ''u1'' 1000]\<rparr>)"
    and i1: "InsertEvent (plain_pg 1000) ''u2'' 1000 (gate_db\<lparr>attendance_events := [ann_row ''u1'' 1000]\<rparr>)
      (new_event 1000 ''ann'' ''gate'' [] []) = (Inr (race_event ''u2''), race_db)"
    by (simp_all add: InsertEvent_def insert_stmt_def registered_def gate_db_eq empty_db_def race_db_def
      complete_event_def new_event_def Let_def zero_time_def row_of_event_def ann_row_def pg_time_def
      race_event_def)
  have "svc_step s (\<lambda>_. ann_request) (gate_db, ?ph) (Insert 0)
      (gate_db\<lparr>attendance_events := [ann_row ''u1'' 1000]\<rparr>, ?ph(0 := Answered (Inr (race_event ''u1''))))"
    using i0 by (intro svc_insert [of _ _ "plain_pg 1000" "''u1''" 1000 _ 1000]) (simp_all add: ann_request_def)
  moreover have "svc_step s (\<lambda>_. ann_request)
      (gate_db\<lparr>attendance_events := [ann_row ''u1'' 1000]\<rparr>, ?ph(0 := Answered (Inr (race_event ''u1''))))
      (Insert 1) (race_db, ?ph(0 := Answered (Inr (race_event ''u1'')), 1 := Answered (Inr (race_event ''u2''))))"
    using i1 by (intro svc_insert [of _ _ "plain_pg 1000" "''u2''" 1000 _ 1000]) (simp_all add: ann_request_def)
  ultimately show ?thesis
    using q [of "\<lambda>_. Arrived" 0] q [of "(\<lambda>_. Arrived)(0 := Inserting)" 1]
    by (intro runs_Cons [of "svc_step s (\<lambda>_. ann_request)"]) (auto intro: runs_nil)
qed

theorem acknowledged_checkins_stored_witness:
  "UserID (race_event ''u2'') = ''ann'' \<and> stored race_db (race_event ''u2'')"
  using acknowledged_checkins_stored [OF wf_gate_db race_run, of 1 "race_event ''u2''"]
  by (simp add: ann_request_def)

text \<open>
  C19. The deduplication does not hold between concurrent requests, whatever the window: two
  requests of one user at one device whose queries both come before either insert are both
  answered with a new event of the same instant. The query and the insert are separate statements,
  and no constraint of the table stops the second.
\<close>

theorem concurrent_checkins_duplicate:
  "\<exists>es d ph e0 e1. runs (svc_step s (\<lambda>_. ann_request)) (gate_db, \<lambda>_. Arrived) es (d, ph)
     \<and> ph 0 = Answered (Inr e0) \<and> ph 1 = Answered (Inr e1) \<and> ID e0 \<noteq> ID e1
     \<and> UserID e0 = UserID e1 \<and> DeviceID e0 = DeviceID e1 \<and> When e0 = When e1
     \<and> stored d e0 \<and> stored d e1"
  by (intro exI conjI, rule race_run, simp, rule fun_upd_same)
    (simp_all add: race_event_def new_event_def stored_def race_db_def gate_db_eq empty_db_def ann_row_def pg_time_def)

text \<open>
  C20. A check-in from a device that is not registered fails and stores nothing, whatever the
  server does.
\<close>

theorem checkin_unregistered_rejected:
  assumes "wf_db d" and "\<not> registered d dev" and "\<forall>t. mset (pg_scan (q_pg c) t) = mset t"
  shows "\<exists>e. CheckIn s c d u dev loc img = (Inl e, d)"
proof -
  obtain r d' where run: "CheckIn s c d u dev loc img = (r, d')" by fastforce
  then show ?thesis
  proof (cases rule: CheckIn_cases)
    case (recent evt)
    with RecentEvent_stored [OF assms(1,3) recent(1)] assms(1,2) show ?thesis
      by (auto simp: stored_def wf_db_def list_all_iff)
  next
    case insert
    from insert(2) run assms(2) show ?thesis
      by (cases rule: InsertEvent_cases; cases r) auto
  qed (use run in auto)
qed

theorem checkin_unregistered_rejected_witness:
  "\<exists>e. CheckIn (NewService 0) (at_gate 1000 ''u1'') empty_db ''ann'' ''gate'' [] [] = (Inl e, empty_db)"
  using checkin_unregistered_rejected [OF wf_empty_db, of "''gate''" "at_gate 1000 ''u1''" "NewService 0" "''ann''" "[]" "[]"]
  by (simp add: registered_def empty_db_def at_gate_def)

text \<open>
  The split method is the method: a request that runs its steps without another in between
  ends with the answer and the tables of \<open>CheckIn\<close>.
\<close>

lemma checkin_refined_by_steps:
  assumes "CheckIn s c d (r_user (reqs i)) (r_device (reqs i)) (r_location (reqs i)) (r_image (reqs i)) = (r, d')"
    and "\<forall>t. mset (pg_scan (q_pg c) t) = mset t" and "pg_uuid_in (i_pg c) (newid c) = Some (newid c)"
    and "ph i = Arrived"
  shows "\<exists>es. set es \<subseteq> {Query i, Insert i} \<and> runs (svc_step s reqs) (d, ph) es (d', ph(i := Answered r))"
  using assms(1)
proof (cases rule: CheckIn_cases)
  case rejected
  with svc_reject [of ph i reqs s d] assms(4) show ?thesis
    by (intro exI [of _ "[Query i]"]) (auto intro: runs_single)
next
  case (failed e)
  with svc_query [of ph i reqs "q_pg c" d s "Inl e"] assms show ?thesis
    by (intro exI [of _ "[Query i]"]) (auto intro: runs_single)
next
  case (recent evt)
  with svc_query [of ph i reqs "q_pg c" d s "Inr (Some evt)"] assms show ?thesis
    by (intro exI [of _ "[Query i]"]) (auto intro: runs_single)
next
  case insert
  with svc_query [of ph i reqs "q_pg c" d s "Inr None"] assms
  have "svc_step s reqs (d, ph) (Query i) (d, ph(i := Inserting))" by simp
  moreover have "svc_step s reqs (d, ph(i := Inserting)) (Insert i) (d', ph(i := Inserting, i := Answered r))"
    using insert(2) assms(3) by (intro svc_insert) simp_all
  ultimately show ?thesis
    by (intro exI [of _ "[Query i, Insert i]"]) (auto intro: runs_Cons [of "svc_step s reqs"] runs_single)
qed

lemma checkin_refined_by_steps_example:
  "\<exists>es ph. runs (svc_step (NewService 0) (\<lambda>_. ann_request)) (gate_db, \<lambda>_. Arrived) es
     (gate_db\<lparr>attendance_events := [ann_row ''u1'' 1000000000000]\<rparr>, ph)"
  using checkin_refined_by_steps [of "NewService 0" "at_gate 1000000000000 ''u1''" gate_db "\<lambda>_. ann_request" 0]
    first_checkin
  by (fastforce simp: ann_request_def at_gate_def)

end
