(* ===== verification/FloatText.thy ===== *)
theory FloatText
  imports Json
begin

text \<open>
  The text \<open>encoding/json\<close> writes for a \<open>float64\<close>: the shortest decimal that reads back as the same
  number (\<open>strconv.AppendFloat\<close> with precision -1), in plain or in exponent form. The lemmas: seventeen
  digits always suffice, and what is written is read back as the same \<open>float64\<close>.
\<close>

section \<open>The shortest decimal\<close>

definition f64_round :: "rat \<Rightarrow> rat" where
  "f64_round q = round_binary 53 (- 1074) q"

text \<open>
  With \<open>n\<close> digits, for a number between \<open>10 powi k\<close> and \<open>10 powi (k + 1)\<close>: the decimals next to it that
  read back as it; of two, the nearer one, at a tie the even one.
\<close>

definition digits_at :: "rat \<Rightarrow> int \<Rightarrow> nat \<Rightarrow> int option" where
  "digits_at x k n =
     (let u = 10 powi (k - int n + 1); lo = \<lfloor>x / u\<rfloor>;
          down = (f64_round (of_int lo * u) = x); up = (f64_round (of_int (lo + 1) * u) = x)
      in if down \<and> up then Some (rne (x / u))
         else if down then Some lo
         else if up then Some (lo + 1)
         else None)"

fun pick_digits :: "rat \<Rightarrow> int \<Rightarrow> nat list \<Rightarrow> int \<times> int" where
  "pick_digits x k [] = (rne (x / 10 powi (k - 16)), k - 16)"
| "pick_digits x k (n # ns) =
     (case digits_at x k n of Some m \<Rightarrow> (m, k - int n + 1) | None \<Rightarrow> pick_digits x k ns)"

text \<open>The pair \<open>(m, e)\<close> stands for \<open>m * 10 powi e\<close>.\<close>

definition shortest :: "rat \<Rightarrow> int \<times> int" where
  "shortest x = pick_digits x (base_expo 10 x) [1..<18]"

definition strip_zeros :: "string \<Rightarrow> string" where
  "strip_zeros ds = rev (dropWhile (\<lambda>c. c = CHR ''0'') (rev ds))"

text \<open>The digits and the position of the decimal point, counted from before the first digit.\<close>

definition float_digits :: "rat \<Rightarrow> string \<times> int" where
  "float_digits x =
     (let (m, e) = shortest x; ds = nat_text (nat m) in (strip_zeros ds, e + int (length ds)))"

section \<open>Plain and exponent form\<close>

definition plain_text :: "string \<Rightarrow> int \<Rightarrow> string" where
  "plain_text ds dp =
     (if 0 < dp then take (nat dp) ds @ replicate (nat dp - length ds) CHR ''0'' else ''0'')
     @ (if dp < int (length ds) then CHR ''.'' # replicate (nat (- dp)) CHR ''0'' @ drop (nat dp) ds else [])"

text \<open>The exponent form is used below 1e-6 and from 1e21 on. The leading zero that \<open>strconv\<close> puts before
  an exponent of one digit is taken out again by the encoder.\<close>

definition exponent_text :: "string \<Rightarrow> int \<Rightarrow> string" where
  "exponent_text ds dp =
     take 1 ds @ (if 1 < length ds then CHR ''.'' # drop 1 ds else [])
     @ CHR ''e'' # (if dp < 1 then CHR ''-'' else CHR ''+'') # nat_text (nat \<bar>dp - 1\<bar>)"

definition float_text_pos :: "rat \<Rightarrow> string" where
  "float_text_pos x =
     (let (ds, dp) = float_digits x
      in if x < f64_round (1 / 10 ^ 6) \<or> 10 ^ 21 \<le> x then exponent_text ds dp else plain_text ds dp)"

definition float_text :: "float64 \<Rightarrow> string" where
  "float_text x =
     (if x = 0 then ''0'' else if x < 0 then CHR ''-'' # float_text_pos (- x) else float_text_pos x)"

section \<open>A decimal close enough reads back\<close>

definition unit_at :: "rat \<Rightarrow> rat" where
  "unit_at q = 2 powi max (expo q - 52) (- 1074)"

lemma f64_round_pos: "0 < q \<Longrightarrow> f64_round q = of_int (rne (q / unit_at q)) * unit_at q"
  by (simp add: f64_round_def round_binary_def unit_at_def Let_def)

lemma unit_at_pos [simp]: "0 < unit_at q"
  by (simp add: unit_at_def)

lemma unit_at_lower: "0 < q \<Longrightarrow> q < 2 ^ 53 * unit_at q"
proof -
  assume "0 < q"
  then have "q < 2 powi (expo q + 1)" by (rule expo_bounds)
  also have "\<dots> = 2 ^ 53 * 2 powi (expo q - 52)" by (simp add: power_int_diff power_int_add)
  also have "\<dots> \<le> 2 ^ 53 * unit_at q" by (simp add: unit_at_def power_int_increasing)
  finally show ?thesis .
qed

lemma rne_near: "\<bar>x - of_int i\<bar> < 1 / 2 \<Longrightarrow> rne x = i"
proof -
  assume "\<bar>x - of_int i\<bar> < 1 / 2"
  moreover have "\<bar>of_int (rne x) - x\<bar> \<le> 1 / 2" by (rule rne_error)
  ultimately have "\<bar>of_int (rne x) - of_int i\<bar> < (1::rat)" by linarith
  then have "\<bar>of_int (rne x - i)\<bar> < (1::rat)" by simp
  then have "of_int \<bar>rne x - i\<bar> < (1::rat)" by simp
  then show ?thesis by simp
qed

lemma powi_multiple:
  assumes "i \<le> j"
  shows "\<exists>k::int. (2::rat) powi j = of_int k * 2 powi i"
proof -
  have "(2::rat) powi j = 2 powi (j - i) * 2 powi i" by (simp flip: power_int_add)
  moreover have "(2::rat) powi (j - i) = of_int (2 ^ nat (j - i))"
    using assms by (simp add: power_int_def)
  ultimately show ?thesis by metis
qed

lemma multiples_apart:
  assumes "x = of_int i * u" and "y = of_int j * u" and "x < y" and "0 < (u::rat)"
  shows "x + u \<le> y"
proof -
  have "i < j" using assms by (simp add: mult_less_cancel_right)
  then have "i + 1 \<le> j" by simp
  then have "of_int (i + 1) * u \<le> of_int j * u" using assms(4) by (intro mult_right_mono) (simp_all only: of_int_le_iff)
  then show ?thesis using assms(1,2) by (simp add: distrib_right)
qed

lemma f64_round_near:
  assumes x: "0 < x" "f64_round x = x" and near: "20000000000000000 * \<bar>q - x\<bar> \<le> x"
  shows "f64_round q = x"
proof -
  have up: "20000000000000000 * q \<le> 20000000000000001 * x" and down: "19999999999999999 * x \<le> 20000000000000000 * q"
    using near by (simp_all add: abs_if split: if_splits)
  then have q: "0 < q" using x(1) by linarith
  obtain i where i: "x = of_int i * unit_at x" using x f64_round_pos by metis
  have "expo q - 52 \<le> max (expo x - 52) (- 1074)"
  proof (rule ccontr)
    assume gt: "\<not> expo q - 52 \<le> max (expo x - 52) (- 1074)"
    then have "max (expo x - 52) (- 1074) \<le> expo q" by linarith
    then obtain j where j: "2 powi expo q = of_int j * unit_at x"
      unfolding unit_at_def by (blast dest: powi_multiple)
    have "x < 2 powi (expo x + 1)" using x(1) by (rule expo_bounds)
    also have "\<dots> \<le> 2 powi expo q" using gt by (intro power_int_increasing) simp_all
    finally have "x + unit_at x \<le> 2 powi expo q" using multiples_apart [OF i j] by simp
    also have "\<dots> \<le> q" using q by (rule expo_bounds)
    finally have "x + unit_at x \<le> q" .
    moreover have "x < 9007199254740992 * unit_at x" using unit_at_lower [OF x(1)] by simp
    ultimately show False using up x(1) by linarith
  qed
  then have "max (expo q - 52) (- 1074) \<le> max (expo x - 52) (- 1074)" by simp
  then obtain j where "unit_at x = of_int j * unit_at q"
    unfolding unit_at_def by (blast dest: powi_multiple)
  with i have ij: "x = of_int (i * j) * unit_at q" by simp
  have "q < 9007199254740992 * unit_at q" using unit_at_lower [OF q] by simp
  then have "2 * q < 2 * x + unit_at q" "2 * x < 2 * q + unit_at q" using up down x(1) by linarith+
  then have "\<bar>q - x\<bar> / unit_at q < 1 / 2" by (simp add: pos_divide_less_eq abs_if)
  moreover have "q / unit_at q - of_int (i * j) = (q - x) / unit_at q"
    using ij unit_at_pos [of q] by (simp add: diff_divide_distrib less_imp_neq [symmetric])
  ultimately have "rne (q / unit_at q) = i * j" by (intro rne_near) (simp add: pos_divide_less_eq abs_of_pos)
  with q ij show ?thesis by (simp add: f64_round_pos)
qed

lemma rne_upper: "of_int (rne y) \<le> y + 1"
  using rne_error [of y] by (simp add: abs_if split: if_splits)

lemma digits_at_SomeD:
  assumes "digits_at x k n = Some m" and u: "u = 10 powi (k - int n + 1)"
  shows "f64_round (of_int m * u) = x" and "of_int m \<le> x / u + 1"
proof -
  have "rne (x / u) \<in> {\<lfloor>x / u\<rfloor>, \<lfloor>x / u\<rfloor> + 1}" by (simp add: rne_def Let_def)
  with assms(1) show "f64_round (of_int m * u) = x"
    by (auto simp: digits_at_def Let_def simp flip: u split: if_splits)
  have "m = rne (x / u) \<or> m = \<lfloor>x / u\<rfloor> \<or> m = \<lfloor>x / u\<rfloor> + 1"
    using assms(1) by (auto simp: digits_at_def Let_def simp flip: u split: if_splits)
  moreover have "of_int \<lfloor>x / u\<rfloor> \<le> x / u + 1" by linarith
  ultimately show "of_int m \<le> x / u + 1" using rne_upper [of "x / u"] by auto
qed

lemma pick_digits_back:
  assumes "0 < x" "f64_round x = x" "10 powi k \<le> x" and "pick_digits x k ns = (m, e)"
  shows "f64_round (of_int m * 10 powi e) = x"
  using assms(4)
proof (induction ns)
  case Nil
  let ?u = "(10::rat) powi (k - 16)"
  have u: "0 < ?u" by simp
  have "\<bar>of_int m * ?u - x\<bar> = \<bar>of_int (rne (x / ?u)) - x / ?u\<bar> * ?u"
    using Nil u by (auto simp: abs_mult_pos left_diff_distrib)
  also have "\<dots> \<le> 1 / 2 * ?u" using u by (intro mult_right_mono rne_error) simp
  also have "\<dots> = 10 powi k / 20000000000000000" by (simp add: power_int_diff)
  also have "\<dots> \<le> x / 20000000000000000" using assms(3) by (rule divide_right_mono) simp
  finally have "20000000000000000 * \<bar>of_int m * ?u - x\<bar> \<le> x" by (simp add: pos_le_divide_eq mult.commute)
  then show ?case using f64_round_near [OF assms(1,2)] Nil by simp
next
  case (Cons n ns)
  then show ?case by (auto simp: digits_at_SomeD(1) split: option.splits)
qed

lemma shortest_back:
  assumes "0 < x" "f64_round x = x" and "shortest x = (m, e)"
  shows "f64_round (of_int m * 10 powi e) = x"
  using pick_digits_back [OF assms(1,2)] base_expo_bounds(1) [OF assms(1), of 10] assms(3)
  by (simp add: shortest_def)

section \<open>The value of the text\<close>

lemma digits_value_append: "digits_value (s @ t) = digits_value s * 10 ^ length t + digits_value t"
proof (induction t rule: rev_induct)
  case Nil
  then show ?case by (simp add: digits_value_def)
next
  case (snoc c t)
  then show ?case by (simp add: digits_value_snoc flip: append_assoc)
qed

lemma digits_value_zeros: "digits_value (replicate n CHR ''0'') = 0"
  by (induction n) (simp_all add: digits_value_snoc replicate_append_same [symmetric], simp add: digits_value_def)

lemma strip_zeros_split: "\<exists>n. ds = strip_zeros ds @ replicate n CHR ''0''"
proof -
  let ?z = "takeWhile (\<lambda>c. c = CHR ''0'') (rev ds)"
  have "?z = replicate (length ?z) CHR ''0''"
    by (intro replicate_eqI refl) (auto dest: set_takeWhileD)
  moreover have "ds = strip_zeros ds @ rev ?z"
    by (simp add: strip_zeros_def flip: rev_append)
  ultimately show ?thesis by (metis rev_replicate)
qed

lemma strip_zeros_value:
  "of_nat (digits_value (strip_zeros ds)) * 10 powi (e - int (length (strip_zeros ds))) =
     (of_nat (digits_value ds) * 10 powi (e - int (length ds)) :: rat)"
proof -
  obtain n where ds: "ds = strip_zeros ds @ replicate n CHR ''0''" using strip_zeros_split by blast
  have v: "digits_value ds = digits_value (strip_zeros ds) * 10 ^ n"
    by (subst ds) (simp add: digits_value_append digits_value_zeros)
  have l: "length ds = length (strip_zeros ds) + n" by (subst ds) simp
  show ?thesis by (simp add: v l power_int_diff power_int_add power_add)
qed

definition decimal :: "string \<Rightarrow> bool" where
  "decimal ds \<longleftrightarrow> ds \<noteq> [] \<and> list_all digit ds"

lemma digit_plain: "digit c \<Longrightarrow> c \<noteq> CHR ''.'' \<and> c \<noteq> CHR ''e'' \<and> c \<noteq> CHR ''E'' \<and> c \<noteq> CHR ''-''"
  by (auto simp: digit_def)

lemma digit_zero [simp]: "digit CHR ''0''"
  by (simp add: digit_def)

text \<open>The value of a number put together of an integer, a fraction and an exponent.\<close>

lemma number_value_parts:
  assumes i: "decimal i" and f: "list_all digit f"
    and dot: "p = (if f = [] then [] else CHR ''.'' # f)"
    and x: "x = [] \<or> (\<exists>e. x = CHR ''e'' # e)"
  shows "number_value (i @ p @ x) = of_nat (digits_value (i @ f)) * 10 powi (fst (Atoi (drop 1 x)) - int (length f))"
proof -
  have no_e: "\<forall>c \<in> set (i @ p). c \<noteq> CHR ''e'' \<and> c \<noteq> CHR ''E''"
    using i f dot by (auto simp: decimal_def list_all_iff dest: digit_plain)
  have no_dot: "\<forall>c \<in> set i. c \<noteq> CHR ''.''"
    using i by (auto simp: decimal_def list_all_iff dest: digit_plain)
  have neg: "\<not> (i @ p @ x \<noteq> [] \<and> hd (i @ p @ x) = CHR ''-'')"
    using i by (cases i) (auto simp: decimal_def dest: digit_plain)
  have m: "takeWhile (\<lambda>c. c \<noteq> CHR ''e'' \<and> c \<noteq> CHR ''E'') (i @ p @ x) = i @ p"
  proof -
    have "takeWhile (\<lambda>c. c \<noteq> CHR ''e'' \<and> c \<noteq> CHR ''E'') ((i @ p) @ x) =
        (i @ p) @ takeWhile (\<lambda>c. c \<noteq> CHR ''e'' \<and> c \<noteq> CHR ''E'') x"
      by (rule takeWhile_append2) (use no_e in blast)
    moreover have "takeWhile (\<lambda>c. c \<noteq> CHR ''e'' \<and> c \<noteq> CHR ''E'') x = []" using x by auto
    ultimately show ?thesis by simp
  qed
  have i': "takeWhile (\<lambda>c. c \<noteq> CHR ''.'') (i @ p) = i"
  proof -
    have "takeWhile (\<lambda>c. c \<noteq> CHR ''.'') (i @ p) = i @ takeWhile (\<lambda>c. c \<noteq> CHR ''.'') p"
      by (rule takeWhile_append2) (use no_dot in blast)
    then show ?thesis using dot by simp
  qed
  have f': "drop (length i + 1) (i @ p) = f" using dot by simp
  have x': "drop (length (i @ p) + 1) (i @ p @ x) = drop 1 x" by simp
  show ?thesis unfolding number_value_def Let_def using neg by (simp only: m i' f' x' if_False if_cancel)
qed

lemma plain_text_value:
  assumes "decimal ds"
  shows "number_value (plain_text ds dp) = of_nat (digits_value ds) * 10 powi (dp - int (length ds))"
proof -
  let ?i = "if 0 < dp then take (nat dp) ds @ replicate (nat dp - length ds) CHR ''0'' else ''0''"
  let ?f = "if dp < int (length ds) then replicate (nat (- dp)) CHR ''0'' @ drop (nat dp) ds else []"
  have i: "decimal ?i" and f: "list_all digit ?f"
    using assms by (auto simp: decimal_def list_all_iff dest: in_set_takeD in_set_dropD)
  have t: "plain_text ds dp = ?i @ (if ?f = [] then [] else CHR ''.'' # ?f) @ []"
    using assms by (auto simp: plain_text_def decimal_def)
  have v: "number_value (plain_text ds dp) = of_nat (digits_value (?i @ ?f)) * 10 powi (fst (Atoi (drop 1 [])) - int (length ?f))"
    unfolding t by (rule number_value_parts [OF i f refl]) simp
  consider "dp \<le> 0" | "0 < dp" "dp < int (length ds)" | "0 < dp" "int (length ds) \<le> dp" by linarith
  then show ?thesis
  proof cases
    case 1
    moreover have "dp < int (length ds)" using assms 1 by (cases ds) (simp_all add: decimal_def)
    ultimately have "?i @ ?f = replicate (Suc (nat (- dp))) CHR ''0'' @ ds" and "int (length ?f) = int (length ds) - dp"
      by auto
    then show ?thesis using v by (simp only: digits_value_append digits_value_zeros) (simp add: Atoi_def)
  next
    case 2
    then have "?i @ ?f = ds" and "int (length ?f) = int (length ds) - dp" by auto
    then show ?thesis using v by (simp only:) (simp add: Atoi_def)
  next
    case 3
    then have "?i @ ?f = ds @ replicate (nat dp - length ds) CHR ''0''" and "length ?f = 0" by auto
    moreover have "10 ^ (nat dp - length ds) = (10::rat) powi (dp - int (length ds))"
      using 3 by (simp add: power_int_def nat_diff_distrib)
    ultimately show ?thesis
      using v by (simp only: digits_value_append digits_value_zeros length_replicate) (simp add: Atoi_def)
  qed
qed

lemma Atoi_signed:
  assumes "n < 2 ^ 62"
  shows "Atoi (CHR ''-'' # nat_text n) = (- int n, True)" and "Atoi (CHR ''+'' # nat_text n) = (int n, True)"
  using assms
  by (simp_all add: Atoi_def nat_text_nonempty nat_text_digits digits_value_nat_text sat_i64_def in_i64_def
    min_i64_def max_i64_def Let_def)

lemma exponent_text_value:
  assumes "decimal ds" and "\<bar>dp - 1\<bar> < 2 ^ 62"
  shows "number_value (exponent_text ds dp) = of_nat (digits_value ds) * 10 powi (dp - int (length ds))"
proof -
  let ?x = "CHR ''e'' # (if dp < 1 then CHR ''-'' else CHR ''+'') # nat_text (nat \<bar>dp - 1\<bar>)"
  obtain c cs where ds: "ds = c # cs" using assms(1) by (cases ds) (auto simp: decimal_def)
  have "decimal [c]" "list_all digit cs" using assms(1) by (simp_all add: decimal_def ds)
  then have "number_value ([c] @ (if cs = [] then [] else CHR ''.'' # cs) @ ?x) =
      of_nat (digits_value ([c] @ cs)) * 10 powi (fst (Atoi (drop 1 ?x)) - int (length cs))"
    by (rule number_value_parts) simp_all
  moreover have "fst (Atoi (drop 1 ?x)) = dp - 1"
    using assms(2) Atoi_signed [of "nat \<bar>dp - 1\<bar>"] by (cases "dp < 1") (simp_all add: nat_less_iff)
  moreover have "exponent_text ds dp = [c] @ (if cs = [] then [] else CHR ''.'' # cs) @ ?x"
    by (simp add: exponent_text_def ds)
  ultimately show ?thesis by (simp add: ds diff_diff_eq)
qed

section \<open>The text is short\<close>

lemma nat_text_length: "n < 10 ^ Suc l \<Longrightarrow> length (nat_text n) \<le> Suc l"
proof (induction l arbitrary: n)
  case 0
  then show ?case by (simp add: nat_text.simps)
next
  case (Suc l)
  then have "n div 10 < 10 ^ Suc l" by (simp add: div_less_iff_less_mult mult.commute)
  with Suc.IH show ?case by (subst nat_text.simps) simp
qed

lemma pick_digits_range:
  assumes "pick_digits x k ns = (m, e)" and "set ns \<subseteq> {1..17}"
  shows "k - 16 \<le> e" and "e \<le> k" and "of_int m \<le> x / 10 powi e + 1"
proof -
  have "k - 16 \<le> e \<and> e \<le> k \<and> of_int m \<le> x / 10 powi e + 1"
    using assms
  proof (induction ns)
    case Nil
    then show ?case using rne_upper by auto
  next
    case (Cons n ns)
    then show ?case by (auto intro: digits_at_SomeD(2) split: option.splits)
  qed
  then show "k - 16 \<le> e" and "e \<le> k" and "of_int m \<le> x / 10 powi e + 1" by simp_all
qed

lemma base_expo_range:
  assumes "0 < x" "f64_round x = x" "x < 2 ^ 1024"
  shows "- 1076 < base_expo 10 x" and "base_expo 10 x < 1024"
proof -
  let ?k = "base_expo 10 x"
  have k: "10 powi ?k \<le> x" "x < 10 powi (?k + 1)" using base_expo_bounds [OF assms(1), of 10] by simp_all
  show "?k < 1024"
  proof (rule ccontr)
    assume "\<not> ?k < 1024"
    then have "(10::rat) powi 1024 \<le> 10 powi ?k" by (intro power_int_increasing) simp_all
    moreover have "(2::rat) ^ 1024 \<le> 10 ^ 1024" by (rule power_mono) simp_all
    moreover have "(10::rat) powi 1024 = 10 ^ 1024" by (simp only: power_int_numeral)
    ultimately show False using k(1) assms(3) by linarith
  qed
  obtain i where i: "x = of_int i * unit_at x" using assms f64_round_pos by metis
  then have "0 < i" using assms(1) by (metis of_int_0_less_iff unit_at_pos zero_less_mult_pos2)
  then have "unit_at x \<le> x" using i multiples_apart [of 0 0 "unit_at x" x i] assms(1) by simp
  moreover have "(2::rat) powi (- 1074) \<le> unit_at x" unfolding unit_at_def by (intro power_int_increasing) simp_all
  ultimately have lo: "(2::rat) powi (- 1074) \<le> x" by simp
  show "- 1076 < ?k"
  proof (rule ccontr)
    assume "\<not> - 1076 < ?k"
    then have "(10::rat) powi (?k + 1) \<le> 10 powi (- 1075)" by (intro power_int_increasing) simp_all
    also have "\<dots> \<le> 10 powi (- 1074)" by (intro power_int_increasing) simp_all
    also have "\<dots> \<le> 2 powi (- 1074)"
      unfolding power_int_minus by (intro le_imp_inverse_le power_int_mono) simp_all
    finally show False using k(2) lo by simp
  qed
qed

lemma nat_text_leading: "0 < n \<Longrightarrow> hd (nat_text n) \<noteq> CHR ''0''"
proof (induction n rule: nat_text.induct)
  case (1 n)
  show ?case
  proof (cases "n < 10")
    case True
    have "byte (mk_byte (48 + n)) = 48 + n" using True by simp
    moreover have "byte CHR ''0'' = 48" by simp
    ultimately have "mk_byte (48 + n) \<noteq> CHR ''0''" using "1.prems" by (metis add_eq_self_zero less_not_refl)
    then show ?thesis using True by (simp add: nat_text.simps [of n])
  next
    case False
    with "1.IH" show ?thesis by (simp add: nat_text.simps [of n] nat_text_nonempty)
  qed
qed

lemma strip_zeros_decimal:
  assumes "decimal ds" and "hd ds \<noteq> CHR ''0''"
  shows "decimal (strip_zeros ds)" and "hd (strip_zeros ds) = hd ds"
proof -
  obtain n where ds: "ds = strip_zeros ds @ replicate n CHR ''0''" using strip_zeros_split by blast
  have ne: "strip_zeros ds \<noteq> []"
  proof
    assume "strip_zeros ds = []"
    with ds have "ds = replicate n CHR ''0''" by simp
    with assms show False by (cases n) (simp_all add: decimal_def)
  qed
  have "list_all digit (strip_zeros ds)" using assms(1) ds by (metis decimal_def list_all_append)
  with ne show "decimal (strip_zeros ds)" by (simp add: decimal_def)
  show "hd (strip_zeros ds) = hd ds" using ne ds by (metis hd_append2)
qed

lemma f64_round_nonpos: "q \<le> 0 \<Longrightarrow> f64_round q \<le> 0"
proof -
  assume "q \<le> 0"
  then have "0 \<le> rne (- q / unit_at (- q))"
    using rne_mono [of 0 "- q / unit_at (- q)"] by (simp add: divide_nonpos_pos rne_def)
  then show ?thesis using \<open>q \<le> 0\<close> by (auto simp: f64_round_def round_binary_def unit_at_def Let_def mult_nonneg_nonneg)
qed

lemma float_digits_back:
  assumes x: "0 < x" "f64_round x = x" "x < 2 ^ 1024" and d: "float_digits x = (ds, dp)"
  shows "decimal ds" and "hd ds \<noteq> CHR ''0''" and "\<bar>dp - 1\<bar> < 2 ^ 62"
    and "f64_round (of_nat (digits_value ds) * 10 powi (dp - int (length ds))) = x"
proof -
  obtain m e where me: "shortest x = (m, e)" by (cases "shortest x")
  let ?t = "nat_text (nat m)"
  from d have ds: "ds = strip_zeros ?t" and dp: "dp = e + int (length ?t)"
    by (simp_all add: float_digits_def me Let_def)
  have same: "f64_round (of_int m * 10 powi e) = x" using x(1,2) me by (rule shortest_back)
  have m: "0 < m"
  proof (rule ccontr)
    assume "\<not> 0 < m"
    then have "of_int m * (10::rat) powi e \<le> 0" by (intro mult_nonpos_nonneg) simp_all
    then show False using f64_round_nonpos same x(1) by fastforce
  qed
  have t: "decimal ?t" "hd ?t \<noteq> CHR ''0''"
    using m by (simp_all add: decimal_def nat_text_digits nat_text_nonempty nat_text_leading)
  then show "decimal ds" and "hd ds \<noteq> CHR ''0''" using strip_zeros_decimal [of ?t] by (simp_all add: ds)
  have "pick_digits x (base_expo 10 x) [1..<18] = (m, e)" using me unfolding shortest_def .
  moreover have "set [1..<18] \<subseteq> {1..17::nat}" by auto
  ultimately have e: "base_expo 10 x - 16 \<le> e" "e \<le> base_expo 10 x" and le: "of_int m \<le> x / 10 powi e + 1"
    by (rule pick_digits_range)+
  note le
  also have "x / 10 powi e < 10 powi (base_expo 10 x + 1 - e)"
    using base_expo_bounds(2) [OF x(1), of 10] by (simp add: pos_divide_less_eq flip: power_int_add)
  also have "(10::rat) powi (base_expo 10 x + 1 - e) \<le> 10 powi 17" using e by (intro power_int_increasing) simp_all
  finally have "of_int m < (10::rat) ^ 17 + 1" by simp
  then have "of_int m < (of_int (10 ^ 17 + 1) :: rat)" by simp
  then have "nat m < 10 ^ Suc 17" by (simp only: of_int_less_iff) simp
  then have "length ?t \<le> 18" using nat_text_length [of "nat m" 17] by simp
  then show "\<bar>dp - 1\<bar> < 2 ^ 62" using base_expo_range [OF x] e by (simp add: dp)
  show "f64_round (of_nat (digits_value ds) * 10 powi (dp - int (length ds))) = x"
    using same m by (simp add: ds strip_zeros_value dp digits_value_nat_text)
qed

lemma float_text_pos_value:
  assumes "0 < x" "f64_round x = x" "x < 2 ^ 1024"
  shows "f64_round (number_value (float_text_pos x)) = x"
proof -
  obtain ds dp where d: "float_digits x = (ds, dp)" by (cases "float_digits x")
  show ?thesis
    using float_digits_back [OF assms d]
    by (simp add: float_text_pos_def d plain_text_value exponent_text_value)
qed

lemma f64_round_minus: "f64_round (- q) = - f64_round q"
  by (simp add: f64_round_def round_binary_def Let_def)

section \<open>The text is a JSON number\<close>

definition stops :: "string \<Rightarrow> bool" where
  "stops t \<longleftrightarrow> t = [] \<or> \<not> (digit (hd t) \<or> hd t \<in> {CHR ''.'', CHR ''e'', CHR ''E''})"

definition number_exponent :: "string \<Rightarrow> bool" where
  "number_exponent x \<longleftrightarrow> x = [] \<or> (\<exists>s e. x = CHR ''e'' # s # e \<and> (s = CHR ''-'' \<or> s = CHR ''+'') \<and> decimal e)"

text \<open>What \<open>float_text_pos\<close> and \<open>nat_text\<close> write.\<close>

definition unsigned_number :: "string \<Rightarrow> bool" where
  "unsigned_number u \<longleftrightarrow>
     (\<exists>i f x. u = i @ (if f = [] then [] else CHR ''.'' # f) @ x \<and> decimal i \<and> (hd i = CHR ''0'' \<longrightarrow> i = ''0'')
        \<and> list_all digit f \<and> number_exponent x)"

lemma while_digits:
  assumes "list_all digit ds" and "s = [] \<or> \<not> digit (hd s)"
  shows "takeWhile digit (ds @ s) = ds" and "dropWhile digit (ds @ s) = s"
proof -
  have "\<forall>c \<in> set ds. digit c" using assms(1) by (simp add: list_all_iff)
  then show "takeWhile digit (ds @ s) = ds" "dropWhile digit (ds @ s) = s"
    using assms(2) by (cases s; simp)+
qed

lemma parse_int_part_decimal:
  assumes "decimal i" "hd i = CHR ''0'' \<longrightarrow> i = ''0''" "s = [] \<or> \<not> digit (hd s)"
  shows "parse_int_part (i @ s) = Some (i, s)"
proof -
  obtain c cs where i: "i = c # cs" using assms(1) by (cases i) (auto simp: decimal_def)
  have "takeWhile digit (i @ s) = i" "dropWhile digit (i @ s) = s"
    using while_digits assms by (auto simp: decimal_def)
  with assms show ?thesis by (auto simp: parse_int_part_def i decimal_def)
qed

lemma parse_frac_part_digits:
  assumes "list_all digit f" "s = [] \<or> \<not> digit (hd s) \<and> hd s \<noteq> CHR ''.''"
  shows "parse_frac_part ((if f = [] then [] else CHR ''.'' # f) @ s) = Some (if f = [] then [] else CHR ''.'' # f, s)"
proof (cases "f = []")
  case True
  with assms(2) show ?thesis by (cases s) (auto simp: parse_frac_part_def)
next
  case False
  have "takeWhile digit (f @ s) = f" "dropWhile digit (f @ s) = s"
    using while_digits assms by auto
  with False show ?thesis by (simp add: parse_frac_part_def)
qed

lemma parse_exp_part_exponent:
  assumes "number_exponent x" "stops s"
  shows "parse_exp_part (x @ s) = Some (x, s)"
proof (cases "x = []")
  case True
  with assms(2) show ?thesis by (cases s) (auto simp: parse_exp_part_def stops_def)
next
  case False
  with assms(1) obtain c e where x: "x = CHR ''e'' # c # e" and c: "c = CHR ''-'' \<or> c = CHR ''+''" and e: "decimal e"
    by (auto simp: number_exponent_def)
  have "takeWhile digit (e @ s) = e" "dropWhile digit (e @ s) = s"
    using while_digits e assms(2) by (auto simp: decimal_def stops_def)
  with c e show ?thesis by (auto simp: parse_exp_part_def x decimal_def Let_def)
qed

lemma parse_unsigned_number:
  assumes "unsigned_number u" and "stops t"
  shows "parse_number (u @ t) = Some (JNum u, t)" and "parse_number (CHR ''-'' # u @ t) = Some (JNum (CHR ''-'' # u), t)"
proof -
  obtain i f x where u': "u = i @ (if f = [] then [] else CHR ''.'' # f) @ x"
    and i: "decimal i" "hd i = CHR ''0'' \<longrightarrow> i = ''0''" and f: "list_all digit f" and x: "number_exponent x"
    using assms(1) by (auto simp: unsigned_number_def)
  define p where "p = (if f = [] then [] else CHR ''.'' # f)"
  have u: "u = i @ p @ x" using u' by (simp add: p_def)
  have "x @ t = [] \<or> \<not> digit (hd (x @ t)) \<and> hd (x @ t) \<noteq> CHR ''.''"
    using x assms(2) by (auto simp: number_exponent_def stops_def digit_def)
  then have parts: "parse_int_part (i @ p @ x @ t) = Some (i, p @ x @ t)"
    "parse_frac_part (p @ x @ t) = Some (p, x @ t)"
    using parse_int_part_decimal [OF i, of "p @ x @ t"] parse_frac_part_digits [OF f, of "x @ t"]
    by (auto simp: p_def digit_def)
  obtain c r where "i = c # r" "c \<noteq> CHR ''-''" using i(1) by (cases i) (auto simp: decimal_def dest: digit_plain)
  then show "parse_number (u @ t) = Some (JNum u, t)"
    using parts parse_exp_part_exponent [OF x assms(2)] by (simp add: parse_number_def u)
  show "parse_number (CHR ''-'' # u @ t) = Some (JNum (CHR ''-'' # u), t)"
    using parts parse_exp_part_exponent [OF x assms(2)] by (simp add: parse_number_def u)
qed

lemma nat_text_zero: "nat_text 0 = ''0''"
  by code_simp

lemma unsigned_number_nat_text: "unsigned_number (nat_text n)"
proof -
  have "hd (nat_text n) = CHR ''0'' \<longrightarrow> nat_text n = ''0''"
    using nat_text_leading [of n] by (cases "n = 0") (simp_all add: nat_text_zero)
  then show ?thesis
    unfolding unsigned_number_def
    by (intro exI [of _ "nat_text n"] exI [of _ "[]"])
      (simp add: decimal_def nat_text_digits nat_text_nonempty number_exponent_def)
qed

lemma unsigned_number_plain:
  assumes "decimal ds" and "hd ds \<noteq> CHR ''0''"
  shows "unsigned_number (plain_text ds dp)"
proof -
  let ?i = "if 0 < dp then take (nat dp) ds @ replicate (nat dp - length ds) CHR ''0'' else ''0''"
  let ?f = "if dp < int (length ds) then replicate (nat (- dp)) CHR ''0'' @ drop (nat dp) ds else []"
  have "decimal ?i" and "list_all digit ?f"
    using assms by (auto simp: decimal_def list_all_iff dest: in_set_takeD in_set_dropD)
  moreover have "plain_text ds dp = ?i @ (if ?f = [] then [] else CHR ''.'' # ?f) @ []"
    using assms by (auto simp: plain_text_def decimal_def)
  moreover have "hd ?i = CHR ''0'' \<longrightarrow> ?i = ''0''"
    using assms by (auto simp: decimal_def hd_append)
  ultimately show ?thesis
    unfolding unsigned_number_def by (intro exI [of _ ?i] exI [of _ ?f] exI [of _ "[]"]) (simp add: number_exponent_def)
qed

lemma unsigned_number_exponent:
  assumes "decimal ds" and "hd ds \<noteq> CHR ''0''"
  shows "unsigned_number (exponent_text ds dp)"
proof -
  let ?x = "CHR ''e'' # (if dp < 1 then CHR ''-'' else CHR ''+'') # nat_text (nat \<bar>dp - 1\<bar>)"
  obtain c cs where ds: "ds = c # cs" using assms(1) by (cases ds) (auto simp: decimal_def)
  have "number_exponent ?x"
    by (simp add: number_exponent_def decimal_def nat_text_digits nat_text_nonempty)
  moreover have "exponent_text ds dp = [c] @ (if cs = [] then [] else CHR ''.'' # cs) @ ?x"
    by (simp add: exponent_text_def ds)
  ultimately show ?thesis
    using assms unfolding unsigned_number_def
    by (intro exI [of _ "[c]"] exI [of _ cs] exI [of _ ?x]) (simp add: ds decimal_def)
qed

definition is_f64 :: "rat \<Rightarrow> bool" where
  "is_f64 x \<longleftrightarrow> f64_round x = x \<and> \<bar>x\<bar> < 2 ^ 1024"

lemma unsigned_number_float_text_pos:
  assumes "0 < x" "is_f64 x"
  shows "unsigned_number (float_text_pos x)"
proof -
  obtain ds dp where d: "float_digits x = (ds, dp)" by (cases "float_digits x")
  have "decimal ds" "hd ds \<noteq> CHR ''0''"
    using float_digits_back [OF assms(1) _ _ d] assms by (simp_all add: is_f64_def)
  then show ?thesis
    by (simp add: float_text_pos_def d unsigned_number_plain unsigned_number_exponent)
qed

lemma number_value_minus:
  assumes "unsigned_number u"
  shows "number_value (CHR ''-'' # u) = - number_value u"
proof -
  obtain c r where "u = c # r" "c \<noteq> CHR ''-''"
    using assms by (fastforce simp: unsigned_number_def decimal_def neq_Nil_conv dest: digit_plain)
  then show ?thesis by (simp add: number_value_def Let_def)
qed

text \<open>What is written for a \<open>float64\<close> is a number of JSON and reads back as the same \<open>float64\<close>.\<close>

lemma parse_float_text:
  assumes "is_f64 x" and "stops t"
  shows "parse_number (float_text x @ t) = Some (JNum (float_text x), t)"
proof -
  have "parse_number (''0'' @ t) = Some (JNum ''0'', t)"
    using parse_unsigned_number(1) [OF unsigned_number_nat_text assms(2), of 0] by (simp add: nat_text_zero)
  then show ?thesis
    using parse_unsigned_number [OF _ assms(2)] unsigned_number_float_text_pos [of x]
      unsigned_number_float_text_pos [of "- x"] assms(1)
    by (auto simp: float_text_def is_f64_def f64_round_minus)
qed

lemma float64_text_float_text:
  assumes "is_f64 x"
  shows "float64_text (float_text x) = Some x"
proof -
  have pos: "f64_round (number_value (float_text_pos y)) = y" if "0 < y" "is_f64 y" for y
    using that float_text_pos_value by (simp add: is_f64_def)
  have "f64_round (number_value (float_text x)) = x"
  proof (cases "x < 0")
    case True
    with assms have "0 < - x" "is_f64 (- x)" by (simp_all add: is_f64_def f64_round_minus)
    then show ?thesis
      using True pos [of "- x"] number_value_minus [OF unsigned_number_float_text_pos [of "- x"]]
      by (simp add: float_text_def f64_round_minus)
  next
    case False
    then show ?thesis
      using pos [of x] assms zero_text(1)
      by (auto simp: float_text_def float64_text_def ParseFloat_def f64_round_def Let_def split: if_splits)
  qed
  then show ?thesis
    using assms by (simp add: float64_text_def ParseFloat_def is_f64_def Let_def flip: f64_round_def)
qed

end
