(* ===== verification/JsonEncode.thy ===== *)
theory JsonEncode
  imports FloatText
begin

text \<open>
  \<open>json.Marshal\<close> of a \<open>map[string]interface{}\<close>: the Go values an \<open>interface{}\<close> may hold (nil, booleans,
  integers, floats, strings, slices and maps with string keys, the last two not nil), the text written
  for them, and the lemma that the reader of theory \<open>Json\<close> gets the same value back.
\<close>

section \<open>Values and their text\<close>

datatype gval =
    GNil
  | GBool bool
  | GInt int
  | GFloat rat
  | GString string
  | GSlice "gval list"
  | GMap "(string \<times> gval) list"

text \<open>The text of a value, with the entries of a map as they stand, and the JSON value it stands for.\<close>

fun write_value :: "gval \<Rightarrow> string" where
  "write_value GNil = ''null''"
| "write_value (GBool b) = (if b then ''true'' else ''false'')"
| "write_value (GInt i) = int_text i"
| "write_value (GFloat x) = float_text x"
| "write_value (GString s) = quote_json s"
| "write_value (GSlice vs) = CHR ''['' # Join (map write_value vs) '','' @ '']''"
| "write_value (GMap m) = CHR ''{'' # Join (map (\<lambda>(k, v). quote_json k @ CHR '':'' # write_value v) m) '','' @ ''}''"

fun json_in_order :: "gval \<Rightarrow> json" where
  "json_in_order GNil = JNull"
| "json_in_order (GBool b) = JBool b"
| "json_in_order (GInt i) = JNum (int_text i)"
| "json_in_order (GFloat x) = JNum (float_text x)"
| "json_in_order (GString s) = JStr (to_utf8 s)"
| "json_in_order (GSlice vs) = JArr (map json_in_order vs)"
| "json_in_order (GMap m) = JObj (map (\<lambda>(k, v). (to_utf8 k, json_in_order v)) m)"

text \<open>A map has its entries in any order, with distinct keys; \<open>json.Marshal\<close> writes them in the order of
  the keys.\<close>

fun sort_maps :: "gval \<Rightarrow> gval" where
  "sort_maps (GSlice vs) = GSlice (map sort_maps vs)"
| "sort_maps (GMap m) = GMap (sort_key fst (map (\<lambda>(k, v). (k, sort_maps v)) m))"
| "sort_maps g = g"

definition encode_value :: "gval \<Rightarrow> string" where
  "encode_value g = write_value (sort_maps g)"

definition json_of :: "gval \<Rightarrow> json" where
  "json_of g = json_in_order (sort_maps g)"

fun depth :: "gval \<Rightarrow> nat" where
  "depth (GSlice vs) = Suc (foldr max (map depth vs) 0)"
| "depth (GMap m) = Suc (foldr max (map (\<lambda>(k, v). depth v) m) 0)"
| "depth _ = 0"

fun floats_ok :: "gval \<Rightarrow> bool" where
  "floats_ok (GFloat x) = is_f64 x"
| "floats_ok (GSlice vs) = list_all floats_ok vs"
| "floats_ok (GMap m) = list_all (\<lambda>(k, v). floats_ok v) m"
| "floats_ok _ = True"

section \<open>What is written is read back\<close>

text \<open>A text that is read as the value \<open>w\<close> with enough fuel, below \<open>h\<close> further levels of nesting.\<close>

definition reads :: "string \<Rightarrow> json \<Rightarrow> nat \<Rightarrow> bool" where
  "reads s w h \<longleftrightarrow>
     (\<exists>N. \<forall>n\<ge>N. \<forall>d t. d + h \<le> max_depth \<longrightarrow> stops t \<longrightarrow> parse_value n d (s @ t) = Some (w, t))"

lemma stops_punctuation [simp]: "stops (CHR '','' # t)" "stops (CHR '']'' # t)" "stops (CHR ''}'' # t)" "stops []"
  by (simp_all add: stops_def digit_def)

lemma readsI_fuel:
  assumes "\<And>n d t. N \<le> n \<Longrightarrow> d + h \<le> max_depth \<Longrightarrow> stops t \<Longrightarrow> parse_value (Suc n) d (s @ t) = Some (w, t)"
  shows "reads s w h"
  unfolding reads_def
proof (rule exI [of _ "Suc N"], intro allI impI)
  fix n d t assume "Suc N \<le> n" "d + h \<le> max_depth" "stops t"
  then show "parse_value n d (s @ t) = Some (w, t)" using assms by (cases n) (simp_all del: parse_value.simps)
qed

lemmas readsI = readsI_fuel [of 0]

lemma reads_weaken: "reads s w h \<Longrightarrow> h \<le> h' \<Longrightarrow> reads s w h'"
  unfolding reads_def by (meson add_left_mono le_trans)

lemma reads_string: "reads (quote_json s) (JStr (to_utf8 s)) h"
  by (rule readsI) (rule parse_quoted_value)

lemma reads_literal: "reads ''null'' JNull h" "reads ''true'' (JBool True) h" "reads ''false'' (JBool False) h"
  by (rule readsI, simp add: value_step_def skip_space_Cons json_space_def json_chars literal_def HasPrefix_def)+

lemma reads_number:
  assumes "\<And>t. stops t \<Longrightarrow> parse_number (u @ t) = Some (JNum u, t)"
    and "u \<noteq> []" "digit (hd u) \<or> hd u = CHR ''-''"
  shows "reads u (JNum u) h"
proof (rule readsI)
  fix n d t assume t: "stops t"
  obtain c r where u: "u = c # r" using assms(2) by (cases u) auto
  have "\<not> json_space c" and "c \<notin> {dquote, CHR ''{'', CHR ''['', CHR ''t'', CHR ''f'', CHR ''n''}"
    using assms(3) by (auto simp: u digit_def json_space_def json_chars)
  then show "parse_value (Suc n) d (u @ t) = Some (JNum u, t)"
    using assms(1) [OF t] by (simp add: u value_step_def skip_space_Cons)
qed

lemma parse_elems_reads:
  assumes "ps \<noteq> []" and "\<forall>(s, w) \<in> set ps. reads s w h"
  shows "\<exists>N. \<forall>n\<ge>N. \<forall>d acc t. d + h \<le> max_depth \<longrightarrow>
    parse_elems n d acc (Join (map fst ps) '','' @ CHR '']'' # t) = Some (JArr (acc @ map snd ps), t)"
  using assms
proof (induction ps rule: list_nonempty_induct)
  case (single p)
  then obtain N where N: "\<forall>n\<ge>N. \<forall>d t. d + h \<le> max_depth \<longrightarrow> stops t \<longrightarrow> parse_value n d (fst p @ t) = Some (snd p, t)"
    by (auto simp: reads_def case_prod_beta)
  show ?case
  proof (rule exI [of _ "Suc N"], intro allI impI)
    fix n d acc t assume "Suc N \<le> n" "d + h \<le> max_depth"
    then obtain k where "n = Suc k" "N \<le> k" by (cases n) auto
    with N \<open>d + h \<le> max_depth\<close> show "parse_elems n d acc (Join (map fst [p]) '','' @ CHR '']'' # t) = Some (JArr (acc @ map snd [p]), t)"
      by (simp add: elems_step_def skip_space_Cons json_space_def)
  qed
next
  case (cons p ps)
  then obtain N where N: "\<forall>n\<ge>N. \<forall>d t. d + h \<le> max_depth \<longrightarrow> stops t \<longrightarrow> parse_value n d (fst p @ t) = Some (snd p, t)"
    by (auto simp: reads_def case_prod_beta)
  from cons obtain M where M: "\<forall>n\<ge>M. \<forall>d acc t. d + h \<le> max_depth \<longrightarrow>
    parse_elems n d acc (Join (map fst ps) '','' @ CHR '']'' # t) = Some (JArr (acc @ map snd ps), t)" by auto
  obtain p' ps' where ps: "ps = p' # ps'" using cons.hyps by (cases ps) auto
  show ?case
  proof (rule exI [of _ "Suc (N + M)"], intro allI impI)
    fix n d acc t assume "Suc (N + M) \<le> n" and d: "d + h \<le> max_depth"
    then obtain k where k: "n = Suc k" "N \<le> k" "M \<le> k" by (cases n) auto
    have j: "Join (map fst (p # ps)) '','' = fst p @ CHR '','' # Join (map fst ps) '',''" by (simp add: ps)
    have "parse_value k d (fst p @ CHR '','' # Join (map fst ps) '','' @ CHR '']'' # t) =
        Some (snd p, CHR '','' # Join (map fst ps) '','' @ CHR '']'' # t)"
      using N k(2) d by simp
    with M k(3) d show "parse_elems n d acc (Join (map fst (p # ps)) '','' @ CHR '']'' # t) = Some (JArr (acc @ map snd (p # ps)), t)"
      unfolding j k(1) by (simp add: elems_step_def skip_space_Cons)
  qed
qed

text \<open>The text of a key up to its colon.\<close>

definition key_reads :: "string \<Rightarrow> string \<Rightarrow> bool" where
  "key_reads t k \<longleftrightarrow> (\<forall>r. member_key (t @ r) = Some (k, r))"

definition member_texts :: "(string \<times> string \<times> string \<times> json) list \<Rightarrow> string" where
  "member_texts ps = Join (map (\<lambda>(t, k, s, w). t @ s) ps) '',''"

definition member_values :: "(string \<times> string \<times> string \<times> json) list \<Rightarrow> (string \<times> json) list" where
  "member_values ps = map (\<lambda>(t, k, s, w). (k, w)) ps"

lemma parse_members_reads:
  assumes "ps \<noteq> []" and "\<forall>(t, k, s, w) \<in> set ps. key_reads t k \<and> reads s w h"
  shows "\<exists>N. \<forall>n\<ge>N. \<forall>d acc r. d + h \<le> max_depth \<longrightarrow>
    parse_members n d acc (member_texts ps @ CHR ''}'' # r) = Some (JObj (acc @ member_values ps), r)"
  using assms
proof (induction ps rule: list_nonempty_induct)
  case (single p)
  obtain t k s w where p: "p = (t, k, s, w)" by (cases p)
  with single obtain N where N: "\<forall>n\<ge>N. \<forall>d t. d + h \<le> max_depth \<longrightarrow> stops t \<longrightarrow> parse_value n d (s @ t) = Some (w, t)"
    and k: "key_reads t k"
    by (auto simp: reads_def)
  show ?case
  proof (rule exI [of _ "Suc N"], intro allI impI)
    fix n d acc r assume "Suc N \<le> n" and d: "d + h \<le> max_depth"
    then obtain j where "n = Suc j" "N \<le> j" by (cases n) auto
    with N d k show "parse_members n d acc (member_texts [p] @ CHR ''}'' # r) = Some (JObj (acc @ member_values [p]), r)"
      by (simp add: p members_step_def member_texts_def member_values_def key_reads_def skip_space_Cons)
  qed
next
  case (cons p ps)
  obtain t k s w where p: "p = (t, k, s, w)" by (cases p)
  with cons obtain N where N: "\<forall>n\<ge>N. \<forall>d t. d + h \<le> max_depth \<longrightarrow> stops t \<longrightarrow> parse_value n d (s @ t) = Some (w, t)"
    and k: "key_reads t k"
    by (auto simp: reads_def)
  from cons obtain M where M: "\<forall>n\<ge>M. \<forall>d acc r. d + h \<le> max_depth \<longrightarrow>
    parse_members n d acc (member_texts ps @ CHR ''}'' # r) = Some (JObj (acc @ member_values ps), r)" by auto
  obtain p' ps' where ps: "ps = p' # ps'" using cons.hyps by (cases ps) auto
  show ?case
  proof (rule exI [of _ "Suc (N + M)"], intro allI impI)
    fix n d acc r assume "Suc (N + M) \<le> n" and d: "d + h \<le> max_depth"
    then obtain j where j: "n = Suc j" "N \<le> j" "M \<le> j" by (cases n) auto
    have e: "member_texts (p # ps) = t @ s @ CHR '','' # member_texts ps"
      by (simp add: ps p member_texts_def)
    have v: "member_values (p # ps) = (k, w) # member_values ps" by (simp add: p member_values_def)
    have "parse_value j d (s @ CHR '','' # member_texts ps @ CHR ''}'' # r) = Some (w, CHR '','' # member_texts ps @ CHR ''}'' # r)"
      using N j(2) d by simp
    with M j(3) d k show "parse_members n d acc (member_texts (p # ps) @ CHR ''}'' # r) = Some (JObj (acc @ member_values (p # ps)), r)"
      unfolding e v j(1) by (simp add: members_step_def key_reads_def skip_space_Cons)
  qed
qed

lemma value_step_bracket: "skip_space s = CHR '']'' # r \<Longrightarrow> value_step es ms d s = None"
  by (simp add: value_step_def json_chars parse_number_def parse_int_part_def digit_def)

lemma reads_first:
  assumes "reads s w h" "h \<le> max_depth" "stops t"
  obtains c r where "skip_space (s @ t) = c # r" "c \<noteq> CHR '']''"
proof -
  obtain N where "\<forall>n\<ge>N. \<forall>d t. d + h \<le> max_depth \<longrightarrow> stops t \<longrightarrow> parse_value n d (s @ t) = Some (w, t)"
    using assms(1) by (auto simp: reads_def)
  then have "parse_value (Suc N) 0 (s @ t) = Some (w, t)" using assms(2,3) by (simp del: parse_value.simps)
  then have "value_step (parse_elems N (Suc 0) []) (parse_members N (Suc 0) []) 0 (s @ t) \<noteq> None" by simp
  moreover from this have "skip_space (s @ t) \<noteq> []" by (auto simp: value_step_def)
  ultimately show ?thesis using that value_step_bracket by (metis list.exhaust)
qed

lemma reads_slice:
  assumes "\<forall>(s, w) \<in> set ps. reads s w h"
  shows "reads (CHR ''['' # Join (map fst ps) '','' @ '']'') (JArr (map snd ps)) (Suc h)"
proof (cases ps)
  case Nil
  then show ?thesis
    by (intro readsI) (simp add: value_step_def skip_space_Cons json_space_def json_chars)
next
  case (Cons p ps')
  with assms obtain N where N: "\<forall>n\<ge>N. \<forall>d acc t. d + h \<le> max_depth \<longrightarrow>
      parse_elems n d acc (Join (map fst ps) '','' @ CHR '']'' # t) = Some (JArr (acc @ map snd ps), t)"
    using parse_elems_reads [of ps h] by blast
  have "parse_value (Suc n) d (CHR ''['' # Join (map fst ps) '','' @ CHR '']'' # t) = Some (JArr (map snd ps), t)"
    if n: "N \<le> n" and d: "Suc (d + h) \<le> max_depth" for n d t
  proof -
    obtain r where r: "Join (map fst ps) '','' @ CHR '']'' # t = fst p @ r" "stops r"
      using Cons by (cases ps') (auto intro: that)
    obtain c r' where "skip_space (fst p @ r) = c # r'" "c \<noteq> CHR '']''"
      by (rule reads_first [of "fst p" "snd p" h r]) (use assms Cons d r in auto)
    moreover have "parse_elems n (Suc d) [] (fst p @ r) = Some (JArr (map snd ps), t)"
      using N n d unfolding r(1) [symmetric] by simp
    ultimately show ?thesis using d by (simp add: r value_step_def skip_space_Cons json_space_def json_chars)
  qed
  then show ?thesis by (intro readsI_fuel [of N]) (simp del: parse_value.simps)
qed

lemma key_reads_first:
  assumes "key_reads t k"
  obtains r' where "skip_space (t @ r) = dquote # r'"
proof -
  have "member_key (t @ r) \<noteq> None" using assms by (simp add: key_reads_def)
  then show ?thesis using that by (auto simp: member_key_def split: list.splits if_splits)
qed

lemma reads_map:
  assumes "\<forall>(t, k, s, w) \<in> set ps. key_reads t k \<and> reads s w h"
  shows "reads (CHR ''{'' # member_texts ps @ ''}'') (JObj (member_values ps)) (Suc h)"
proof (cases ps)
  case Nil
  then show ?thesis
    by (intro readsI) (simp add: value_step_def skip_space_Cons json_space_def json_chars member_texts_def member_values_def)
next
  case (Cons p ps')
  obtain t k s w where p: "p = (t, k, s, w)" by (cases p)
  from Cons assms obtain N where N: "\<forall>n\<ge>N. \<forall>d acc r. d + h \<le> max_depth \<longrightarrow>
      parse_members n d acc (member_texts ps @ CHR ''}'' # r) = Some (JObj (acc @ member_values ps), r)"
    using parse_members_reads [of ps h] by blast
  have "parse_value (Suc n) d (CHR ''{'' # member_texts ps @ CHR ''}'' # r) = Some (JObj (member_values ps), r)"
    if n: "N \<le> n" and d: "Suc (d + h) \<le> max_depth" for n d r
  proof -
    obtain r1 where r1: "member_texts ps @ CHR ''}'' # r = t @ r1"
      using Cons p by (cases ps') (auto simp: member_texts_def)
    have "key_reads t k" using assms Cons p by simp
    then obtain r2 where "skip_space (t @ r1) = dquote # r2" by (rule key_reads_first)
    moreover have "parse_members n (Suc d) [] (t @ r1) = Some (JObj (member_values ps), r)"
      using N n d unfolding r1 [symmetric] by simp
    ultimately show ?thesis unfolding r1 using d by (simp add: value_step_def skip_space_Cons json_space_def json_chars)
  qed
  then show ?thesis by (intro readsI_fuel [of N]) (simp del: parse_value.simps)
qed

lemma key_reads_quote: "key_reads (quote_json k @ '':'') (to_utf8 k)"
  by (simp add: key_reads_def parse_quoted_key)

lemma foldr_max_ge: "n \<in> set ns \<Longrightarrow> n \<le> foldr max ns (0::nat)"
  by (induction ns) auto

lemma int_text_reads: "reads (int_text i) (JNum (int_text i)) h"
proof (rule reads_number)
  show "parse_number (int_text i @ t) = Some (JNum (int_text i), t)" if "stops t" for t
    using parse_unsigned_number [OF unsigned_number_nat_text that] by (simp add: int_text_def)
qed (simp_all add: int_text_def nat_text_nonempty hd_nat_text)

lemma float_text_reads:
  assumes "is_f64 x"
  shows "reads (float_text x) (JNum (float_text x)) h"
proof (rule reads_number)
  have "unsigned_number u \<Longrightarrow> u \<noteq> [] \<and> digit (hd u)" for u
    by (auto simp: unsigned_number_def decimal_def neq_Nil_conv)
  then have "float_text x \<noteq> [] \<and> (digit (hd (float_text x)) \<or> hd (float_text x) = CHR ''-'')"
    using unsigned_number_float_text_pos [of x] assms by (simp add: float_text_def)
  then show "float_text x \<noteq> []" "digit (hd (float_text x)) \<or> hd (float_text x) = CHR ''-''" by simp_all
qed (use assms in \<open>rule parse_float_text\<close>)

lemma write_reads: "floats_ok g \<Longrightarrow> reads (write_value g) (json_in_order g) (depth g)"
proof (induction g)
  case (GSlice vs)
  let ?ps = "map (\<lambda>v. (write_value v, json_in_order v)) vs" and ?h = "foldr max (map depth vs) 0"
  have "reads (write_value v) (json_in_order v) ?h" if "v \<in> set vs" for v
    using GSlice that by (intro reads_weaken [OF GSlice.IH] foldr_max_ge) (auto simp: list_all_iff)
  then have "reads (CHR ''['' # Join (map fst ?ps) '','' @ '']'') (JArr (map snd ?ps)) (Suc ?h)"
    by (intro reads_slice) auto
  then show ?case by (simp add: comp_def)
next
  case (GMap m)
  let ?ps = "map (\<lambda>(k, v). (quote_json k @ '':'', to_utf8 k, write_value v, json_in_order v)) m"
  let ?h = "foldr max (map (\<lambda>(k, v). depth v) m) 0"
  have "reads (write_value v) (json_in_order v) ?h" if "(k, v) \<in> set m" for k v
    using GMap that by (intro reads_weaken [OF GMap.IH [of "(k, v)" v]] foldr_max_ge) (force simp: list_all_iff)+
  then have "reads (CHR ''{'' # member_texts ?ps @ ''}'') (JObj (member_values ?ps)) (Suc ?h)"
    by (intro reads_map) (auto intro: key_reads_quote)
  then show ?case by (simp add: comp_def case_prod_beta' member_texts_def member_values_def)
qed (simp_all add: reads_literal reads_string int_text_reads float_text_reads)

lemma reads_parse:
  assumes "reads s w h" and "h \<le> max_depth"
  shows "parse_value (2 * length s + 1) 0 s = Some (w, [])"
proof -
  obtain N where N: "\<forall>n\<ge>N. \<forall>d t. d + h \<le> max_depth \<longrightarrow> stops t \<longrightarrow> parse_value n d (s @ t) = Some (w, t)"
    using assms(1) by (auto simp: reads_def)
  have "parse_value (N + 2 * length s + 1) 0 (s @ []) = Some (w, [])"
    using N [rule_format, of "N + 2 * length s + 1" 0 "[]"] assms(2) by (simp del: parse_value.simps)
  then show ?thesis using parse_fuel [of s "N + 2 * length s + 1" 0] by (simp del: parse_value.simps)
qed

lemma reads_Decode: "reads s w h \<Longrightarrow> h \<le> max_depth \<Longrightarrow> Decode s = Some w"
  using reads_parse [of s w h] by (simp add: Decode_def)

lemma reads_Unmarshal: "reads s w h \<Longrightarrow> h \<le> max_depth \<Longrightarrow> Unmarshal_text s = Some w"
  using reads_parse [of s w h] by (simp add: Unmarshal_text_def skip_space_def)

lemma foldr_max_le: "foldr max ns (0::nat) \<le> h \<longleftrightarrow> (\<forall>n \<in> set ns. n \<le> h)"
  by (induction ns) auto

lemma depth_sort_maps: "depth (sort_maps g) \<le> depth g"
proof (induction g)
  case (GSlice vs)
  then show ?case by (auto simp: foldr_max_le intro!: le_trans [OF GSlice.IH foldr_max_ge])
next
  case (GMap m)
  have "depth (sort_maps v) \<le> foldr max (map (\<lambda>(k, v). depth v) m) 0" if "(k, v) \<in> set m" for k v
    using that by (intro le_trans [OF GMap.IH [of "(k, v)" v] foldr_max_ge]) force+
  then show ?case by (auto simp: foldr_max_le)
qed simp_all

lemma floats_ok_sort_maps: "floats_ok g \<Longrightarrow> floats_ok (sort_maps g)"
proof (induction g)
  case (GMap m)
  then show ?case by (fastforce simp: list_all_iff)
qed (auto simp: list_all_iff)

text \<open>Below the nesting limit of the reader, what \<open>json.Marshal\<close> writes is decoded to the value it stands for.\<close>

lemma Decode_encode_value:
  assumes "floats_ok g" and "depth g \<le> max_depth"
  shows "Decode (encode_value g) = Some (json_of g)"
  unfolding encode_value_def json_of_def
  using write_reads [OF floats_ok_sort_maps [OF assms(1)]] depth_sort_maps [of g] assms(2)
  by (blast intro: reads_Decode le_trans)

end
