(* ===== verification/FaceClient.thy ===== *)
theory FaceClient
  imports JsonEncode GoHttp
begin

text \<open>
  The client of the face recognition service, \<open>src/internal/faceclient/client.go\<close>: the requests it
  sends and how it reads the answers. The service and the network are an argument, a
  \<open>transport\<close>. The lemmas: what a successful
  embedding means, what an enrolment and a search send, and which fields of a comparison arrive.
\<close>

section \<open>Data\<close>

record FaceQuality =
  fq_Score :: float64
  fq_Blur :: float64
  fq_PoseYaw :: float64
  fq_PosePitch :: float64
  fq_PoseRoll :: float64
  fq_FaceSize :: int
  fq_IsFrontal :: bool

record EmbedResult =
  er_Embedding :: "rat list"
  er_Score :: float64
  er_FacesDetected :: int
  er_Quality :: "FaceQuality option"

record EnrollResult =
  en_UserID :: string
  en_Success :: bool
  en_Quality :: "FaceQuality option"
  en_Message :: string

record SearchMatch =
  sm_UserID :: string
  sm_Similarity :: float64
  sm_Name :: string

record SearchResult =
  se_Matches :: "SearchMatch list"
  se_FacesDetected :: int
  se_Quality :: "FaceQuality option"

record CompareResult =
  cr_Similarity :: float64
  cr_Match :: bool
  cr_Threshold :: float64
  cr_Quality1 :: "FaceQuality option"
  cr_Quality2 :: "FaceQuality option"

record VerifyResult =
  vr_UserID :: string
  vr_Verified :: bool
  vr_Similarity :: float64
  vr_Threshold :: float64
  vr_Quality :: "FaceQuality option"

text \<open>\<open>Checks\<close> is a \<open>map[string]interface{}\<close>: any JSON object, nil for null.\<close>

record LivenessResult =
  lr_IsLive :: bool
  lr_Confidence :: float64
  lr_Checks :: "(string \<times> json) list option"

record FaceClient =
  BaseURL :: string
  Skip :: bool

definition NewFaceClient :: "string \<Rightarrow> bool \<Rightarrow> FaceClient" where
  "NewFaceClient baseURL skip = \<lparr>BaseURL = baseURL, Skip = skip\<rparr>"

section \<open>Requests\<close>

text \<open>
  The part that \<open>EmbedWithScore\<close>, \<open>Compare\<close>, \<open>Enroll\<close>, \<open>Search\<close>, \<open>Verify\<close> and \<open>Liveness\<close> have in
  common: post a JSON
  body, fail on an error of the transport and on a status from 300 on, decode the answer into
  \<open>zero\<close>. The text of a decoding error is left out.
\<close>

definition post_json ::
  "transport \<Rightarrow> string \<Rightarrow> string \<Rightarrow> 's field list \<Rightarrow> 's \<Rightarrow> 's result" where
  "post_json tr url body fs zero =
     (case newRequest tr ''POST'' url of
        Some e \<Rightarrow> Inl (Errorf e)
      | None \<Rightarrow>
          (case http_Do tr \<lparr>rq_method = ''POST'', rq_url = url,
                            rq_content_type = ''application/json'', rq_body = body\<rparr> of
             Inl e \<Rightarrow> Inl (Errorf (''face service request failed: '' @ e))
           | Inr resp \<Rightarrow>
               if 300 \<le> StatusCode resp
               then Inl (Errorf (''face service error '' @ rs_Status resp @ '': '' @ rs_Body resp))
               else (case Decode (rs_Body resp) of
                 None \<Rightarrow> Inl (Errorf ''failed to decode response'')
               | Some v \<Rightarrow>
                   (case decode_struct fs v zero of
                      None \<Rightarrow> Inl (Errorf ''failed to decode response'')
                    | Some out \<Rightarrow> Inr out))))"

definition quality_zero :: FaceQuality where
  "quality_zero = \<lparr>fq_Score = 0, fq_Blur = 0, fq_PoseYaw = 0, fq_PosePitch = 0, fq_PoseRoll = 0,
     fq_FaceSize = 0, fq_IsFrontal = False\<rparr>"

definition quality_fields :: "FaceQuality field list" where
  "quality_fields =
     [(''score'', store_float64 (\<lambda>x q. q\<lparr>fq_Score := x\<rparr>)),
      (''blur'', store_float64 (\<lambda>x q. q\<lparr>fq_Blur := x\<rparr>)),
      (''pose_yaw'', store_float64 (\<lambda>x q. q\<lparr>fq_PoseYaw := x\<rparr>)),
      (''pose_pitch'', store_float64 (\<lambda>x q. q\<lparr>fq_PosePitch := x\<rparr>)),
      (''pose_roll'', store_float64 (\<lambda>x q. q\<lparr>fq_PoseRoll := x\<rparr>)),
      (''face_size'', store_int (\<lambda>x q. q\<lparr>fq_FaceSize := x\<rparr>)),
      (''is_frontal'', store_bool (\<lambda>x q. q\<lparr>fq_IsFrontal := x\<rparr>))]"

section \<open>Embeddings\<close>

definition embed_zero :: EmbedResult where
  "embed_zero = \<lparr>er_Embedding = [], er_Score = 0, er_FacesDetected = 0, er_Quality = None\<rparr>"

definition store_float32 :: "json \<Rightarrow> rat \<Rightarrow> rat option" where
  "store_float32 v x =
     (case v of JNull \<Rightarrow> Some x | JNum t \<Rightarrow> float32_text t | _ \<Rightarrow> None)"

definition embed_fields :: "EmbedResult field list" where
  "embed_fields =
     [(''embedding'', store_slice store_float32 0 (\<lambda>x r. r\<lparr>er_Embedding := x\<rparr>)),
      (''score'', store_float64 (\<lambda>x r. r\<lparr>er_Score := x\<rparr>)),
      (''faces_detected'', store_int (\<lambda>x r. r\<lparr>er_FacesDetected := x\<rparr>)),
      (''quality'', store_pointer quality_fields quality_zero er_Quality (\<lambda>x r. r\<lparr>er_Quality := x\<rparr>))]"

text \<open>The constants of the mock, at the precision of their Go types.\<close>

definition f32 :: "rat \<Rightarrow> rat" where
  "f32 x = round_binary 24 (- 149) x"

definition mock_embed :: EmbedResult where
  "mock_embed =
     \<lparr>er_Embedding = [f32 (1 / 10), f32 (2 / 10), f32 (3 / 10)], er_Score = rnd (95 / 100),
      er_FacesDetected = 1,
      er_Quality = Some \<lparr>fq_Score = rnd (85 / 100), fq_Blur = rnd (1 / 10), fq_PoseYaw = 5,
        fq_PosePitch = 3, fq_PoseRoll = 1, fq_FaceSize = 40000, fq_IsFrontal = True\<rparr>\<rparr>"

definition EmbedWithScore :: "FaceClient \<Rightarrow> transport \<Rightarrow> string \<Rightarrow> EmbedResult result" where
  "EmbedWithScore c tr imageURL =
     (if Skip c then Inr mock_embed
      else if imageURL = [] then Inl (Errorf ''image url required'')
      else case post_json tr (BaseURL c @ ''/embed'') (Marshal_map [(''image_url'', imageURL)]) embed_fields embed_zero of
        Inl e \<Rightarrow> Inl e
      | Inr out \<Rightarrow>
          if er_Embedding out = [] then Inl (Errorf ''no face detected in image'') else Inr out)"

definition Embed :: "FaceClient \<Rightarrow> transport \<Rightarrow> string \<Rightarrow> rat list result" where
  "Embed c tr imageURL =
     (case EmbedWithScore c tr imageURL of Inl e \<Rightarrow> Inl e | Inr result \<Rightarrow> Inr (er_Embedding result))"

section \<open>Comparison\<close>

definition compare_zero :: CompareResult where
  "compare_zero = \<lparr>cr_Similarity = 0, cr_Match = False, cr_Threshold = 0, cr_Quality1 = None,
     cr_Quality2 = None\<rparr>"

text \<open>The answer is decoded into the result itself, whose fields have no tags: their names are
  those of the struct.\<close>

definition compare_fields :: "CompareResult field list" where
  "compare_fields =
     [(''Similarity'', store_float64 (\<lambda>x r. r\<lparr>cr_Similarity := x\<rparr>)),
      (''Match'', store_bool (\<lambda>x r. r\<lparr>cr_Match := x\<rparr>)),
      (''Threshold'', store_float64 (\<lambda>x r. r\<lparr>cr_Threshold := x\<rparr>)),
      (''Quality1'', store_pointer quality_fields quality_zero cr_Quality1 (\<lambda>x r. r\<lparr>cr_Quality1 := x\<rparr>)),
      (''Quality2'', store_pointer quality_fields quality_zero cr_Quality2 (\<lambda>x r. r\<lparr>cr_Quality2 := x\<rparr>))]"

definition Compare :: "FaceClient \<Rightarrow> transport \<Rightarrow> string \<Rightarrow> string \<Rightarrow> CompareResult result" where
  "Compare c tr imageURL1 imageURL2 =
     (if Skip c then Inr \<lparr>cr_Similarity = rnd (85 / 100), cr_Match = True, cr_Threshold = 1 / 2,
                          cr_Quality1 = None, cr_Quality2 = None\<rparr>
      else post_json tr (BaseURL c @ ''/compare'')
             (Marshal_map [(''image_url_1'', imageURL1), (''image_url_2'', imageURL2)]) compare_fields compare_zero)"

section \<open>Health, the gallery, verification, liveness\<close>

definition Health :: "FaceClient \<Rightarrow> transport \<Rightarrow> err" where
  "Health c tr =
     (if Skip c then None
      else case newRequest tr ''GET'' (BaseURL c @ ''/health'') of
        Some e \<Rightarrow> Some (Errorf e)
      | None \<Rightarrow>
          (case http_Do tr \<lparr>rq_method = ''GET'', rq_url = BaseURL c @ ''/health'',
                            rq_content_type = [], rq_body = []\<rparr> of
             Inl e \<Rightarrow> Some (Errorf (''face service unavailable: '' @ e))
           | Inr resp \<Rightarrow>
               if 300 \<le> StatusCode resp then Some (Errorf (''face service unhealthy: '' @ rs_Status resp))
               else None))"

text \<open>
  The payloads of \<open>Enroll\<close> and \<open>Search\<close> are \<open>map[string]interface{}\<close>. Their fields cannot fail to be
  written: the strings, the integer and a finite threshold always can, and so can the values of the metadata
  that \<open>gval\<close> has.
\<close>

definition mock_quality :: FaceQuality where
  "mock_quality = quality_zero\<lparr>fq_Score := rnd (85 / 100), fq_IsFrontal := True\<rparr>"

definition enroll_zero :: EnrollResult where
  "enroll_zero = \<lparr>en_UserID = [], en_Success = False, en_Quality = None, en_Message = []\<rparr>"

definition enroll_fields :: "EnrollResult field list" where
  "enroll_fields =
     [(''user_id'', store_string (\<lambda>x r. r\<lparr>en_UserID := x\<rparr>)),
      (''success'', store_bool (\<lambda>x r. r\<lparr>en_Success := x\<rparr>)),
      (''quality'', store_pointer quality_fields quality_zero en_Quality (\<lambda>x r. r\<lparr>en_Quality := x\<rparr>)),
      (''message'', store_string (\<lambda>x r. r\<lparr>en_Message := x\<rparr>))]"

definition enroll_payload :: "string \<Rightarrow> string \<Rightarrow> string \<Rightarrow> (string \<times> gval) list option \<Rightarrow> gval" where
  "enroll_payload userID imageURL name metadata =
     GMap ([(''user_id'', GString userID), (''image_url'', GString imageURL)]
       @ (if name \<noteq> [] then [(''name'', GString name)] else [])
       @ (case metadata of None \<Rightarrow> [] | Some m \<Rightarrow> [(''metadata'', GMap m)]))"

definition Enroll ::
  "FaceClient \<Rightarrow> transport \<Rightarrow> string \<Rightarrow> string \<Rightarrow> string \<Rightarrow> (string \<times> gval) list option \<Rightarrow> EnrollResult result" where
  "Enroll c tr userID imageURL name metadata =
     (if Skip c then Inr \<lparr>en_UserID = userID, en_Success = True, en_Quality = Some mock_quality,
                          en_Message = ''Face enrolled (mock)''\<rparr>
      else post_json tr (BaseURL c @ ''/enroll'')
             (encode_value (enroll_payload userID imageURL name metadata)) enroll_fields enroll_zero)"

definition match_zero :: SearchMatch where
  "match_zero = \<lparr>sm_UserID = [], sm_Similarity = 0, sm_Name = []\<rparr>"

definition match_fields :: "SearchMatch field list" where
  "match_fields =
     [(''user_id'', store_string (\<lambda>x r. r\<lparr>sm_UserID := x\<rparr>)),
      (''similarity'', store_float64 (\<lambda>x r. r\<lparr>sm_Similarity := x\<rparr>)),
      (''name'', store_string (\<lambda>x r. r\<lparr>sm_Name := x\<rparr>))]"

definition search_zero :: SearchResult where
  "search_zero = \<lparr>se_Matches = [], se_FacesDetected = 0, se_Quality = None\<rparr>"

definition search_fields :: "SearchResult field list" where
  "search_fields =
     [(''matches'', store_slice (decode_struct match_fields) match_zero (\<lambda>x r. r\<lparr>se_Matches := x\<rparr>)),
      (''faces_detected'', store_int (\<lambda>x r. r\<lparr>se_FacesDetected := x\<rparr>)),
      (''quality'', store_pointer quality_fields quality_zero se_Quality (\<lambda>x r. r\<lparr>se_Quality := x\<rparr>))]"

definition search_payload :: "string \<Rightarrow> int \<Rightarrow> float64 \<Rightarrow> gval" where
  "search_payload imageURL topK threshold =
     GMap ([(''image_url'', GString imageURL), (''top_k'', GInt topK)]
       @ (if 0 < threshold then [(''threshold'', GFloat threshold)] else []))"

definition Search :: "FaceClient \<Rightarrow> transport \<Rightarrow> string \<Rightarrow> int \<Rightarrow> float64 \<Rightarrow> SearchResult result" where
  "Search c tr imageURL topK threshold =
     (if Skip c then Inr \<lparr>se_Matches = [\<lparr>sm_UserID = ''mock-user'', sm_Similarity = rnd (92 / 100),
                                        sm_Name = ''Mock User''\<rparr>],
                          se_FacesDetected = 1, se_Quality = Some mock_quality\<rparr>
      else post_json tr (BaseURL c @ ''/search'')
             (encode_value (search_payload imageURL topK threshold)) search_fields search_zero)"

definition verify_zero :: VerifyResult where
  "verify_zero = \<lparr>vr_UserID = [], vr_Verified = False, vr_Similarity = 0, vr_Threshold = 0, vr_Quality = None\<rparr>"

definition verify_fields :: "VerifyResult field list" where
  "verify_fields =
     [(''user_id'', store_string (\<lambda>x r. r\<lparr>vr_UserID := x\<rparr>)),
      (''verified'', store_bool (\<lambda>x r. r\<lparr>vr_Verified := x\<rparr>)),
      (''similarity'', store_float64 (\<lambda>x r. r\<lparr>vr_Similarity := x\<rparr>)),
      (''threshold'', store_float64 (\<lambda>x r. r\<lparr>vr_Threshold := x\<rparr>)),
      (''quality'', store_pointer quality_fields quality_zero vr_Quality (\<lambda>x r. r\<lparr>vr_Quality := x\<rparr>))]"

definition Verify :: "FaceClient \<Rightarrow> transport \<Rightarrow> string \<Rightarrow> string \<Rightarrow> VerifyResult result" where
  "Verify c tr userID imageURL =
     (if Skip c then Inr \<lparr>vr_UserID = userID, vr_Verified = True, vr_Similarity = rnd (92 / 100),
                          vr_Threshold = rnd (45 / 100),
                          vr_Quality = Some mock_quality\<rparr>
      else post_json tr (BaseURL c @ ''/verify'')
             (Marshal_map [(''user_id'', userID), (''image_url'', imageURL)]) verify_fields verify_zero)"

definition liveness_zero :: LivenessResult where
  "liveness_zero = \<lparr>lr_IsLive = False, lr_Confidence = 0, lr_Checks = None\<rparr>"

text \<open>A map keeps its entries and takes over those of a later object under the same name.\<close>

definition store_map ::
  "('s \<Rightarrow> (string \<times> json) list option) \<Rightarrow> ((string \<times> json) list option \<Rightarrow> 's \<Rightarrow> 's) \<Rightarrow> json \<Rightarrow> 's \<Rightarrow> 's option" where
  "store_map get put v s =
     (case v of
        JNull \<Rightarrow> Some (put None s)
      | JObj ms \<Rightarrow>
          if any_value v then Some (put (Some ((case get s of None \<Rightarrow> [] | Some m \<Rightarrow> m) @ ms)) s) else None
      | _ \<Rightarrow> None)"

definition liveness_fields :: "LivenessResult field list" where
  "liveness_fields =
     [(''is_live'', store_bool (\<lambda>x r. r\<lparr>lr_IsLive := x\<rparr>)),
      (''confidence'', store_float64 (\<lambda>x r. r\<lparr>lr_Confidence := x\<rparr>)),
      (''checks'', store_map lr_Checks (\<lambda>x r. r\<lparr>lr_Checks := x\<rparr>))]"

definition Liveness :: "FaceClient \<Rightarrow> transport \<Rightarrow> string \<Rightarrow> LivenessResult result" where
  "Liveness c tr imageURL =
     (if Skip c then Inr \<lparr>lr_IsLive = True, lr_Confidence = rnd (85 / 100),
                          lr_Checks = Some [(''mock'', JBool True)]\<rparr>
      else post_json tr (BaseURL c @ ''/liveness'') (Marshal_map [(''image_url'', imageURL)]) liveness_fields liveness_zero)"

section \<open>Properties\<close>

lemma post_json_InrD:
  assumes "post_json tr url body fs zero = Inr out"
  obtains resp v where "newRequest tr ''POST'' url = None"
    and "http_Do tr \<lparr>rq_method = ''POST'', rq_url = url, rq_content_type = ''application/json'',
           rq_body = body\<rparr> = Inr resp"
    and "StatusCode resp < 300" and "Decode (rs_Body resp) = Some v" and "decode_struct fs v zero = Some out"
  using assms by (auto simp: post_json_def split: option.splits sum.splits if_splits)

lemma Decode_Marshal_map:
  "Decode (Marshal_map m) = Some (JObj (map (\<lambda>(k, v). (to_utf8 k, JStr (to_utf8 v))) (sort_key fst m)))"
  using parse_Marshal_map [of m "[]"] by (simp add: Decode_def)

text \<open>
  Outside the mock mode an embedding is returned only if an image address was given and the
  service was sent, by POST to \<open>/embed\<close>, a JSON object whose one member is that address (with
  invalid UTF-8 replaced), and answered below 300 with a non-empty embedding, which is the one
  returned.
\<close>

lemma embed_comes_from_service:
  assumes "EmbedWithScore c tr imageURL = Inr result" and "\<not> Skip c"
  shows "imageURL \<noteq> [] \<and> er_Embedding result \<noteq> [] \<and>
    (\<exists>body resp v. Decode body = Some (JObj [(''image_url'', JStr (to_utf8 imageURL))])
       \<and> http_Do tr \<lparr>rq_method = ''POST'', rq_url = BaseURL c @ ''/embed'',
            rq_content_type = ''application/json'', rq_body = body\<rparr> = Inr resp
       \<and> StatusCode resp < 300 \<and> Decode (rs_Body resp) = Some v
       \<and> decode_struct embed_fields v embed_zero = Some result)"
proof -
  from assms have url: "imageURL \<noteq> []" and emb: "er_Embedding result \<noteq> []"
    and post: "post_json tr (BaseURL c @ ''/embed'') (Marshal_map [(''image_url'', imageURL)]) embed_fields embed_zero = Inr result"
    by (auto simp: EmbedWithScore_def split: if_splits sum.splits)
  have "to_utf8 ''image_url'' = ''image_url''"
    by (rule ascii_to_utf8) (simp add: ascii_def)
  then have body: "Decode (Marshal_map [(''image_url'', imageURL)]) = Some (JObj [(''image_url'', JStr (to_utf8 imageURL))])"
    by (simp add: Decode_Marshal_map)
  from post obtain resp v where "http_Do tr \<lparr>rq_method = ''POST'', rq_url = BaseURL c @ ''/embed'',
      rq_content_type = ''application/json'', rq_body = Marshal_map [(''image_url'', imageURL)]\<rparr> = Inr resp"
    "StatusCode resp < 300" "Decode (rs_Body resp) = Some v" "decode_struct embed_fields v embed_zero = Some result"
    by (rule post_json_InrD)
  with body show ?thesis by (intro conjI url emb exI)
qed

definition one_face :: transport where
  "one_face = \<lparr>newRequest = (\<lambda>_ _. None),
     http_Do = (\<lambda>_. Inr \<lparr>StatusCode = 200, rs_Status = ''200 OK'',
       rs_Body = CHR ''{'' # quote_json ''embedding'' @ '':[0],'' @ quote_json ''score'' @ '':0}''\<rparr>)\<rparr>"

lemma one_face_body:
  "Decode (CHR ''{'' # quote_json ''embedding'' @ '':[0],'' @ quote_json ''score'' @ '':0}'') =
     Some (JObj [(''embedding'', JArr [JNum ''0'']), (''score'', JNum ''0'')])"
  by (subst Decode_fuel [where n = 100]) (simp_all add: json_eval)

lemma one_face_embed:
  "EmbedWithScore (NewFaceClient ''face'' False) one_face ''img'' = Inr (embed_zero\<lparr>er_Embedding := [0]\<rparr>)"
  by (simp add: EmbedWithScore_def NewFaceClient_def post_json_def one_face_def one_face_body [simplified]
    decode_struct_def embed_fields_def embed_zero_def find_field_def store_slice_def store_float32_def
    store_float64_def zero_text)

lemma embed_comes_from_service_example:
  "\<exists>body. Decode body = Some (JObj [(''image_url'', JStr (to_utf8 ''img''))])"
  using embed_comes_from_service [OF one_face_embed] by (auto simp: NewFaceClient_def)

text \<open>
  C26. The quality records of a comparison never arrive. The service answers with the members
  similarity, match, threshold, quality_1 and quality_2; the result has no tags, so the first three
  are found up to case and the last two are not, whatever they hold.
\<close>

theorem compare_drops_quality:
  assumes "\<not> Skip c" and "newRequest tr ''POST'' (BaseURL c @ ''/compare'') = None"
    and "http_Do tr \<lparr>rq_method = ''POST'', rq_url = BaseURL c @ ''/compare'',
      rq_content_type = ''application/json'',
      rq_body = Marshal_map [(''image_url_1'', u1), (''image_url_2'', u2)]\<rparr> = Inr resp"
    and "StatusCode resp < 300"
    and "Decode (rs_Body resp) = Some (JObj [(''similarity'', JNum s), (''match'', JBool b),
      (''threshold'', JNum t), (''quality_1'', qa), (''quality_2'', qb)])"
    and "float64_text s = Some x" and "float64_text t = Some y"
  shows "Compare c tr u1 u2 = Inr \<lparr>cr_Similarity = x, cr_Match = b, cr_Threshold = y,
    cr_Quality1 = None, cr_Quality2 = None\<rparr>"
  using assms
  by (simp add: Compare_def post_json_def decode_struct_def compare_fields_def find_field_def same_fold_def
      fold_rune_def store_float64_def store_bool_def compare_zero_def)

definition compare_text :: string where
  "compare_text = CHR ''{'' # quote_json ''similarity'' @ '':0,'' @ quote_json ''match'' @ '':true,''
     @ quote_json ''threshold'' @ '':0,'' @ quote_json ''quality_1'' @ '':{},'' @ quote_json ''quality_2'' @ '':{}}''"

definition two_faces :: transport where
  "two_faces = \<lparr>newRequest = (\<lambda>_ _. None),
     http_Do = (\<lambda>_. Inr \<lparr>StatusCode = 200, rs_Status = ''200 OK'', rs_Body = compare_text\<rparr>)\<rparr>"

lemma compare_text_value:
  "Decode compare_text = Some (JObj [(''similarity'', JNum ''0''), (''match'', JBool True),
     (''threshold'', JNum ''0''), (''quality_1'', JObj []), (''quality_2'', JObj [])])"
  unfolding compare_text_def by (subst Decode_fuel [where n = 200]) (simp_all add: json_eval)

theorem compare_drops_quality_witness:
  "Compare (NewFaceClient ''face'' False) two_faces ''a'' ''b'' =
     Inr \<lparr>cr_Similarity = 0, cr_Match = True, cr_Threshold = 0, cr_Quality1 = None, cr_Quality2 = None\<rparr>"
  by (rule compare_drops_quality [where qa = "JObj []" and qb = "JObj []" and s = "''0''" and t = "''0''"
      and resp = "\<lparr>StatusCode = 200, rs_Status = ''200 OK'', rs_Body = compare_text\<rparr>"])
    (simp_all add: NewFaceClient_def two_faces_def compare_text_value zero_text)

text \<open>What a search sends: the members in the order of their names.\<close>

lemma search_key_order: "''image_url'' \<le> ''threshold''" "''image_url'' \<le> ''top_k''" "\<not> ''top_k'' \<le> ''threshold''"
  by code_simp+

lemma Decode_search_payload:
  assumes "is_f64 threshold"
  shows "Decode (encode_value (search_payload imageURL topK threshold)) =
    Some (JObj ((''image_url'', JStr (to_utf8 imageURL))
      # (if 0 < threshold then [(''threshold'', JNum (float_text threshold))] else [])
      @ [(''top_k'', JNum (int_text topK))]))"
proof -
  have "to_utf8 ''image_url'' = ''image_url''" "to_utf8 ''threshold'' = ''threshold''" "to_utf8 ''top_k'' = ''top_k''"
    by (rule ascii_to_utf8, simp add: ascii_def)+
  moreover have "floats_ok (search_payload imageURL topK threshold)"
    "depth (search_payload imageURL topK threshold) \<le> max_depth"
    using assms by (simp_all add: search_payload_def max_depth_def)
  ultimately show ?thesis
    by (simp add: Decode_encode_value) (simp add: search_payload_def json_of_def search_key_order)
qed

text \<open>
  C27. Outside the mock mode a search returns only what the service answered below 300 to a POST to
  \<open>/search\<close> that carried the image address (with invalid UTF-8 replaced), the number of matches wanted
  as its decimal text, and the threshold exactly if it is positive, in a text that reads back as the very
  same \<open>float64\<close>.
\<close>

theorem search_sends_request:
  assumes "Search c tr imageURL topK threshold = Inr result" and "\<not> Skip c"
    and "is_f64 threshold" and "in_i64 topK"
  shows "\<exists>body k x resp v.
    Decode body = Some (JObj ((''image_url'', JStr (to_utf8 imageURL))
      # (if 0 < threshold then [(''threshold'', JNum x)] else []) @ [(''top_k'', JNum k)]))
    \<and> Atoi k = (topK, True) \<and> float64_text x = Some threshold
    \<and> http_Do tr \<lparr>rq_method = ''POST'', rq_url = BaseURL c @ ''/search'',
         rq_content_type = ''application/json'', rq_body = body\<rparr> = Inr resp
    \<and> StatusCode resp < 300 \<and> Decode (rs_Body resp) = Some v
    \<and> decode_struct search_fields v search_zero = Some result"
proof -
  from assms(1,2) have "post_json tr (BaseURL c @ ''/search'')
      (encode_value (search_payload imageURL topK threshold)) search_fields search_zero = Inr result"
    by (simp add: Search_def)
  then obtain resp v where "http_Do tr \<lparr>rq_method = ''POST'', rq_url = BaseURL c @ ''/search'',
      rq_content_type = ''application/json'', rq_body = encode_value (search_payload imageURL topK threshold)\<rparr> = Inr resp"
    "StatusCode resp < 300" "Decode (rs_Body resp) = Some v" "decode_struct search_fields v search_zero = Some result"
    by (rule post_json_InrD)
  with Decode_search_payload [OF assms(3)] Atoi_int_text [OF assms(4)] float64_text_float_text [OF assms(3)]
  show ?thesis by (intro exI conjI)
qed

text \<open>An enrolment likewise, with the metadata inside the payload.\<close>

lemma enroll_sends_request:
  assumes "Enroll c tr userID imageURL name metadata = Inr result" and "\<not> Skip c"
    and "floats_ok (enroll_payload userID imageURL name metadata)"
    and "depth (enroll_payload userID imageURL name metadata) \<le> max_depth"
  shows "\<exists>body resp v. Decode body = Some (json_of (enroll_payload userID imageURL name metadata))
    \<and> http_Do tr \<lparr>rq_method = ''POST'', rq_url = BaseURL c @ ''/enroll'',
         rq_content_type = ''application/json'', rq_body = body\<rparr> = Inr resp
    \<and> StatusCode resp < 300 \<and> Decode (rs_Body resp) = Some v
    \<and> decode_struct enroll_fields v enroll_zero = Some result"
proof -
  from assms(1,2) have "post_json tr (BaseURL c @ ''/enroll'')
      (encode_value (enroll_payload userID imageURL name metadata)) enroll_fields enroll_zero = Inr result"
    by (simp add: Enroll_def)
  then show ?thesis
    by (rule post_json_InrD) (use Decode_encode_value [OF assms(3,4)] in blast)
qed

definition no_matches :: transport where
  "no_matches = \<lparr>newRequest = (\<lambda>_ _. None),
     http_Do = (\<lambda>_. Inr \<lparr>StatusCode = 200, rs_Status = ''200 OK'',
       rs_Body = CHR ''{'' # quote_json ''matches'' @ '':[]}''\<rparr>)\<rparr>"

lemma no_matches_body: "Decode (CHR ''{'' # quote_json ''matches'' @ '':[]}'') = Some (JObj [(''matches'', JArr [])])"
  by (subst Decode_fuel [where n = 60]) (simp_all add: json_eval)

lemma no_matches_search: "Search (NewFaceClient ''face'' False) no_matches ''img'' 5 (1 / 2) = Inr search_zero"
  by (simp add: Search_def NewFaceClient_def post_json_def no_matches_def no_matches_body [simplified]
    decode_struct_def search_fields_def search_zero_def find_field_def store_slice_def)

lemma half_is_f64: "is_f64 (1 / 2)"
  by code_simp

theorem search_sends_request_witness:
  "\<exists>body k x. Decode body = Some (JObj [(''image_url'', JStr (to_utf8 ''img'')), (''threshold'', JNum x), (''top_k'', JNum k)])
     \<and> Atoi k = (5, True) \<and> float64_text x = Some (1 / 2)"
  using search_sends_request [OF no_matches_search _ half_is_f64]
  by (auto simp: NewFaceClient_def in_i64_def min_i64_def max_i64_def)

end
