(* ===== verification/Store.thy ===== *)
theory Store
  imports GoLib
begin

text \<open>
  The connections of \<open>src/internal/store/\<close>: \<open>db.go\<close> and \<open>redis.go\<close>. What the driver answers to
  opening, pinging and closing a connection is an argument.
\<close>

section \<open>Postgres\<close>

record sql_DB =
  dsn :: string
  MaxOpenConns :: int
  MaxIdleConns :: int
  ConnMaxLifetime :: duration

record DB =
  db_Client :: "sql_DB option"

text \<open>With a connection that does not answer the ping, both results are there.\<close>

definition NewDB :: "(string \<Rightarrow> err) \<Rightarrow> (sql_DB \<Rightarrow> err) \<Rightarrow> string \<Rightarrow> DB option \<times> err" where
  "NewDB sqlOpen ping connString =
     (case sqlOpen connString of
        Some e \<Rightarrow> (None, Some e)
      | None \<Rightarrow>
          (let db = \<lparr>dsn = connString, MaxOpenConns = 10, MaxIdleConns = 5, ConnMaxLifetime = Hour\<rparr>
           in (Some \<lparr>db_Client = Some db\<rparr>, ping db)))"

definition Close :: "(sql_DB \<Rightarrow> err) \<Rightarrow> DB option \<Rightarrow> err" where
  "Close close d =
     (case d of
        None \<Rightarrow> None
      | Some db \<Rightarrow> (case db_Client db of None \<Rightarrow> None | Some client \<Rightarrow> close client))"

section \<open>Redis\<close>

record redis_Client =
  Addr :: string
  DialTimeout :: duration
  ReadTimeout :: duration
  WriteTimeout :: duration

record Redis =
  rd_Client :: "redis_Client option"

definition NewRedis :: "string \<Rightarrow> Redis" where
  "NewRedis addr =
     \<lparr>rd_Client = Some \<lparr>Addr = addr, DialTimeout = 2 * Second, ReadTimeout = Second, WriteTimeout = Second\<rparr>\<rparr>"

definition Healthy :: "(redis_Client \<Rightarrow> err) \<Rightarrow> Redis option \<Rightarrow> bool" where
  "Healthy ping r =
     (case r of
        None \<Rightarrow> False
      | Some redis \<Rightarrow> (case rd_Client redis of None \<Rightarrow> False | Some client \<Rightarrow> ping client = None))"

lemma NewDB_nil_iff: "fst (NewDB sqlOpen ping conn) = None \<longleftrightarrow> sqlOpen conn \<noteq> None"
  by (simp add: NewDB_def Let_def split: option.split)

lemma Healthy_NewRedis:
  "Healthy ping (Some (NewRedis addr)) \<longleftrightarrow> ping (the (rd_Client (NewRedis addr))) = None"
  by (simp add: Healthy_def NewRedis_def)

end
