(* ===== verification/Worker.thy ===== *)
theory Worker
  imports MsgQueue AttendanceService FaceClient Config Store
begin

text \<open>
  The worker process, \<open>src/cmd/worker/main.go\<close>: it takes messages from the queue, fetches the
  event each one names, asks the face service about its image and stores the outcome. One message
  is \<open>process_message\<close>, the loop over the channel is \<open>worker_loop\<close>, and \<open>worker_start\<close> is what
  happens before it. What the server and the service do during one message is an argument. The
  lemmas: a message marks at most one event, as the abstract store of events prescribes; the last
  message of an event decides its status; nothing else of any event changes.
\<close>

section \<open>Model\<close>

record work_env =
  w_get :: pg
  w_face :: transport
  w_update :: pg

definition process_message :: "FaceClient \<Rightarrow> work_env \<Rightarrow> message \<Rightarrow> db \<Rightarrow> db" where
  "process_message face e msg d =
     (if Type msg \<noteq> ''checkin'' then d
      else case GetEvent (w_get e) d (Body msg) of
        Inl _ \<Rightarrow> d
      | Inr evt \<Rightarrow>
          (case EmbedWithScore face (w_face e) (ImageURL evt) of
             Inl _ \<Rightarrow> snd (UpdateEventStatus (w_update e) d (Body msg) ''failed'' None)
           | Inr result \<Rightarrow>
               snd (UpdateEventStatus (w_update e) d (Body msg) ''processed'' (Some (er_Score result)))))"

text \<open>\<open>for msg := range messages\<close>, with what happens around each message.\<close>

fun worker_loop :: "FaceClient \<Rightarrow> (work_env \<times> message) list \<Rightarrow> db \<Rightarrow> db" where
  "worker_loop face [] d = d"
| "worker_loop face ((e, msg) # msgs) d = worker_loop face msgs (process_message face e msg d)"

text \<open>
  Up to the loop: a database that cannot be reached is fatal, the health of the face service is
  only logged.
\<close>

datatype queue_backend = MemoryQueue "InMemory option" | RedisBacked RedisQueue

datatype worker_start = Fatal error | Started FaceClient queue_backend "err option"

definition select_queue :: "App \<Rightarrow> queue_backend" where
  "select_queue cfg =
     (if QueueBackend cfg = ''memory'' then MemoryQueue (NewInMemory 64)
      else RedisBacked (NewRedisQueue ''attendance:checkins''))"

definition start_worker ::
  "App \<Rightarrow> (string \<Rightarrow> err) \<Rightarrow> (sql_DB \<Rightarrow> err) \<Rightarrow> transport \<Rightarrow> worker_start" where
  "start_worker cfg sqlOpen ping tr =
     (case snd (NewDB sqlOpen ping (DatabaseURL cfg)) of
        Some e \<Rightarrow> Fatal e
      | None \<Rightarrow>
          (let q = select_queue cfg;
               face = NewFaceClient (FaceServiceURL cfg) (FaceSkip cfg)
           in Started face q (if FaceSkip cfg then None else Some (Health face tr))))"

section \<open>One message\<close>

text \<open>What the service's answer means for an event, and what a message does to a map of events.\<close>

definition verdict :: "FaceClient \<Rightarrow> transport \<Rightarrow> Event \<Rightarrow> string \<times> float64 option" where
  "verdict face tr evt =
     (case EmbedWithScore face tr (ImageURL evt) of
        Inl _ \<Rightarrow> (''failed'', None)
      | Inr result \<Rightarrow> (''processed'', Some (er_Score result)))"

definition names_event :: "(string \<Rightarrow> string option) \<Rightarrow> message \<Rightarrow> string \<Rightarrow> bool" where
  "names_event uuid msg u \<longleftrightarrow> Type msg = ''checkin'' \<and> uuid (Body msg) = Some u"

definition spec_process ::
  "(string \<Rightarrow> string option) \<Rightarrow> FaceClient \<Rightarrow> transport \<Rightarrow> message \<Rightarrow> (string \<Rightarrow> Event option) \<Rightarrow> string \<Rightarrow> Event option"
where
  "spec_process uuid face tr msg m u =
     (if names_event uuid msg u
      then map_option (\<lambda>evt. with_status (fst (verdict face tr evt)) (snd (verdict face tr evt)) evt) (m u)
      else m u)"

definition healthy :: "(string \<Rightarrow> string option) \<Rightarrow> work_env \<Rightarrow> bool" where
  "healthy uuid e \<longleftrightarrow> pg_fault (w_get e) = None \<and> pg_fault (w_update e) = None
     \<and> pg_uuid_in (w_get e) = uuid \<and> pg_uuid_in (w_update e) = uuid"

text \<open>In any case a message changes nothing or marks the one event it names.\<close>

lemma UpdateEventStatus_snd:
  "snd (UpdateEventStatus p d eid st sc) = d \<or> (\<exists>u. snd (UpdateEventStatus p d eid st sc) = mark_event d u st sc)"
  using exec_stmt_tables [of p Some d]
  by (cases "pg_uuid_in p eid") (auto simp: UpdateEventStatus_def exec_stmt_def split: option.splits fault.splits)

lemma process_message_cases:
  obtains (same) "process_message face e msg d = d"
  | (marked) u st sc where "process_message face e msg d = mark_event d u st sc"
proof -
  have "process_message face e msg d = d \<or> (\<exists>u st sc. process_message face e msg d = mark_event d u st sc)"
    using UpdateEventStatus_snd [of "w_update e" d "Body msg"]
    by (auto simp: process_message_def split: sum.split) blast+
  with that show ?thesis by blast
qed

lemma process_healthy:
  assumes "wf_db d" and "healthy uuid e"
  shows "process_message face e msg d =
    (if Type msg \<noteq> ''checkin'' then d
     else case uuid (Body msg) of
       None \<Rightarrow> d
     | Some u \<Rightarrow>
         (case events d u of
            None \<Rightarrow> d
          | Some evt \<Rightarrow> mark_event d u (fst (verdict face (w_face e) evt)) (snd (verdict face (w_face e) evt))))"
proof (cases "uuid (Body msg)")
  case None
  with assms show ?thesis by (simp add: process_message_def GetEvent_def healthy_def)
next
  case (Some u)
  with assms have "GetEvent (w_get e) d (Body msg) = (case events d u of None \<Rightarrow> Inl ErrNoRows | Some evt \<Rightarrow> Inr evt)"
    by (intro GetEvent_eq) (simp_all add: healthy_def)
  moreover have "snd (UpdateEventStatus (w_update e) d (Body msg) st sc) = mark_event d u st sc" for st sc
    using assms(2) Some by (simp add: UpdateEventStatus_def healthy_def)
  ultimately show ?thesis
    using Some by (simp add: process_message_def verdict_def split: option.split sum.split)
qed

lemma wf_process_message: "wf_db d \<Longrightarrow> wf_db (process_message face e msg d)"
  by (cases rule: process_message_cases [of face e msg d]) (simp_all add: wf_mark_event)

lemma spec_process_refines:
  assumes "wf_db d" and "healthy uuid e"
  shows "events (process_message face e msg d) = spec_process uuid face (w_face e) msg (events d)"
  unfolding process_healthy [OF assms]
  by (rule ext) (auto simp: spec_process_def names_event_def events_mark_event split: option.split)

section \<open>The loop\<close>

lemma worker_loop_foldl: "worker_loop face ws d = foldl (\<lambda>d (e, msg). process_message face e msg d) d ws"
  by (induction ws arbitrary: d) auto

lemma worker_loop_append: "worker_loop face (ws @ vs) d = worker_loop face vs (worker_loop face ws d)"
  by (simp add: worker_loop_foldl)

text \<open>Whatever the server does, the loop is a sequence of marks.\<close>

lemma worker_loop_marks:
  "\<exists>ms. worker_loop face ws d = foldl (\<lambda>d (u, st, sc). mark_event d u st sc) d ms"
proof (induction ws arbitrary: d)
  case Nil
  then show ?case by (auto intro: exI [of _ "[]"])
next
  case (Cons w ws)
  obtain e msg where w: "w = (e, msg)" by fastforce
  from Cons.IH obtain ms where ms: "worker_loop face ws (process_message face e msg d) =
      foldl (\<lambda>d (u, st, sc). mark_event d u st sc) (process_message face e msg d) ms" by blast
  show ?case
  proof (cases rule: process_message_cases [of face e msg d])
    case same
    with ms w show ?thesis by auto
  next
    case (marked u st sc)
    with ms w show ?thesis by (intro exI [of _ "(u, st, sc) # ms"]) simp
  qed
qed

lemma worker_loop_unnamed:
  assumes "wf_db d" and "\<forall>(e, msg) \<in> set ws. healthy uuid e \<and> \<not> names_event uuid msg u"
  shows "events (worker_loop face ws d) u = events d u"
  using assms
  by (induction ws arbitrary: d) (auto simp: wf_process_message spec_process_refines spec_process_def)

lemma wf_worker_loop: "wf_db d \<Longrightarrow> wf_db (worker_loop face ws d)"
  by (induction ws arbitrary: d) (auto simp: wf_process_message)

lemma mark_image: "map_option ImageURL (events (mark_event d u st sc) k) = map_option ImageURL (events d k)"
  by (simp add: events_mark_event option.map_comp comp_def with_status_def)

text \<open>The last of the messages that name an event leaves it with its verdict.\<close>

lemma last_message_event:
  assumes "wf_db d" and "events d u = Some evt"
    and "ws = before @ (e, msg) # after" and "\<forall>(e, msg) \<in> set ws. healthy uuid e"
    and "names_event uuid msg u" and "\<forall>(e, msg) \<in> set after. \<not> names_event uuid msg u"
  shows "\<exists>evt'. events (worker_loop face ws d) u = Some evt'
    \<and> Status evt' = fst (verdict face (w_face e) evt)
    \<and> evt'\<lparr>Status := Status evt, MatchScore := MatchScore evt\<rparr> = evt"
proof -
  let ?d = "worker_loop face before d"
  have wf: "wf_db ?d" using assms(1) by (rule wf_worker_loop)
  obtain ms where "?d = foldl (\<lambda>d (u, st, sc). mark_event d u st sc) d ms"
    using worker_loop_marks by blast
  then have "events ?d u = Some (foldl (\<lambda>evt (k, st, sc). if k = u then with_status st sc evt else evt) evt ms)"
    using repo_store.lookup_marks [OF assms(1), of ms u] assms(2) by simp
  moreover have "(foldl (\<lambda>evt (k, st, sc). if k = u then with_status st sc evt else evt) evt ms)
      \<lparr>Status := Status evt, MatchScore := MatchScore evt\<rparr> = evt"
    by (induction ms rule: rev_induct) (auto simp: with_status_def)
  ultimately obtain evt1 where evt1: "events ?d u = Some evt1"
    "evt1\<lparr>Status := Status evt, MatchScore := MatchScore evt\<rparr> = evt" by blast
  have "ImageURL evt1 = ImageURL (evt1\<lparr>Status := Status evt, MatchScore := MatchScore evt\<rparr>)" by simp
  also have "\<dots> = ImageURL evt" by (simp only: evt1(2))
  finally have same: "verdict face (w_face e) evt1 = verdict face (w_face e) evt" by (simp add: verdict_def)
  have "events (process_message face e msg ?d) u =
      Some (with_status (fst (verdict face (w_face e) evt1)) (snd (verdict face (w_face e) evt1)) evt1)"
    using assms(3-5) evt1(1) by (subst spec_process_refines [OF wf]) (auto simp: spec_process_def)
  moreover have "events (worker_loop face ws d) u = events (process_message face e msg ?d) u"
    using worker_loop_unnamed [OF wf_process_message [OF wf, of face e msg], of after uuid u face] assms(3,4,6)
    by (auto simp: worker_loop_append)
  ultimately show ?thesis using evt1(2) same by (auto simp: with_status_def)
qed

lemma named_event_decided:
  assumes "wf_db d" and "events d u = Some evt" and "\<forall>(e, msg) \<in> set ws. healthy uuid e"
    and "(e, msg) \<in> set ws" and "names_event uuid msg u"
  shows "\<exists>evt'. events (worker_loop face ws d) u = Some evt'
    \<and> (\<exists>(e, msg) \<in> set ws. names_event uuid msg u \<and> Status evt' = fst (verdict face (w_face e) evt))
    \<and> evt'\<lparr>Status := Status evt, MatchScore := MatchScore evt\<rparr> = evt"
proof -
  from assms(4,5) have "\<exists>w \<in> set ws. names_event uuid (snd w) u" by force
  from split_list_last_prop [OF this] obtain before e' msg' after where
    ws: "ws = before @ (e', msg') # after" and names: "names_event uuid msg' u"
    and later: "\<forall>w \<in> set after. \<not> names_event uuid (snd w) u" by (metis prod.collapse)
  from later have "\<forall>(e, msg) \<in> set after. \<not> names_event uuid msg u" by force
  from last_message_event [OF assms(1,2) ws assms(3) names this, of face] ws names show ?thesis by fastforce
qed

section \<open>Properties\<close>

text \<open>
  C28. Over a server without faults the worker implements the abstract map of events: a message of
  another type and a message that names no stored event change nothing; a check-in message gives
  its event the status processed with the score of the face service, or the status failed with the
  score it had, and changes nothing else.
\<close>

theorem worker_refines_spec:
  assumes "wf_db d" and "\<forall>(e, msg) \<in> set ws. healthy uuid e"
  shows "events (worker_loop face ws d) =
    foldl (\<lambda>m (e, msg). spec_process uuid face (w_face e) msg m) (events d) ws
    \<and> wf_db (worker_loop face ws d)"
  using assms
proof (induction ws arbitrary: d)
  case (Cons w ws)
  obtain e msg where w: "w = (e, msg)" by fastforce
  with Cons.prems have "healthy uuid e" by simp
  from spec_process_refines [OF Cons.prems(1) this, of face msg] w Cons.prems
  show ?case using Cons.IH [of "process_message face e msg d"] by (simp add: wf_process_message)
qed simp

definition mock_client :: FaceClient where
  "mock_client = NewFaceClient [] True"

definition plain_work :: work_env where
  "plain_work = \<lparr>w_get = plain_pg 0, w_face = one_face, w_update = plain_pg 0\<rparr>"

definition checkin_msg :: "string \<Rightarrow> message" where
  "checkin_msg k = \<lparr>Type = ''checkin'', Body = k\<rparr>"

lemma plain_work_healthy: "healthy Some plain_work"
  by (simp add: healthy_def plain_work_def)

lemma mock_verdict: "verdict mock_client tr evt = (''processed'', Some (er_Score mock_embed))"
  by (simp add: verdict_def EmbedWithScore_def mock_client_def NewFaceClient_def)

lemma one_event_lookup:
  "events one_event_db ''u1'' = Some (blank_event\<lparr>ID := ''u1'', When := 5000, Status := ''pending'', CreatedAt := 5000\<rparr>)"
proof -
  from insert_one_event obtain u where "pg_uuid_in (plain_pg 5000) (ID (blank_event
        \<lparr>ID := ''u1'', When := 5999, Status := ''pending'', CreatedAt := 5000\<rparr>)) = Some u"
    "events one_event_db = (events gate_db)(u \<mapsto> (blank_event\<lparr>ID := ''u1'', When := 5999, Status := ''pending'',
        CreatedAt := 5000\<rparr>)\<lparr>ID := u, When := pg_time (When (blank_event
          \<lparr>ID := ''u1'', When := 5999, Status := ''pending'', CreatedAt := 5000\<rparr>))\<rparr>)"
    by (rule events_InsertEvent)
  then show ?thesis by (simp add: pg_time_def blank_event_def)
qed

theorem worker_refines_spec_witness:
  "map_option Status (events (worker_loop mock_client [(plain_work, checkin_msg ''u1'')] one_event_db) ''u1'')
     = Some ''processed''"
  using worker_refines_spec [OF wf_one_event_db, of "[(plain_work, checkin_msg ''u1'')]" Some mock_client]
  by (simp add: plain_work_healthy spec_process_def names_event_def checkin_msg_def one_event_lookup
      mock_verdict with_status_def)

text \<open>
  Of the messages that name an event the last one decides: its status is processed or failed by
  the answer the face service gave to that message, and everything but status and score is as
  before the loop.
\<close>

lemma last_message_decides:
  assumes "wf_db d" and "events d u = Some evt"
    and "ws = before @ (e, msg) # after" and "\<forall>(e, msg) \<in> set ws. healthy uuid e"
    and "names_event uuid msg u" and "\<forall>(e, msg) \<in> set after. \<not> names_event uuid msg u"
  shows "\<exists>evt'. events (worker_loop face ws d) u = Some evt'
    \<and> Status evt' = fst (verdict face (w_face e) evt)
    \<and> evt'\<lparr>Status := Status evt, MatchScore := MatchScore evt\<rparr> = evt"
  using assms by (rule last_message_event)

lemma last_message_decides_example:
  "map_option Status (events (worker_loop mock_client [(plain_work, checkin_msg ''u1'')] one_event_db) ''u1'') =
     Some (fst (verdict mock_client one_face blank_event))"
  using last_message_decides [OF wf_one_event_db one_event_lookup, of "[(plain_work, checkin_msg ''u1'')]" "[]"
      plain_work "checkin_msg ''u1''" "[]" Some mock_client]
  by (auto simp: plain_work_healthy names_event_def checkin_msg_def mock_verdict)

text \<open>
  C29. Whatever the server and the face service do, the worker neither adds nor removes events, and
  changes nothing but status and score of those there are.
\<close>

theorem worker_preserves_events:
  assumes "wf_db d"
  shows "wf_db (worker_loop face ws d) \<and> dom (events (worker_loop face ws d)) = dom (events d)
    \<and> (\<forall>u. map_option (\<lambda>evt. evt\<lparr>Status := [], MatchScore := None\<rparr>) (events (worker_loop face ws d) u) =
         map_option (\<lambda>evt. evt\<lparr>Status := [], MatchScore := None\<rparr>) (events d u))"
proof -
  obtain ms where ms: "worker_loop face ws d = foldl (\<lambda>d (u, st, sc). mark_event d u st sc) d ms"
    using worker_loop_marks by blast
  have "(foldl (\<lambda>evt (k, st, sc). if k = u then with_status st sc evt else evt) evt ms)
      \<lparr>Status := [], MatchScore := None\<rparr> = evt\<lparr>Status := [], MatchScore := None\<rparr>" for u evt
    by (induction ms rule: rev_induct) (auto simp: with_status_def)
  then show ?thesis
    using repo_store.ok_marks [OF assms, of ms] repo_store.lookup_marks_dom [OF assms, of ms]
      repo_store.lookup_marks [OF assms, of ms]
    by (simp add: ms option.map_comp comp_def)
qed

theorem worker_preserves_events_witness:
  "dom (events (worker_loop mock_client [(plain_work, checkin_msg ''u1'')] one_event_db)) = dom (events one_event_db)"
  using worker_preserves_events [OF wf_one_event_db, of mock_client "[(plain_work, checkin_msg ''u1'')]"] by simp

text \<open>
  A redelivered message with the same answer of the face service leaves the tables as the first
  delivery did.
\<close>

lemma redelivery_idempotent:
  assumes "wf_db d" and "healthy uuid e"
  shows "process_message face e msg (process_message face e msg d) = process_message face e msg d"
proof -
  have twice: "mark_event (mark_event d u st sc) u st sc = mark_event d u st sc" for u st sc
    by (cases sc) (simp_all add: mark_event_def row_update_def set_status_def comp_def cong: if_cong)
  show ?thesis
  proof (cases "Type msg = ''checkin'' \<and> uuid (Body msg) \<noteq> None \<and> events d (the (uuid (Body msg))) \<noteq> None")
    case False
    then have "process_message face e msg d = d"
      by (auto simp: process_healthy [OF assms] split: option.splits)
    then show ?thesis by simp
  next
    case True
    then obtain u evt where u: "Type msg = ''checkin''" "uuid (Body msg) = Some u" "events d u = Some evt" by auto
    let ?v = "verdict face (w_face e) evt"
    have one: "process_message face e msg d = mark_event d u (fst ?v) (snd ?v)"
      using u by (simp add: process_healthy [OF assms])
    have "events (mark_event d u (fst ?v) (snd ?v)) u = Some (with_status (fst ?v) (snd ?v) evt)"
      using u by (simp add: events_mark_event)
    moreover have "verdict face (w_face e) (with_status (fst ?v) (snd ?v) evt) = ?v"
      by (simp add: verdict_def with_status_def)
    ultimately show ?thesis
      using u by (simp add: one process_healthy [OF wf_mark_event [OF assms(1)] assms(2)] twice)
  qed
qed

lemma redelivery_idempotent_example:
  "process_message mock_client plain_work (checkin_msg ''u1'')
     (process_message mock_client plain_work (checkin_msg ''u1'') one_event_db) =
   process_message mock_client plain_work (checkin_msg ''u1'') one_event_db"
  by (rule redelivery_idempotent [OF wf_one_event_db plain_work_healthy])

text \<open>
  C30. An event that was processed with a score and whose message comes again while the face service
  fails ends as failed and keeps the score of the earlier success.
\<close>

theorem failed_retry_keeps_score:
  assumes "wf_db d" and "healthy uuid e" and "names_event uuid msg u"
    and "events d u = Some evt" and "Status evt = ''processed''" and "MatchScore evt = Some x"
    and "EmbedWithScore face (w_face e) (ImageURL evt) = Inl err"
  shows "events (process_message face e msg d) u = Some (evt\<lparr>Status := ''failed''\<rparr>)
    \<and> MatchScore (evt\<lparr>Status := ''failed''\<rparr>) = Some x"
  using assms spec_process_refines [OF assms(1,2), of face msg]
  by (simp add: spec_process_def verdict_def with_status_def)

theorem failed_retry_keeps_score_witness:
  "map_option (\<lambda>evt. (Status evt, MatchScore evt)) (events
     (process_message (NewFaceClient [] False) plain_work (checkin_msg ''u1'')
       (mark_event one_event_db ''u1'' ''processed'' (Some 1))) ''u1'') = Some (''failed'', Some 1)"
proof -
  have "EmbedWithScore (NewFaceClient [] False) (w_face plain_work) [] = Inl (Errorf ''image url required'')"
    by (simp add: EmbedWithScore_def NewFaceClient_def)
  then show ?thesis
    using failed_retry_keeps_score [OF wf_mark_event [OF wf_one_event_db] plain_work_healthy,
        of "checkin_msg ''u1''" "''u1''" "''u1''" "''processed''" "Some 1"]
    by (simp add: events_mark_event one_event_lookup names_event_def checkin_msg_def with_status_def blank_event_def)
qed

end
