(* ===== verification/HttpApi.thy ===== *)
theory HttpApi
  imports RateLimit JwtAuth Cloudinary Worker
begin

text \<open>
  The HTTP API, \<open>src/cmd/api/main.go\<close>: how the process starts, the middleware in the order in which
  it is registered, and one definition per route. The state is the tables, the rate limiter and the
  queue behind the \<open>queue.Queue\<close> interface. What gin contributes is an argument: the pattern a
  request was matched to, the client address, the query, and the binding of JSON bodies; so are the
  server, the services and the clock readings during a request. The lemmas: what a request without
  a token can do, what an accepted check-in means, that messages are published for accepted
  check-ins only, and that a registered device can check in.
\<close>

section \<open>Requests and responses\<close>

text \<open>\<open>c_file\<close> is what \<open>FormFile\<close> returns: nothing on an error, or a name and what reading yields.\<close>

record request =
  c_method :: string
  c_pattern :: "string option"
  c_origin :: string
  c_authz :: string
  c_ip :: string
  c_content_type :: string
  c_query :: "string \<Rightarrow> string"
  c_id :: string
  c_file :: "(string \<times> bytes result) option"
  c_body :: bytes

text \<open>The values of a \<open>gin.H\<close>, before they are rendered.\<close>

datatype hval = HStr string | HErr error | HBool bool | HInt int | HTime time
  | HEvents "Event list" | HEmployees "Employee list"

datatype payload = H "(string \<times> hval) list" | EmployeeJSON Employee | Rendered bytes | NoBody

record response =
  status :: int
  headers :: "(string \<times> string) list"
  payload :: payload

section \<open>Libraries and environment\<close>

record gin_lib =
  bindRegister :: "bytes \<Rightarrow> string result"
  bindCheckin :: "bytes \<Rightarrow> checkin_req result"
  bindUpload :: "bytes \<Rightarrow> string result"

record libs =
  lib_oor :: "float64 \<Rightarrow> int"
  lib_lower :: "nat \<Rightarrow> nat"
  lib_jwt :: jwt_lib
  lib_gin :: gin_lib

text \<open>
  What happens around one request: clock readings, the statements in their order, the cloud, the
  queue, Redis, and what the metrics and file handlers answer.
\<close>

record 'q req_env =
  v_now_limit :: time
  v_now_auth :: time
  v_clk :: "nat \<Rightarrow> time"
  v_pg1 :: pg
  v_pg2 :: pg
  v_checkin :: checkin_env
  v_upload :: upload_env
  v_publish :: "message \<Rightarrow> 'q \<Rightarrow> err \<times> 'q"
  v_ping :: "redis_Client \<Rightarrow> err"
  v_outside :: "int \<times> bytes"

section \<open>Start\<close>

record server =
  sv_cfg :: App
  sv_release :: bool
  sv_db :: "DB option"
  sv_redis :: Redis
  sv_queue :: queue_backend
  sv_att :: Service
  sv_cdn :: "CloudClient option"

record 'q api =
  api_db :: db
  api_limiter :: SimpleTokenBucket
  api_queue :: 'q

text \<open>
  An error of \<open>NewDB\<close> is only logged; without a connection \<open>db.Client\<close> is then a nil dereference.
  \<open>ginRelease\<close>: whether gin was in release mode before \<open>main\<close>.
\<close>

datatype api_start = NilDereference | Serving server SimpleTokenBucket

definition cloud_client :: "App \<Rightarrow> CloudClient option" where
  "cloud_client cfg =
     (if CloudinaryCloudName cfg \<noteq> [] \<and> CloudinaryAPIKey cfg \<noteq> [] \<and> CloudinaryAPISecret cfg \<noteq> []
      then Some (NewCloudClient (CloudinaryCloudName cfg) (CloudinaryAPIKey cfg) (CloudinaryAPISecret cfg)
                  (CloudinaryFolder cfg))
      else None)"

definition release_mode :: "App \<Rightarrow> bool \<Rightarrow> bool" where
  "release_mode cfg ginRelease = (if Env cfg = ''production'' \<or> Env cfg = ''prod'' then True else ginRelease)"

definition start_api :: "App \<Rightarrow> bool \<Rightarrow> (string \<Rightarrow> err) \<Rightarrow> (sql_DB \<Rightarrow> err) \<Rightarrow> api_start" where
  "start_api cfg ginRelease sqlOpen ping =
     (case fst (NewDB sqlOpen ping (DatabaseURL cfg)) of
        None \<Rightarrow> NilDereference
      | Some db \<Rightarrow>
          Serving
            \<lparr>sv_cfg = cfg, sv_release = release_mode cfg ginRelease, sv_db = Some db,
             sv_redis = NewRedis (RedisAddr cfg), sv_queue = select_queue cfg,
             sv_att = NewService (5 * Minute), sv_cdn = cloud_client cfg\<rparr>
            (NewSimpleTokenBucket (RateLimitPerMin cfg) (RateLimitPerMin cfg)))"

section \<open>Middleware\<close>

definition corsMiddleware :: "request \<Rightarrow> (string \<times> string) list \<times> bool" where
  "corsMiddleware c =
     ([(''Access-Control-Allow-Origin'', if c_origin c = [] then ''*'' else c_origin c),
       (''Access-Control-Allow-Methods'', ''GET, POST, PUT, DELETE, OPTIONS''),
       (''Access-Control-Allow-Headers'', ''Origin, Content-Type, Accept, Authorization''),
       (''Access-Control-Allow-Credentials'', ''true''),
       (''Access-Control-Max-Age'', ''86400'')],
      c_method c \<noteq> ''OPTIONS'')"

definition securityHeaders :: "bool \<Rightarrow> (string \<times> string) list" where
  "securityHeaders release =
     [(''X-Content-Type-Options'', ''nosniff''),
      (''X-Frame-Options'', ''DENY''),
      (''X-XSS-Protection'', ''1; mode=block''),
      (''Referrer-Policy'', ''strict-origin-when-cross-origin'')]
     @ (if release then [(''Strict-Transport-Security'', ''max-age=31536000; includeSubDomains'')] else [])"

section \<open>Handlers\<close>

text \<open>A handler answers with a status and a body.\<close>

type_synonym reply = "int \<times> payload"

definition healthz :: "server \<Rightarrow> 'q req_env \<Rightarrow> reply" where
  "healthz s e =
     (let redisHealthy = Healthy (v_ping e) (Some (sv_redis s));
          dbHealthy = (sv_db s \<noteq> None)
      in (if \<not> redisHealthy \<or> \<not> dbHealthy then 503 else 200,
          H [(''status'', HStr ''ok''), (''redis'', HBool redisHealthy), (''db'', HBool dbHealthy)]))"

text \<open>An error of \<open>SaveRefreshToken\<close> is ignored.\<close>

definition register_device ::
  "libs \<Rightarrow> server \<Rightarrow> 'q req_env \<Rightarrow> request \<Rightarrow> db \<Rightarrow> reply \<times> db" where
  "register_device l s e c d =
     (case bindRegister (lib_gin l) (c_body c) of
        Inl er \<Rightarrow> ((400, H [(''error'', HErr er)]), d)
      | Inr deviceID \<Rightarrow>
          (case RegisterDevice (v_pg1 e) d deviceID of
             (Some er, d1) \<Rightarrow> ((400, H [(''error'', HErr er)]), d1)
           | (None, d1) \<Rightarrow>
               (case Issue (lib_jwt l) (v_clk e) deviceID ''device'' (JWTIssuer (sv_cfg s))
                       (JWTSigningKey (sv_cfg s)) (AccessTTL (sv_cfg s)) (RefreshTTL (sv_cfg s)) of
                  Inl _ \<Rightarrow> ((500, H [(''error'', HStr ''token issue failed'')]), d1)
                | Inr pair \<Rightarrow>
                    ((201, H [(''access_token'', HStr (AccessToken pair)),
                              (''refresh_token'', HStr (RefreshToken pair)),
                              (''expires_at'', HInt (AccessExp pair div Second))]),
                     snd (SaveRefreshToken (v_pg2 e) d1 deviceID (RefreshToken pair) (RefreshExp pair))))))"

definition upload_reply :: "UploadResult result \<Rightarrow> reply" where
  "upload_reply r =
     (case r of
        Inl _ \<Rightarrow> (502, H [(''error'', HStr ''image upload failed'')])
      | Inr result \<Rightarrow>
          (200, H [(''url'', HStr (SecureURL result)), (''public_id'', HStr (PublicID result)),
                   (''width'', HInt (Width result)), (''height'', HInt (Height result)),
                   (''bytes'', HInt (Bytes result))]))"

definition upload_image :: "libs \<Rightarrow> server \<Rightarrow> 'q req_env \<Rightarrow> request \<Rightarrow> reply" where
  "upload_image l s e c =
     (case sv_cdn s of
        None \<Rightarrow> (503, H [(''error'', HStr ''image storage not configured'')])
      | Some cdn \<Rightarrow>
          if Contains (c_content_type c) ''multipart/form-data''
          then (case c_file c of
                  None \<Rightarrow> (400, H [(''error'', HStr ''file field required'')])
                | Some (filename, Inl _) \<Rightarrow> (500, H [(''error'', HStr ''read file failed'')])
                | Some (filename, Inr data) \<Rightarrow> upload_reply (UploadBytes cdn (v_upload e) data filename))
          else (case bindUpload (lib_gin l) (c_body c) of
                  Inl _ \<Rightarrow> (400, H [(''error'',
                    HStr (''provide {'' @ CHR 0x22 # ''data'' @ CHR 0x22 # '': '' @ CHR 0x22 # ''<base64 data URL>'' @ CHR 0x22 # ''}''))])
                | Inr data \<Rightarrow> upload_reply (UploadBase64 cdn (v_upload e) data)))"

text \<open>An error of \<open>Publish\<close> is only logged.\<close>

definition checkins ::
  "libs \<Rightarrow> server \<Rightarrow> 'q req_env \<Rightarrow> Claims \<Rightarrow> request \<Rightarrow> db \<Rightarrow> 'q \<Rightarrow> reply \<times> db \<times> 'q" where
  "checkins l s e claims c d q =
     (case bindCheckin (lib_gin l) (c_body c) of
        Inl er \<Rightarrow> ((400, H [(''error'', HErr er)]), d, q)
      | Inr req \<Rightarrow>
          if Subject claims \<noteq> [] \<and> Subject claims \<noteq> r_device req
          then ((403, H [(''error'', HStr ''device mismatch'')]), d, q)
          else (case CheckIn (sv_att s) (v_checkin e) d (r_user req) (r_device req) (r_location req) (r_image req) of
             (Inl er, d1) \<Rightarrow> ((400, H [(''error'', HErr er)]), d1, q)
           | (Inr evt, d1) \<Rightarrow>
               ((202, H [(''event_id'', HStr (ID evt)), (''when'', HTime (When evt)), (''status'', HStr (Status evt))]),
                d1, snd (v_publish e \<lparr>Type = ''checkin'', Body = ID evt\<rparr> q))))"

definition int_query :: "request \<Rightarrow> string \<Rightarrow> int \<Rightarrow> int" where
  "int_query c name dflt =
     (let v = c_query c name
      in if v \<noteq> [] then (case Atoi v of (parsed, ok) \<Rightarrow> if ok then parsed else dflt) else dflt)"

definition list_events :: "'q req_env \<Rightarrow> request \<Rightarrow> db \<Rightarrow> reply" where
  "list_events e c d =
     (let deviceID = c_query c ''device_id'';
          userID = c_query c ''user_id'';
          limit = int_query c ''limit'' 50;
          offset = int_query c ''offset'' 0
      in case ListEvents (v_pg1 e) d deviceID userID limit offset of
           Inl er \<Rightarrow> (500, H [(''error'', HErr er)])
         | Inr evts \<Rightarrow> (200, H [(''events'', HEvents evts)]))"

definition list_employees :: "'q req_env \<Rightarrow> db \<Rightarrow> reply" where
  "list_employees e d =
     (case ListEmployees (v_pg1 e) d of
        Inl er \<Rightarrow> (500, H [(''error'', HErr er)])
      | Inr emps \<Rightarrow> (200, H [(''employees'', HEmployees emps)]))"

definition get_employee :: "'q req_env \<Rightarrow> request \<Rightarrow> db \<Rightarrow> reply" where
  "get_employee e c d =
     (case GetEmployee (v_pg1 e) d (c_id c) of
        Inl er \<Rightarrow> (500, H [(''error'', HErr er)])
      | Inr None \<Rightarrow> (404, H [(''error'', HStr ''employee not found'')])
      | Inr (Some emp) \<Rightarrow> (200, EmployeeJSON emp))"

section \<open>Routes\<close>

datatype route = Metrics | Healthz | RegisterRoute | UploadRoute | CheckinRoute | EventsRoute
  | EmployeesRoute | EmployeeRoute | StaticRoute

definition routes :: "((string \<times> string) \<times> route) list" where
  "routes =
     [((''GET'', ''/metrics''), Metrics),
      ((''GET'', ''/healthz''), Healthz),
      ((''POST'', ''/v1/devices/register''), RegisterRoute),
      ((''POST'', ''/v1/upload''), UploadRoute),
      ((''POST'', ''/v1/checkins''), CheckinRoute),
      ((''GET'', ''/v1/events''), EventsRoute),
      ((''GET'', ''/v1/employees''), EmployeesRoute),
      ((''GET'', ''/v1/employees/:id''), EmployeeRoute),
      ((''GET'', ''/''), StaticRoute), ((''HEAD'', ''/''), StaticRoute),
      ((''GET'', ''/static/*filepath''), StaticRoute), ((''HEAD'', ''/static/*filepath''), StaticRoute)]"

definition route_of :: "request \<Rightarrow> route option" where
  "route_of c = (case c_pattern c of None \<Rightarrow> None | Some p \<Rightarrow> map_of routes (c_method c, p))"

text \<open>The routes of \<open>authGroup\<close>.\<close>

definition protected :: "route \<Rightarrow> bool" where
  "protected r \<longleftrightarrow> r \<in> {UploadRoute, CheckinRoute, EventsRoute, EmployeesRoute, EmployeeRoute}"

text \<open>The last equation of \<open>auth_handler\<close> is for the routes that are not in the group.\<close>

fun open_handler :: "libs \<Rightarrow> server \<Rightarrow> 'q req_env \<Rightarrow> request \<Rightarrow> route \<Rightarrow> db \<Rightarrow> reply \<times> db" where
  "open_handler l s e c Healthz d = (healthz s e, d)"
| "open_handler l s e c RegisterRoute d = register_device l s e c d"
| "open_handler l s e c r d = ((fst (v_outside e), Rendered (snd (v_outside e))), d)"

fun auth_handler ::
  "libs \<Rightarrow> server \<Rightarrow> 'q req_env \<Rightarrow> Claims \<Rightarrow> request \<Rightarrow> route \<Rightarrow> db \<Rightarrow> 'q \<Rightarrow> reply \<times> db \<times> 'q" where
  "auth_handler l s e claims c UploadRoute d q = (upload_image l s e c, d, q)"
| "auth_handler l s e claims c CheckinRoute d q = checkins l s e claims c d q"
| "auth_handler l s e claims c EventsRoute d q = (list_events e c d, d, q)"
| "auth_handler l s e claims c EmployeesRoute d q = (list_employees e d, d, q)"
| "auth_handler l s e claims c EmployeeRoute d q = (get_employee e c d, d, q)"
| "auth_handler l s e claims c r d q = ((404, NoBody), d, q)"

text \<open>After the global middleware; a request that matches no route is answered with 404.\<close>

definition dispatch ::
  "libs \<Rightarrow> server \<Rightarrow> 'q req_env \<Rightarrow> request \<Rightarrow> db \<Rightarrow> 'q \<Rightarrow> reply \<times> db \<times> 'q" where
  "dispatch l s e c d q =
     (case route_of c of
        None \<Rightarrow> ((404, Rendered ''404 page not found''), d, q)
      | Some r \<Rightarrow>
          if protected r
          then (case DeviceAuth (lib_lower l) (lib_jwt l) (v_now_auth e) (JWTSigningKey (sv_cfg s))
                       (JWTIssuer (sv_cfg s)) (c_authz c) of
                  Abort code msg \<Rightarrow> ((code, H [(''error'', HStr msg)]), d, q)
                | auth_outcome.Continue claims \<Rightarrow> auth_handler l s e claims c r d q)
          else (case open_handler l s e c r d of (rep, d') \<Rightarrow> (rep, d', q)))"

definition serve :: "libs \<Rightarrow> server \<Rightarrow> 'q req_env \<Rightarrow> request \<Rightarrow> 'q api \<Rightarrow> response \<times> 'q api" where
  "serve l s e c st =
     (case corsMiddleware c of (cors, go) \<Rightarrow>
        if \<not> go then (\<lparr>status = 204, headers = cors, payload = NoBody\<rparr>, st)
        else let hs = cors @ securityHeaders (sv_release s)
             in case rate_limited (lib_oor l) (api_limiter st) (c_ip c) (v_now_limit e) of
                  (True, lm) \<Rightarrow>
                    (\<lparr>status = 429, headers = hs, payload = H [(''error'', HStr ''rate limit'')]\<rparr>,
                     st\<lparr>api_limiter := lm\<rparr>)
                | (False, lm) \<Rightarrow>
                    (case dispatch l s e c (api_db st) (api_queue st) of
                       (rep, d, q) \<Rightarrow>
                         (\<lparr>status = fst rep, headers = hs, payload = snd rep\<rparr>,
                          \<lparr>api_db = d, api_limiter = lm, api_queue = q\<rparr>)))"

section \<open>What gin promises\<close>

text \<open>
  \<open>ShouldBindJSON\<close> decodes the body with \<open>encoding/json\<close> and then rejects empty required fields.
\<close>

definition decode_body :: "'s field list \<Rightarrow> bytes \<Rightarrow> 's \<Rightarrow> 's option" where
  "decode_body fs b zero = (case Decode b of None \<Rightarrow> None | Some v \<Rightarrow> decode_struct fs v zero)"

definition binds :: "'s result \<Rightarrow> 's option \<Rightarrow> ('s \<Rightarrow> bool) \<Rightarrow> bool" where
  "binds r decoded required \<longleftrightarrow>
     (case decoded of
        Some x \<Rightarrow> if required x then r = Inr x else (\<exists>e. r = Inl e)
      | None \<Rightarrow> \<exists>e. r = Inl e)"

definition register_fields :: "string field list" where
  "register_fields = [(''device_id'', store_string (\<lambda>x _. x))]"

definition checkin_fields :: "checkin_req field list" where
  "checkin_fields =
     [(''user_id'', store_string (\<lambda>x r. r\<lparr>r_user := x\<rparr>)),
      (''device_id'', store_string (\<lambda>x r. r\<lparr>r_device := x\<rparr>)),
      (''location'', store_string (\<lambda>x r. r\<lparr>r_location := x\<rparr>)),
      (''image_url'', store_string (\<lambda>x r. r\<lparr>r_image := x\<rparr>))]"

definition checkin_zero :: checkin_req where
  "checkin_zero = \<lparr>r_user = [], r_device = [], r_location = [], r_image = []\<rparr>"

definition upload_body_fields :: "string field list" where
  "upload_body_fields = [(''data'', store_string (\<lambda>x _. x))]"

definition gin_laws :: "gin_lib \<Rightarrow> bool" where
  "gin_laws g \<longleftrightarrow>
     (\<forall>b. binds (bindRegister g b) (decode_body register_fields b []) (\<lambda>x. x \<noteq> [])
        \<and> binds (bindCheckin g b) (decode_body checkin_fields b checkin_zero)
            (\<lambda>r. r_user r \<noteq> [] \<and> r_device r \<noteq> [])
        \<and> binds (bindUpload g b) (decode_body upload_body_fields b []) (\<lambda>x. x \<noteq> []))"

lemma binds_InrD: "binds r decoded required \<Longrightarrow> r = Inr x \<Longrightarrow> decoded = Some x \<and> required x"
  by (auto simp: binds_def split: option.splits if_splits)

section \<open>Cases of a request\<close>

lemma serve_cases [consumes 1]:
  assumes "serve l s e c st = (resp, st')"
  obtains (preflight) "c_method c = ''OPTIONS''" "status resp = 204" "st' = st"
  | (limited) "c_method c \<noteq> ''OPTIONS''" "status resp = 429"
      "rate_limited (lib_oor l) (api_limiter st) (c_ip c) (v_now_limit e) = (True, api_limiter st')"
      "api_db st' = api_db st" "api_queue st' = api_queue st"
  | (passed) rep where "c_method c \<noteq> ''OPTIONS''"
      "rate_limited (lib_oor l) (api_limiter st) (c_ip c) (v_now_limit e) = (False, api_limiter st')"
      "dispatch l s e c (api_db st) (api_queue st) = (rep, api_db st', api_queue st')"
      "status resp = fst rep" "payload resp = snd rep"
  using assms
  by (auto simp: serve_def corsMiddleware_def Let_def split: if_splits prod.splits bool.splits)

lemma dispatch_cases [consumes 1]:
  assumes "dispatch l s e c d q = (rep, d', q')"
  obtains (none) "route_of c = None" "fst rep = 404" "d' = d" "q' = q"
  | (opened) r where "route_of c = Some r" "\<not> protected r" "open_handler l s e c r d = (rep, d')" "q' = q"
  | (aborted) r where "route_of c = Some r" "protected r" "fst rep = 401" "d' = d" "q' = q"
  | (authorized) r claims where "route_of c = Some r" "protected r"
      "DeviceAuth (lib_lower l) (lib_jwt l) (v_now_auth e) (JWTSigningKey (sv_cfg s)) (JWTIssuer (sv_cfg s))
         (c_authz c) = auth_outcome.Continue claims"
      "auth_handler l s e claims c r d q = (rep, d', q')"
  using assms
  by (auto simp: dispatch_def split: option.splits if_splits auth_outcome.splits prod.splits dest: DeviceAuth_AbortD)

lemma checkins_cases [consumes 1]:
  assumes "checkins l s e claims c d q = (rep, d', q')"
  obtains (unbound) er where "bindCheckin (lib_gin l) (c_body c) = Inl er" "fst rep = 400" "d' = d" "q' = q"
  | (mismatch) req where "bindCheckin (lib_gin l) (c_body c) = Inr req"
      "Subject claims \<noteq> []" "Subject claims \<noteq> r_device req" "fst rep = 403" "d' = d" "q' = q"
  | (failed) req er where "bindCheckin (lib_gin l) (c_body c) = Inr req"
      "Subject claims = [] \<or> Subject claims = r_device req"
      "CheckIn (sv_att s) (v_checkin e) d (r_user req) (r_device req) (r_location req) (r_image req) = (Inl er, d')"
      "fst rep = 400" "q' = q"
  | (accepted) req evt where "bindCheckin (lib_gin l) (c_body c) = Inr req"
      "Subject claims = [] \<or> Subject claims = r_device req"
      "CheckIn (sv_att s) (v_checkin e) d (r_user req) (r_device req) (r_location req) (r_image req) = (Inr evt, d')"
      "rep = (202, H [(''event_id'', HStr (ID evt)), (''when'', HTime (When evt)), (''status'', HStr (Status evt))])"
      "q' = snd (v_publish e \<lparr>Type = ''checkin'', Body = ID evt\<rparr> q)"
  using assms by (auto simp: checkins_def split: sum.splits if_splits prod.splits)

lemma protected_method: "route_of c = Some r \<Longrightarrow> c_method c \<noteq> ''OPTIONS''"
  by (auto simp: route_of_def routes_def split: option.splits if_splits)

text \<open>What a request can do to the tables, as calls of the repository.\<close>

lemma RegisterDevice_runs: "\<exists>cs. runs repo_step d cs (snd (RegisterDevice p d dev))"
proof (cases "dev = []")
  case True
  then show ?thesis by (auto simp: RegisterDevice_def intro: runs_nil)
next
  case False
  then have "repo_step d (CUpsertDevice dev) (snd (RegisterDevice p d dev))"
    by (intro repo_step.intros(1) [where p = p and e = "fst (RegisterDevice p d dev)"]) (simp add: RegisterDevice_def)
  then show ?thesis by (blast intro: runs_single)
qed

lemma SaveRefreshToken_step:
  "repo_step d (CSaveRefreshToken dev tok until) (snd (SaveRefreshToken p d dev tok until))"
  by (rule repo_step.intros(2) [where p = p and e = "fst (SaveRefreshToken p d dev tok until)"]) simp

lemma register_device_runs:
  assumes "register_device l s e c d = (rep, d')"
  shows "\<exists>cs. runs repo_step d cs d'"
proof -
  have "d' = d \<or> (\<exists>dev. d' = snd (RegisterDevice (v_pg1 e) d dev)
      \<or> (\<exists>tok until. d' = snd (SaveRefreshToken (v_pg2 e) (snd (RegisterDevice (v_pg1 e) d dev)) dev tok until)))"
    using assms
    by (simp add: register_device_def split: sum.splits prod.splits option.splits) (metis snd_conv)+
  then show ?thesis
  proof (elim disjE exE)
    assume "d' = d"
    then show ?thesis by (auto intro: runs_nil)
  next
    fix dev assume "d' = snd (RegisterDevice (v_pg1 e) d dev)"
    then show ?thesis using RegisterDevice_runs by simp
  next
    fix dev tok until
    assume "d' = snd (SaveRefreshToken (v_pg2 e) (snd (RegisterDevice (v_pg1 e) d dev)) dev tok until)"
    then show ?thesis
      using RegisterDevice_runs [of d "v_pg1 e" dev] SaveRefreshToken_step
      by (metis runs_snoc)
  qed
qed

lemma CheckIn_runs:
  assumes "CheckIn sv ce d u dev loc img = (r, d')"
  shows "\<exists>cs. runs repo_step d cs d'"
  using assms
proof (cases rule: CheckIn_cases)
  case insert
  from repo_step.intros(4) [OF insert(2)] show ?thesis by (blast intro: runs_single)
qed (auto intro: runs_nil)

lemma auth_handler_runs:
  assumes "auth_handler l s e claims c r d q = (rep, d', q')"
  shows "\<exists>cs. runs repo_step d cs d'"
proof (cases "r = CheckinRoute")
  case True
  with assms have "checkins l s e claims c d q = (rep, d', q')" by simp
  then show ?thesis by (cases rule: checkins_cases) (auto intro: runs_nil CheckIn_runs)
next
  case False
  with assms have "d' = d" by (cases r) auto
  then show ?thesis by (auto intro: runs_nil)
qed

lemma open_handler_runs: "open_handler l s e c r d = (rep, d') \<Longrightarrow> \<exists>cs. runs repo_step d cs d'"
  by (cases r) (auto intro: runs_nil register_device_runs)

lemma dispatch_runs:
  assumes "dispatch l s e c d q = (rep, d', q')"
  shows "\<exists>cs. runs repo_step d cs d'"
  using assms
  by (cases rule: dispatch_cases) (auto intro: runs_nil open_handler_runs auth_handler_runs)

lemma serve_runs:
  assumes "serve l s e c st = (resp, st')"
  shows "\<exists>cs. runs repo_step (api_db st) cs (api_db st')"
  using assms
  by (cases rule: serve_cases) (auto intro: runs_nil dispatch_runs)

lemma auth_handler_queue:
  assumes "auth_handler l s e claims c r d q = (rep, d', q')" and "q' \<noteq> q"
  shows "r = CheckinRoute \<and> fst rep = 202"
proof (cases "r = CheckinRoute")
  case True
  with assms(1) have "checkins l s e claims c d q = (rep, d', q')" by simp
  then show ?thesis using True assms(2) by (cases rule: checkins_cases) auto
next
  case False
  with assms show ?thesis by (cases r) auto
qed

lemma serve_limiter:
  assumes "serve l s e c st = (resp, st')"
  shows "api_limiter st' = api_limiter st
    \<or> (\<exists>k v. allow (lib_oor l) (api_limiter st) k (v_now_limit e) = (v, api_limiter st'))"
  using assms
  by (cases rule: serve_cases) (auto simp: rate_limited_def split: prod.splits)

section \<open>All requests\<close>

text \<open>One request of any kind, with any behaviour of its environment.\<close>

inductive api_step :: "libs \<Rightarrow> server \<Rightarrow> 'q api \<Rightarrow> request \<times> response \<Rightarrow> 'q api \<Rightarrow> bool" for l s where
  "serve l s e c st = (resp, st') \<Longrightarrow> api_step l s st (c, resp) st'"

definition api_inv :: "'q api \<Rightarrow> bool" where
  "api_inv st \<longleftrightarrow> wf_db (api_db st) \<and> wf_limiter (api_limiter st)"

definition api_fresh :: "'q api \<Rightarrow> bool" where
  "api_fresh st \<longleftrightarrow> wf_db (api_db st) \<and> fresh_limiter (api_limiter st)"

lemma api_inv_step: "api_step l s st ev st' \<Longrightarrow> api_inv st \<Longrightarrow> api_inv st'"
proof (induction rule: api_step.induct)
  case (1 e c st resp st')
  from serve_runs [OF 1(1)] obtain cs where "runs repo_step (api_db st) cs (api_db st')" by blast
  then have "wf_db (api_db st')" using 1(2) by (auto simp: api_inv_def intro: repo.inv_runs)
  moreover have "wf_limiter (api_limiter st')"
    using serve_limiter [OF 1(1)] 1(2) by (auto simp: api_inv_def dest: allow_wf)
  ultimately show ?case by (simp add: api_inv_def)
qed

interpretation api: invariant_system api_fresh "api_step l s" api_inv for l s
proof
  show "api_inv st" if "api_fresh st" for st
    using that limiter.inv_start by (auto simp: api_fresh_def api_inv_def)
  show "api_inv st'" if "api_inv st" "api_step l s st ev st'" for st ev st'
    using that by (blast intro: api_inv_step)
qed

lemma keeps_events_trans: "keeps_events d d' \<Longrightarrow> keeps_events d' d'' \<Longrightarrow> keeps_events d d''"
  unfolding keeps_events_def same_checkin_def by metis

lemma keeps_events_runs: "runs repo_step d cs d' \<Longrightarrow> keeps_events d d'"
  by (induction rule: runs.induct) (auto intro: keeps_events_same keeps_events_step keeps_events_trans)

lemma api_keeps_events: "runs (api_step l s) st es st' \<Longrightarrow> keeps_events (api_db st) (api_db st')"
proof (induction rule: runs.induct)
  case (runs_nil st)
  then show ?case by (auto intro: keeps_events_same)
next
  case (runs_snoc st es st1 e st2)
  from runs_snoc(2) obtain cs where "runs repo_step (api_db st1) cs (api_db st2)"
    by (auto elim!: api_step.cases dest!: serve_runs)
  with runs_snoc.IH show ?case by (blast intro: keeps_events_runs keeps_events_trans)
qed

text \<open>What an answer 202, or a change of the queue, says about the request.\<close>

lemma serve_accepted:
  assumes "serve l s e c st = (resp, st')"
    and "api_queue st' \<noteq> api_queue st \<or> route_of c = Some CheckinRoute \<and> status resp = 202"
  shows "route_of c = Some CheckinRoute \<and> status resp = 202 \<and> (\<exists>claims req evt.
       DeviceAuth (lib_lower l) (lib_jwt l) (v_now_auth e) (JWTSigningKey (sv_cfg s)) (JWTIssuer (sv_cfg s))
         (c_authz c) = auth_outcome.Continue claims
     \<and> bindCheckin (lib_gin l) (c_body c) = Inr req \<and> (Subject claims = [] \<or> Subject claims = r_device req)
     \<and> CheckIn (sv_att s) (v_checkin e) (api_db st) (r_user req) (r_device req) (r_location req) (r_image req)
         = (Inr evt, api_db st')
     \<and> payload resp = H [(''event_id'', HStr (ID evt)), (''when'', HTime (When evt)), (''status'', HStr (Status evt))]
     \<and> api_queue st' = snd (v_publish e \<lparr>Type = ''checkin'', Body = ID evt\<rparr> (api_queue st)))"
  using assms(1)
proof (cases rule: serve_cases)
  case (passed rep)
  from passed(3) show ?thesis
  proof (cases rule: dispatch_cases)
    case (authorized r claims)
    have r: "r = CheckinRoute" and code: "fst rep = 202"
      using auth_handler_queue [OF authorized(4)] assms(2) authorized(1) passed(4) by auto
    from authorized(4) r have "checkins l s e claims c (api_db st) (api_queue st) = (rep, api_db st', api_queue st')"
      by simp
    then show ?thesis
    proof (cases rule: checkins_cases)
      case (accepted req evt)
      with authorized(1,3) passed(4,5) r show ?thesis by auto
    qed (use code in auto)
  qed (use assms(2) passed(4) in \<open>auto simp: protected_def\<close>)
qed (use assms(2) protected_method in auto)

section \<open>Registered devices\<close>

lemma UpsertDevice_registered: "UpsertDevice p d dev = (None, d') \<Longrightarrow> registered d' dev"
  by (auto simp: UpsertDevice_def exec_stmt_None_iff registered_def split: if_splits)

lemma registered_exec:
  "exec_stmt p fail d r = (out, d') \<Longrightarrow> registered d dev \<Longrightarrow> registered (snd r) dev \<Longrightarrow> registered d' dev"
  using exec_stmt_tables [of p fail d r] by auto

lemma registered_step:
  assumes "repo_step d c d'" and "registered d dev"
  shows "registered d' dev"
proof -
  have "devices d' = devices d \<or> (\<exists>r. devices d' = devices d @ [r])"
    using assms(1)
    by (induction rule: repo_step.induct)
      (auto simp: UpsertDevice_def SaveRefreshToken_def RevokeRefreshToken_def InsertEvent_def insert_stmt_def
        UpdateEventStatus_def mark_event_def UpsertEmployee_def SetEmployeeFaceEnrolled_def exec_stmt_def
        split: if_splits option.splits fault.splits)
  with assms(2) show ?thesis by (auto simp: registered_def)
qed

lemma registered_runs: "runs repo_step d cs d' \<Longrightarrow> registered d dev \<Longrightarrow> registered d' dev"
  by (induction rule: runs.induct) (auto intro: registered_step)

text \<open>A server that answers: no faults, every row read, fresh canonical identifiers.\<close>

definition answering :: "checkin_env \<Rightarrow> db \<Rightarrow> bool" where
  "answering ce d \<longleftrightarrow> pg_fault (q_pg ce) = None \<and> pg_fault (i_pg ce) = None
     \<and> pg_uuid_in (i_pg ce) (newid ce) = Some (newid ce) \<and> newid ce \<notin> e_id ` set (attendance_events d)"

lemma CheckIn_succeeds:
  assumes "wf_db d" and "answering ce d" and "\<forall>t. mset (pg_scan (q_pg ce) t) = mset t"
    and "registered d dev" and "u \<noteq> []" and "dev \<noteq> []"
  shows "\<exists>evt d'. CheckIn sv ce d u dev loc img = (Inr evt, d')"
proof (cases "RecentEvent (q_pg ce) d u dev (dedupWindow sv)")
  case (Inl er)
  then show ?thesis
    using RecentEvent_cases [OF assms(1) _ assms(3), of u dev "dedupWindow sv"] assms(2) by (simp add: answering_def)
next
  case (Inr found)
  then show ?thesis
    using assms(2,4-6)
    by (cases found) (auto simp: CheckIn_def InsertEvent_def insert_stmt_def answering_def)
qed

text \<open>What a registration that is answered with 201 has done.\<close>

lemma register_device_ok:
  assumes "register_device l s e c d = (rep, d')" and "fst rep = 201"
    and "bindRegister (lib_gin l) (c_body c) = Inr dev"
  obtains pair where "registered d' dev"
    "Issue (lib_jwt l) (v_clk e) dev ''device'' (JWTIssuer (sv_cfg s)) (JWTSigningKey (sv_cfg s))
       (AccessTTL (sv_cfg s)) (RefreshTTL (sv_cfg s)) = Inr pair"
    "snd rep = H [(''access_token'', HStr (AccessToken pair)), (''refresh_token'', HStr (RefreshToken pair)),
       (''expires_at'', HInt (AccessExp pair div Second))]"
proof -
  from assms obtain d1 pair where "RegisterDevice (v_pg1 e) d dev = (None, d1)"
    and pair: "Issue (lib_jwt l) (v_clk e) dev ''device'' (JWTIssuer (sv_cfg s)) (JWTSigningKey (sv_cfg s))
       (AccessTTL (sv_cfg s)) (RefreshTTL (sv_cfg s)) = Inr pair"
    and rep: "snd rep = H [(''access_token'', HStr (AccessToken pair)), (''refresh_token'', HStr (RefreshToken pair)),
       (''expires_at'', HInt (AccessExp pair div Second))]"
    and d': "d' = snd (SaveRefreshToken (v_pg2 e) d1 dev (RefreshToken pair) (RefreshExp pair))"
    by (auto simp: register_device_def split: prod.splits option.splits sum.splits)
  then have "registered d1 dev" by (auto simp: RegisterDevice_def intro: UpsertDevice_registered split: if_splits)
  then have "registered d' dev" unfolding d' by (rule registered_step [OF SaveRefreshToken_step])
  from that [OF this pair rep] show ?thesis .
qed

lemma serve_register_ok:
  assumes "serve l s e c st = (resp, st')" and "route_of c = Some RegisterRoute" and "status resp = 201"
  shows "register_device l s e c (api_db st) = ((201, payload resp), api_db st')"
  using assms(1)
proof (cases rule: serve_cases)
  case (passed rep)
  from passed(3) show ?thesis
    by (cases rule: dispatch_cases) (use assms(2,3) passed(4,5) in \<open>auto simp: protected_def prod_eq_iff\<close>)
qed (use assms(3) in auto)

lemma serve_authorized:
  assumes "route_of c = Some r" and "protected r"
    and "\<not> fst (rate_limited (lib_oor l) (api_limiter st) (c_ip c) (v_now_limit e))"
    and "DeviceAuth (lib_lower l) (lib_jwt l) (v_now_auth e) (JWTSigningKey (sv_cfg s)) (JWTIssuer (sv_cfg s))
      (c_authz c) = auth_outcome.Continue claims"
  shows "status (fst (serve l s e c st)) = fst (fst (auth_handler l s e claims c r (api_db st) (api_queue st)))"
proof -
  have "dispatch l s e c (api_db st) (api_queue st) = auth_handler l s e claims c r (api_db st) (api_queue st)"
    using assms(1,2,4) by (simp add: dispatch_def)
  then show ?thesis
    using assms(3) protected_method [OF assms(1)]
    by (cases "rate_limited (lib_oor l) (api_limiter st) (c_ip c) (v_now_limit e)")
      (auto simp: serve_def corsMiddleware_def Let_def split: prod.splits)
qed

section \<open>Properties\<close>

text \<open>
  C2. A request to a protected route gets an answer other than 401 and 429, or changes the tables or
  the queue, only if it carries, after a bearer prefix, a token signed by HS256 with the configured
  key that has not expired and names the configured issuer.
\<close>

theorem protected_routes_need_token:
  assumes "jwt_laws (lib_jwt l) verified" and "lower_table (lib_lower l)"
    and "serve l s e c st = (resp, st')" and "route_of c = Some r" and "protected r"
    and "status resp \<notin> {401, 429} \<or> api_db st' \<noteq> api_db st \<or> api_queue st' \<noteq> api_queue st"
  shows "\<exists>claims. map lower_byte (take (length ''bearer '') (c_authz c)) = ''bearer ''
    \<and> verified HS256 (JWTSigningKey (sv_cfg s)) (TrimSpace (drop (length ''bearer '') (c_authz c))) claims
    \<and> unexpired (v_now_auth e) claims
    \<and> (JWTIssuer (sv_cfg s) = [] \<or> Issuer claims = JWTIssuer (sv_cfg s))"
  using assms(3)
proof (cases rule: serve_cases)
  case preflight
  with protected_method [OF assms(4)] show ?thesis by simp
next
  case limited
  with assms(6) show ?thesis by simp
next
  case (passed rep)
  from passed(3) show ?thesis
  proof (cases rule: dispatch_cases)
    case (authorized r' claims)
    from DeviceAuth_ContinueD [OF assms(1,2) authorized(3)] show ?thesis by (intro exI [of _ claims]) simp
  qed (use assms(4-6) passed(4) in auto)
qed

text \<open>
  C3. A message is published only for an accepted check-in. A check-in that is answered with 202 was
  sent with a valid token of the device it names (or a token without a subject); the event of the
  answer is stored for the user and the device of the request; and the one message published is its
  identifier.
\<close>

theorem accepted_checkin:
  assumes "jwt_laws (lib_jwt l) verified" and "lower_table (lib_lower l)" and "wf_db (api_db st)"
    and "\<forall>t. mset (pg_scan (q_pg (v_checkin e)) t) = mset t"
    and "pg_uuid_in (i_pg (v_checkin e)) (newid (v_checkin e)) = Some (newid (v_checkin e))"
    and "serve l s e c st = (resp, st')"
    and "api_queue st' \<noteq> api_queue st \<or> route_of c = Some CheckinRoute \<and> status resp = 202"
  shows "route_of c = Some CheckinRoute \<and> status resp = 202 \<and>
    (\<exists>claims req evt.
       verified HS256 (JWTSigningKey (sv_cfg s)) (TrimSpace (drop (length ''bearer '') (c_authz c))) claims
     \<and> unexpired (v_now_auth e) claims
     \<and> bindCheckin (lib_gin l) (c_body c) = Inr req
     \<and> (Subject claims = [] \<or> Subject claims = r_device req)
     \<and> UserID evt = r_user req \<and> DeviceID evt = r_device req \<and> stored (api_db st') evt
     \<and> payload resp = H [(''event_id'', HStr (ID evt)), (''when'', HTime (When evt)), (''status'', HStr (Status evt))]
     \<and> api_queue st' = snd (v_publish e \<lparr>Type = ''checkin'', Body = ID evt\<rparr> (api_queue st)))"
proof -
  from serve_accepted [OF assms(6,7)] obtain claims req evt where
    route: "route_of c = Some CheckinRoute" "status resp = 202"
    and auth: "DeviceAuth (lib_lower l) (lib_jwt l) (v_now_auth e) (JWTSigningKey (sv_cfg s)) (JWTIssuer (sv_cfg s))
      (c_authz c) = auth_outcome.Continue claims"
    and req: "bindCheckin (lib_gin l) (c_body c) = Inr req" "Subject claims = [] \<or> Subject claims = r_device req"
    and evt: "CheckIn (sv_att s) (v_checkin e) (api_db st) (r_user req) (r_device req) (r_location req) (r_image req)
      = (Inr evt, api_db st')"
    and out: "payload resp = H [(''event_id'', HStr (ID evt)), (''when'', HTime (When evt)), (''status'', HStr (Status evt))]"
      "api_queue st' = snd (v_publish e \<lparr>Type = ''checkin'', Body = ID evt\<rparr> (api_queue st))"
    by blast
  from DeviceAuth_ContinueD [OF assms(1,2) auth] CheckIn_stored [OF assms(3-5) evt] show ?thesis
    by (intro conjI route, intro exI [of _ claims] exI [of _ req] exI [of _ evt]) (simp add: req out)
qed

text \<open>
  C4. A device that registered with the answer 201 can check in: with the access token of that
  answer, before the second of its expiry, over a server that answers and below the rate limit, its
  check-in for any user is answered with 202, whatever other calls came in between.
\<close>

theorem registered_device_checks_in:
  assumes laws: "jwt_laws (lib_jwt l) verified" "gin_laws (lib_gin l)"
    and reg: "serve l s e c st = (resp, st1)" "route_of c = Some RegisterRoute" "status resp = 201"
      "bindRegister (lib_gin l) (c_body c) = Inr dev"
    and tok: "payload resp = H kvs" "map_of kvs ''access_token'' = Some (HStr tok)" "visible tok"
    and utf8: "valid_utf8 dev" "valid_utf8 (JWTIssuer (sv_cfg s))"
    and between: "wf_db (api_db st)" "runs repo_step (api_db st1) cs (api_db st2)"
    and chk: "route_of c' = Some CheckinRoute" "c_authz c' = ''Bearer '' @ tok"
      "bindCheckin (lib_gin l) (c_body c') = Inr req" "r_device req = dev"
    and env: "v_now_auth e' < (v_clk e 0 + AccessTTL (sv_cfg s)) div Second * Second"
      "\<not> fst (rate_limited (lib_oor l) (api_limiter st2) (c_ip c') (v_now_limit e'))"
      "answering (v_checkin e') (api_db st2)" "\<forall>t. mset (pg_scan (q_pg (v_checkin e')) t) = mset t"
  shows "status (fst (serve l s e' c' st2)) = 202"
proof -
  have reg_ok: "register_device l s e c (api_db st) = ((201, payload resp), api_db st1)"
    using reg(1-3) by (rule serve_register_ok)
  have "fst (201, payload resp) = (201 :: int)" by simp
  from reg_ok this reg(4) obtain pair where registered: "registered (api_db st1) dev"
    and issue: "Issue (lib_jwt l) (v_clk e) dev ''device'' (JWTIssuer (sv_cfg s)) (JWTSigningKey (sv_cfg s))
       (AccessTTL (sv_cfg s)) (RefreshTTL (sv_cfg s)) = Inr pair"
    and body: "snd (201 :: int, payload resp) = H [(''access_token'', HStr (AccessToken pair)),
       (''refresh_token'', HStr (RefreshToken pair)), (''expires_at'', HInt (AccessExp pair div Second))]"
    by (rule register_device_ok)
  have access: "tok = AccessToken pair" using body tok(1,2) by auto
  have "valid_utf8 ''device''" by (simp add: valid_utf8_ascii ascii_def)
  from Issue_InrD [OF laws(1) issue utf8(1) this utf8(2)] obtain i where
    verified: "verified HS256 (JWTSigningKey (sv_cfg s)) tok
      (issued_claims dev ''device'' (JWTIssuer (sv_cfg s)) (AccessExp pair) i)"
    and until: "AccessExp pair = v_clk e 0 + AccessTTL (sv_cfg s)" unfolding access by blast
  let ?claims = "issued_claims dev ''device'' (JWTIssuer (sv_cfg s)) (AccessExp pair) i"
  have auth: "DeviceAuth (lib_lower l) (lib_jwt l) (v_now_auth e') (JWTSigningKey (sv_cfg s)) (JWTIssuer (sv_cfg s))
      (c_authz c') = auth_outcome.Continue ?claims"
    using DeviceAuth_issued [OF laws(1) verified tok(3)] env(1) until chk(2) by simp
  have req: "r_user req \<noteq> []" "r_device req \<noteq> []"
    using laws(2) binds_InrD [OF _ chk(3)] unfolding gin_laws_def by blast+
  obtain cs' where "runs repo_step (api_db st) cs' (api_db st1)" using serve_runs [OF reg(1)] by blast
  with between have "wf_db (api_db st2)" by (blast intro: repo.inv_runs)
  from CheckIn_succeeds [OF this env(3,4) registered_runs [OF between(2) registered]] req chk(4)
  obtain evt d' where "CheckIn (sv_att s) (v_checkin e') (api_db st2) (r_user req) (r_device req)
      (r_location req) (r_image req) = (Inr evt, d')" by metis
  then have "fst (fst (checkins l s e' ?claims c' (api_db st2) (api_queue st2))) = 202"
    using chk(3,4) by (simp add: checkins_def issued_claims_def)
  then show ?thesis
    using serve_authorized [where st = st2, OF chk(1) _ env(2) auth] by (simp add: protected_def)
qed

section \<open>A world for the witnesses\<close>

text \<open>
  The JWT library with two tokens, a binding by the JSON reader itself, a server without faults, a
  queue that is a list; one device that registers and then sends one check-in.
\<close>

definition bind_with :: "'s field list \<Rightarrow> 's \<Rightarrow> ('s \<Rightarrow> bool) \<Rightarrow> bytes \<Rightarrow> 's result" where
  "bind_with fs zero required b =
     (case decode_body fs b zero of
        Some x \<Rightarrow> if required x then Inr x else Inl (Errorf ''required'')
      | None \<Rightarrow> Inl (Errorf ''invalid''))"

definition json_gin :: gin_lib where
  "json_gin = \<lparr>bindRegister = bind_with register_fields [] (\<lambda>x. x \<noteq> []),
     bindCheckin = bind_with checkin_fields checkin_zero (\<lambda>r. r_user r \<noteq> [] \<and> r_device r \<noteq> []),
     bindUpload = bind_with upload_body_fields [] (\<lambda>x. x \<noteq> [])\<rparr>"

lemma json_gin_laws: "gin_laws json_gin"
  by (simp add: gin_laws_def json_gin_def binds_def bind_with_def split: option.split)

definition gate_libs :: libs where
  "gate_libs = \<lparr>lib_oor = (\<lambda>_. 0), lib_lower = (\<lambda>r. r), lib_jwt = two_jwt, lib_gin = json_gin\<rparr>"

definition gate_cfg :: App where
  "gate_cfg = (Load Map.empty)\<lparr>JWTIssuer := ''iss'', JWTSigningKey := ''k'', AccessTTL := Minute, RefreshTTL := 2 * Minute\<rparr>"

definition gate_server :: server where
  "gate_server =
     \<lparr>sv_cfg = gate_cfg, sv_release = False,
      sv_db = Some \<lparr>db_Client = Some \<lparr>dsn = DatabaseURL gate_cfg, MaxOpenConns = 10, MaxIdleConns = 5,
        ConnMaxLifetime = Hour\<rparr>\<rparr>,
      sv_redis = NewRedis ''localhost:6379'', sv_queue = select_queue gate_cfg, sv_att = NewService (5 * Minute),
      sv_cdn = None\<rparr>"

definition gate_api_with :: "'q \<Rightarrow> 'q api" where
  "gate_api_with q = \<lparr>api_db = empty_db, api_limiter = NewSimpleTokenBucket 120 120, api_queue = q\<rparr>"

abbreviation gate_api :: "message list api" where
  "gate_api \<equiv> gate_api_with []"

definition gate_env_with :: "(message \<Rightarrow> 'q \<Rightarrow> err \<times> 'q) \<Rightarrow> 'q req_env" where
  "gate_env_with pub = \<lparr>v_now_limit = 0, v_now_auth = 0, v_clk = (\<lambda>_. 0), v_pg1 = plain_pg 0, v_pg2 = plain_pg 0,
     v_checkin = at_gate 1000000000000 ''u1'', v_upload = one_upload, v_publish = pub,
     v_ping = (\<lambda>_. None), v_outside = (200, [])\<rparr>"

abbreviation gate_env :: "message list req_env" where
  "gate_env \<equiv> gate_env_with (\<lambda>m q. (None, q @ [m]))"

definition gate_request :: "string \<Rightarrow> string \<Rightarrow> (string \<times> string) list \<Rightarrow> request" where
  "gate_request p authz body = \<lparr>c_method = ''POST'', c_pattern = Some p, c_origin = [], c_authz = authz, c_ip = ''ip'',
     c_content_type = ''application/json'', c_query = (\<lambda>_. []), c_id = [], c_file = None, c_body = Marshal_map body\<rparr>"

definition reg_request :: request where
  "reg_request = gate_request ''/v1/devices/register'' [] [(''device_id'', ''gate'')]"

definition chk_request :: request where
  "chk_request = gate_request ''/v1/checkins'' ''Bearer acc'' [(''device_id'', ''gate''), (''user_id'', ''ann'')]"

lemma gate_cfg_simps [simp]:
  "JWTIssuer gate_cfg = ''iss''" "JWTSigningKey gate_cfg = ''k''" "AccessTTL gate_cfg = Minute"
  "RefreshTTL gate_cfg = 2 * Minute" "RateLimitPerMin gate_cfg = 120"
  "QueueBackend gate_cfg = ''redis''" "RedisAddr gate_cfg = ''localhost:6379''" "CloudinaryCloudName gate_cfg = []"
  "Env gate_cfg = ''dev''"
  by (simp_all add: gate_cfg_def Load_def getEnv_def Getenv_def intEnv_def)

lemma gate_server_simps [simp]: "sv_cfg gate_server = gate_cfg" "sv_att gate_server = NewService (5 * Minute)"
  by (simp_all add: gate_server_def)

lemma gate_libs_simps [simp]:
  "lib_oor gate_libs = (\<lambda>_. 0)" "lib_lower gate_libs = (\<lambda>r. r)" "lib_jwt gate_libs = two_jwt" "lib_gin gate_libs = json_gin"
  by (simp_all add: gate_libs_def)

lemma gate_env_simps [simp]:
  "v_now_auth (gate_env_with pub) = 0" "v_now_limit (gate_env_with pub) = 0"
  "v_publish (gate_env_with pub) = pub" "v_checkin (gate_env_with pub) = at_gate 1000000000000 ''u1''"
  by (simp_all add: gate_env_with_def)

lemma to_utf8_ascii: "ascii s \<Longrightarrow> to_utf8 s = s"
  using valid_utf8_ascii by (simp add: to_utf8_def valid_utf8_def)

lemma reg_body: "bindRegister json_gin (c_body reg_request) = Inr ''gate''"
  by (simp add: json_gin_def bind_with_def decode_body_def reg_request_def gate_request_def Decode_Marshal_map
      to_utf8_ascii ascii_def decode_struct_def register_fields_def find_field_def store_string_def)

definition gate_checkin :: checkin_req where
  "gate_checkin = \<lparr>r_user = ''ann'', r_device = ''gate'', r_location = [], r_image = []\<rparr>"

lemma chk_body: "bindCheckin json_gin (c_body chk_request) = Inr gate_checkin"
  by (simp add: json_gin_def bind_with_def decode_body_def chk_request_def gate_request_def Decode_Marshal_map
      to_utf8_ascii ascii_def decode_struct_def checkin_fields_def checkin_zero_def gate_checkin_def find_field_def
      store_string_def)

lemma gate_routes: "route_of reg_request = Some RegisterRoute" "route_of chk_request = Some CheckinRoute"
  by (simp_all add: route_of_def routes_def reg_request_def chk_request_def gate_request_def)

definition registered_db :: db where
  "registered_db = gate_db\<lparr>refresh_tokens :=
     [\<lparr>t_device_id = ''gate'', t_token = ''ref'', t_expires_at = 2 * Minute, t_revoked = False\<rparr>]\<rparr>"

definition registered_api_with :: "'q \<Rightarrow> 'q api" where
  "registered_api_with q = (gate_api_with q)\<lparr>api_db := registered_db,
     api_limiter := (NewSimpleTokenBucket 120 120)\<lparr>state := [''ip'' \<mapsto> \<lparr>tokens = 119, last = 0\<rparr>]\<rparr>\<rparr>"

lemma registered_api_simps [simp]:
  "api_db (registered_api_with q) = registered_db" "api_queue (registered_api_with q) = q"
  by (simp_all add: registered_api_with_def gate_api_with_def)

abbreviation registered_api :: "message list api" where
  "registered_api \<equiv> registered_api_with []"

definition reg_response :: response where
  "reg_response = \<lparr>status = 201, headers = fst (corsMiddleware reg_request) @ securityHeaders False,
     payload = H [(''access_token'', HStr ''acc''), (''refresh_token'', HStr ''ref''), (''expires_at'', HInt 60)]\<rparr>"

lemma first_request: "rate_limited oor (NewSimpleTokenBucket 120 120) ''ip'' 0 =
    (False, (NewSimpleTokenBucket 120 120)\<lparr>state := [''ip'' \<mapsto> \<lparr>tokens = 119, last = 0\<rparr>]\<rparr>)"
  by (simp add: rate_limited_def allow_def NewSimpleTokenBucket_def i64_bounds)

lemma gate_register: "register_device gate_libs gate_server gate_env reg_request empty_db =
    ((201, payload reg_response), registered_db)"
proof -
  have "RegisterDevice (plain_pg 0) empty_db ''gate'' = (None, gate_db)"
    by (simp add: RegisterDevice_def gate_db_def UpsertDevice_def registered_def empty_db_def)
  moreover have "snd (SaveRefreshToken (plain_pg 0) gate_db ''gate'' ''ref'' (2 * Minute)) = registered_db"
    by (simp add: SaveRefreshToken_def registered_db_def gate_db_eq empty_db_def registered_def pg_time_def duration_units)
  moreover have "Minute div Second = 60" by (simp add: duration_units)
  ultimately show ?thesis
    by (simp add: register_device_def reg_body gate_env_with_def two_jwt_issue reg_response_def)
qed

lemma gate_registration: "serve gate_libs gate_server gate_env reg_request gate_api = (reg_response, registered_api)"
proof -
  have "dispatch gate_libs gate_server gate_env reg_request empty_db [] = ((201, payload reg_response), registered_db, [])"
    by (simp add: dispatch_def gate_routes protected_def gate_register)
  moreover have "c_ip reg_request = ''ip''" "c_method reg_request \<noteq> ''OPTIONS''" "sv_release gate_server = False"
    "v_now_limit gate_env = 0"
    by (simp_all add: reg_request_def gate_request_def gate_server_def gate_env_with_def)
  ultimately show ?thesis
    by (simp add: serve_def corsMiddleware_def first_request registered_api_with_def gate_api_with_def reg_response_def)
qed

lemma visible_acc: "visible ''acc''" by (simp add: visible_def)

lemma gate_answering: "answering (at_gate 1000000000000 ''u1'') registered_db"
  by (simp add: answering_def gate_env_with_def at_gate_def registered_db_def gate_db_eq empty_db_def)

lemma second_request: "\<not> fst (rate_limited (\<lambda>_. 0)
    ((NewSimpleTokenBucket 120 120)\<lparr>state := [''ip'' \<mapsto> \<lparr>tokens = 119, last = 0\<rparr>]\<rparr>) ''ip'' 0)"
proof -
  have "0 < tokens (refill_bucket (\<lambda>_. 0) 120 120 \<lparr>tokens = 119, last = 0\<rparr> 0)"
    by (simp add: refill_bucket_def refill_amount_def Sub_def sat_i64_def Minutes_def f64_defs f64_to_int_def quo_def rmd_def
        trunc_def i64_bounds rnd_of_int [of 0, simplified] Let_def)
  then show ?thesis by (simp add: rate_limited_def allow_def NewSimpleTokenBucket_def Let_def)
qed

theorem registered_device_checks_in_witness:
  "status (fst (serve gate_libs gate_server gate_env chk_request registered_api)) = 202"
proof (rule registered_device_checks_in [OF _ _ gate_registration gate_routes(1), where cs = "[]"
      and kvs = "[(''access_token'', HStr ''acc''), (''refresh_token'', HStr ''ref''), (''expires_at'', HInt 60)]"
      and tok = "''acc''" and dev = "''gate''" and req = gate_checkin and verified = two_verified])
  show "wf_db (api_db gate_api)" by (simp add: gate_api_with_def wf_empty_db)
  show "runs repo_step (api_db registered_api) [] (api_db registered_api)" by (rule runs_nil)
  show "c_authz chk_request = ''Bearer '' @ ''acc''" by (simp add: chk_request_def gate_request_def)
  show "v_now_auth gate_env < (v_clk gate_env 0 + AccessTTL (sv_cfg gate_server)) div Second * Second"
    by (simp add: gate_env_with_def duration_units)
  show "\<not> fst (rate_limited (lib_oor gate_libs) (api_limiter registered_api) (c_ip chk_request) (v_now_limit gate_env))"
    using second_request by (simp add: registered_api_with_def gate_api_with_def chk_request_def gate_request_def gate_env_with_def)
  show "\<forall>t. mset (pg_scan (q_pg (v_checkin gate_env)) t) = mset t" by (simp add: gate_env_with_def at_gate_def)
qed (simp_all add: two_jwt_laws json_gin_laws reg_body chk_body gate_routes visible_acc reg_response_def
    valid_utf8_ascii ascii_def gate_checkin_def gate_answering registered_api_with_def)

lemma gate_checkin_served: "status (fst (serve gate_libs gate_server (gate_env_with pub) chk_request (registered_api_with q))) = 202"
proof -
  have auth: "DeviceAuth (lib_lower gate_libs) (lib_jwt gate_libs) (v_now_auth (gate_env_with pub))
      (JWTSigningKey (sv_cfg gate_server)) (JWTIssuer (sv_cfg gate_server)) (c_authz chk_request)
      = auth_outcome.Continue (gate_claims Minute)"
    using gate_bearer by (simp add: gate_env_with_def chk_request_def gate_request_def)
  have wf: "wf_db registered_db"
    by (simp add: registered_db_def gate_db_eq empty_db_def wf_db_def registered_def)
  have "\<exists>evt d'. CheckIn (sv_att gate_server) (v_checkin (gate_env_with pub)) registered_db ''ann'' ''gate'' [] [] = (Inr evt, d')"
    unfolding gate_env_simps by (rule CheckIn_succeeds [OF wf gate_answering])
      (simp_all add: gate_env_with_def at_gate_def registered_db_def gate_db_eq registered_def)
  then have "fst (fst (auth_handler gate_libs gate_server (gate_env_with pub) (gate_claims Minute) chk_request CheckinRoute
      registered_db (api_queue (registered_api_with q)))) = 202"
    by (auto simp: checkins_def chk_body gate_checkin_def gate_claims_def issued_claims_def)
  moreover have limit: "\<not> fst (rate_limited (lib_oor gate_libs) (api_limiter (registered_api_with q)) (c_ip chk_request) (v_now_limit (gate_env_with pub)))"
    using second_request by (simp add: registered_api_with_def gate_api_with_def gate_api_with_def chk_request_def gate_request_def gate_env_with_def)
  ultimately show ?thesis
    by (subst serve_authorized [OF gate_routes(2) _ limit auth]) (simp_all add: protected_def registered_api_with_def gate_api_with_def)
qed

theorem protected_routes_need_token_witness:
  "\<exists>claims. two_verified HS256 ''k'' (TrimSpace ''acc'') claims \<and> unexpired 0 claims
     \<and> status (fst (serve gate_libs gate_server gate_env chk_request registered_api)) = 202"
proof -
  have "\<exists>claims. map lower_byte (take (length ''bearer '') (c_authz chk_request)) = ''bearer ''
    \<and> two_verified HS256 (JWTSigningKey (sv_cfg gate_server)) (TrimSpace (drop (length ''bearer '') (c_authz chk_request))) claims
    \<and> unexpired (v_now_auth gate_env) claims
    \<and> (JWTIssuer (sv_cfg gate_server) = [] \<or> Issuer claims = JWTIssuer (sv_cfg gate_server))"
    by (rule protected_routes_need_token [where l = gate_libs and st = registered_api, OF _ _ prod.collapse [symmetric] gate_routes(2)])
      (simp_all add: two_jwt_laws no_lowering protected_def gate_checkin_served)
  moreover have "c_authz chk_request = ''Bearer acc''" by (simp add: chk_request_def gate_request_def)
  ultimately show ?thesis using gate_checkin_served [of "\<lambda>m q. (None, q @ [m])" "[]"] by auto
qed

theorem accepted_checkin_witness:
  "\<exists>evt. UserID evt = ''ann'' \<and> DeviceID evt = ''gate''
     \<and> stored (api_db (snd (serve gate_libs gate_server gate_env chk_request registered_api))) evt
     \<and> api_queue (snd (serve gate_libs gate_server gate_env chk_request registered_api)) =
         [\<lparr>Type = ''checkin'', Body = ID evt\<rparr>]"
proof -
  have env: "\<forall>t. mset (pg_scan (q_pg (v_checkin gate_env)) t) = mset t"
    "pg_uuid_in (i_pg (v_checkin gate_env)) (newid (v_checkin gate_env)) = Some (newid (v_checkin gate_env))"
    by (simp_all add: gate_env_with_def at_gate_def)
  have wf: "wf_db (api_db registered_api)"
    by (simp add: registered_api_with_def registered_db_def gate_db_eq empty_db_def wf_db_def registered_def)
  have jwt: "jwt_laws (lib_jwt gate_libs) two_verified" "lower_table (lib_lower gate_libs)"
    by (simp_all add: two_jwt_laws no_lowering)
  from accepted_checkin [OF jwt wf env prod.collapse [symmetric]] gate_routes(2)
    gate_checkin_served [of "\<lambda>m q. (None, q @ [m])" "[]"]
  obtain req evt where "bindCheckin (lib_gin gate_libs) (c_body chk_request) = Inr req"
    "UserID evt = r_user req" "DeviceID evt = r_device req"
    "stored (api_db (snd (serve gate_libs gate_server gate_env chk_request registered_api))) evt"
    "api_queue (snd (serve gate_libs gate_server gate_env chk_request registered_api)) =
       snd (v_publish gate_env \<lparr>Type = ''checkin'', Body = ID evt\<rparr> (api_queue registered_api))"
    by blast
  then show ?thesis
    by (intro exI [of _ evt]) (auto simp: chk_body gate_checkin_def)
qed

text \<open>
  C5. From the start on, after any sequence of requests with any behaviour of their environment, the
  tables satisfy their constraints, no client has more tokens than the configured limit or fewer than
  none, and every event stored at the start is still stored.
\<close>

theorem api_state_kept:
  assumes "start_api cfg ginRelease sqlOpen ping = Serving s lm" and "0 < RateLimitPerMin cfg"
    and "RateLimitPerMin cfg < 2 ^ 31" and "wf_db (api_db st)" and "api_limiter st = lm"
    and "runs (api_step l s) st es st'"
  shows "wf_db (api_db st') \<and> keeps_events (api_db st) (api_db st')
    \<and> (\<forall>k b. state (api_limiter st') k = Some b \<longrightarrow> 0 \<le> tokens b \<and> tokens b \<le> capacity (api_limiter st'))"
proof -
  from assms(1) have "lm = NewSimpleTokenBucket (RateLimitPerMin cfg) (RateLimitPerMin cfg)"
    by (auto simp: start_api_def split: option.splits)
  with assms(2-5) have "api_fresh st"
    by (simp add: api_fresh_def fresh_limiter_def sane_def NewSimpleTokenBucket_def)
  then have "api_inv st'" using assms(6) by (rule api.inv_reachable)
  then show ?thesis using api_keeps_events [OF assms(6)] by (auto simp: api_inv_def wf_limiter_def)
qed

lemma gate_started: "start_api gate_cfg False (\<lambda>_. None) (\<lambda>_. None) = Serving gate_server (NewSimpleTokenBucket 120 120)"
  by (simp add: start_api_def NewDB_def gate_server_def release_mode_def cloud_client_def)

theorem api_state_kept_witness:
  "wf_db (api_db registered_api) \<and> keeps_events empty_db (api_db registered_api)"
proof -
  have "runs (api_step gate_libs gate_server) gate_api [(reg_request, reg_response)] registered_api"
    by (rule runs_single) (rule api_step.intros [OF gate_registration])
  from api_state_kept [OF gate_started _ _ _ _ this] show ?thesis
    by (simp add: gate_api_with_def wf_empty_db)
qed

text \<open>
  C33. The process panics at its start exactly when the connection string cannot be opened. Otherwise
  it serves, also when the database did not answer, and from then on the health check reports the
  database as healthy, whatever its state: the answer depends on Redis alone.
\<close>

theorem healthz_ignores_database:
  "(start_api cfg ginRelease sqlOpen ping = NilDereference \<longleftrightarrow> sqlOpen (DatabaseURL cfg) \<noteq> None)
   \<and> (start_api cfg ginRelease sqlOpen ping = Serving s lm \<longrightarrow>
        healthz s e =
          (let redis = (v_ping e \<lparr>Addr = RedisAddr cfg, DialTimeout = 2 * Second, ReadTimeout = Second,
                          WriteTimeout = Second\<rparr> = None)
           in (if redis then 200 else 503,
               H [(''status'', HStr ''ok''), (''redis'', HBool redis), (''db'', HBool True)])))"
  by (auto simp: start_api_def NewDB_def Let_def healthz_def Healthy_def NewRedis_def split: option.splits)

theorem healthz_ignores_database_witness:
  "\<exists>s lm. start_api gate_cfg False (\<lambda>_. None) (\<lambda>_. Some (Driver ''connection refused'')) = Serving s lm
     \<and> healthz s gate_env = (200, H [(''status'', HStr ''ok''), (''redis'', HBool True), (''db'', HBool True)])"
proof -
  obtain s lm where start: "start_api gate_cfg False (\<lambda>_. None) (\<lambda>_. Some (Driver ''connection refused'')) = Serving s lm"
    by (simp add: start_api_def NewDB_def)
  then have "healthz s gate_env = (200, H [(''status'', HStr ''ok''), (''redis'', HBool True), (''db'', HBool True)])"
    using healthz_ignores_database [of gate_cfg False "\<lambda>_. None" "\<lambda>_. Some (Driver ''connection refused'')" s lm gate_env]
    by (simp add: gate_env_with_def Let_def)
  with start show ?thesis by blast
qed

end
