(* ===== verification/Url.thy ===== *)
theory Url
  imports GoLib Json
begin

text \<open>
  \<open>url.Parse\<close> of Go's \<open>net/url\<close>, as far as the program looks at its result: whether there is an
  error, and the user, the password and the host. The path, the query and the fragment are read for
  their errors only. The lemma \<open>url_Parse_plain\<close> is the form that the configuration documents.
\<close>

section \<open>Unescaping\<close>

text \<open>The escaping modes: host, zone of an IPv6 host, and those without restrictions on characters.\<close>

datatype esc_mode = EncodeHost | EncodeZone | EncodeOther

definition alnum :: "char \<Rightarrow> bool" where
  "alnum c \<longleftrightarrow> digit c \<or> 65 \<le> byte c \<and> byte c \<le> 90 \<or> 97 \<le> byte c \<and> byte c \<le> 122"

text \<open>\<open>shouldEscape(c, encodeHost)\<close> and \<open>shouldEscape(c, encodeZone)\<close>.\<close>

definition shouldEscapeHost :: "char \<Rightarrow> bool" where
  "shouldEscapeHost c \<longleftrightarrow> \<not> (alnum c \<or> c \<in> set ''-_.~!$&()*+,;=:[]<>'' \<or> c = CHR 0x27 \<or> c = CHR 0x22)"

definition bad_escape :: "esc_mode \<Rightarrow> nat \<Rightarrow> nat \<Rightarrow> bool" where
  "bad_escape m h l \<longleftrightarrow>
     (case m of
        EncodeHost \<Rightarrow> h < 8 \<and> \<not> (h = 2 \<and> l = 5)
      | EncodeZone \<Rightarrow> \<not> (h = 2 \<and> l = 5) \<and> 16 * h + l \<noteq> 32 \<and> shouldEscapeHost (mk_byte (16 * h + l))
      | EncodeOther \<Rightarrow> False)"

definition bad_char :: "esc_mode \<Rightarrow> char \<Rightarrow> bool" where
  "bad_char m c \<longleftrightarrow> m \<noteq> EncodeOther \<and> byte c < 128 \<and> shouldEscapeHost c"

fun unescape :: "esc_mode \<Rightarrow> string \<Rightarrow> string option" where
  "unescape m [] = Some []"
| "unescape m (c # s) =
     (if c = CHR ''%''
      then (case s of
              a # b # r \<Rightarrow>
                (case (hex_value a, hex_value b) of
                   (Some h, Some l) \<Rightarrow>
                     if bad_escape m h l then None else map_option (Cons (mk_byte (16 * h + l))) (unescape m r)
                 | _ \<Rightarrow> None)
            | _ \<Rightarrow> None)
      else if bad_char m c then None
      else map_option (Cons c) (unescape m s))"

section \<open>The parts\<close>

text \<open>\<open>strings.Cut\<close> at one character, and at its last occurrence.\<close>

definition Cut :: "char \<Rightarrow> string \<Rightarrow> string \<times> string" where
  "Cut c s = (takeWhile (\<lambda>x. x \<noteq> c) s, tl (dropWhile (\<lambda>x. x \<noteq> c) s))"

definition CutLast :: "char \<Rightarrow> string \<Rightarrow> string \<times> string" where
  "CutLast c s = (case Cut c (rev s) of (a, b) \<Rightarrow> (rev b, rev a))"

definition stringContainsCTLByte :: "string \<Rightarrow> bool" where
  "stringContainsCTLByte s \<longleftrightarrow> list_ex (\<lambda>c. byte c < 32 \<or> byte c = 127) s"

text \<open>\<open>getScheme\<close>: None is the error; an empty scheme leaves the text as it is.\<close>

fun scheme_loop :: "string \<Rightarrow> string \<Rightarrow> string \<Rightarrow> (string \<times> string) option" where
  "scheme_loop whole acc [] = Some ([], whole)"
| "scheme_loop whole acc (c # s) =
     (if alnum c \<and> \<not> digit c then scheme_loop whole (acc @ [c]) s
      else if digit c \<or> c \<in> set ''+-.'' then
        (if acc = [] then Some ([], whole) else scheme_loop whole (acc @ [c]) s)
      else if c = CHR '':'' then (if acc = [] then None else Some (acc, s))
      else Some ([], whole))"

definition getScheme :: "string \<Rightarrow> (string \<times> string) option" where
  "getScheme s = scheme_loop s [] s"

definition validOptionalPort :: "string \<Rightarrow> bool" where
  "validOptionalPort p \<longleftrightarrow> p = [] \<or> hd p = CHR '':'' \<and> list_all digit (tl p)"

text \<open>\<open>host[:i]\<close> up to the escaped percent sign that begins a zone, and the rest.\<close>

fun split_zone :: "string \<Rightarrow> (string \<times> string) option" where
  "split_zone [] = None"
| "split_zone (c # s) =
     (if HasPrefix (c # s) ''%25'' then Some ([], c # s)
      else map_option (\<lambda>(a, b). (c # a, b)) (split_zone s))"

definition parseHost :: "string \<Rightarrow> string option" where
  "parseHost host =
     (if HasPrefix host ''['' then
        (if CHR '']'' \<notin> set host then None
         else case CutLast (CHR '']'') host of (inner, colonPort) \<Rightarrow>
           if \<not> validOptionalPort colonPort then None
           else (case split_zone inner of
             None \<Rightarrow> unescape EncodeHost host
           | Some (addr, zone) \<Rightarrow>
               (case (unescape EncodeHost addr, unescape EncodeZone zone, unescape EncodeHost (CHR '']'' # colonPort)) of
                  (Some h1, Some h2, Some h3) \<Rightarrow> Some (h1 @ h2 @ h3)
                | _ \<Rightarrow> None)))
      else if CHR '':'' \<in> set host \<and> \<not> validOptionalPort (CHR '':'' # snd (CutLast (CHR '':'') host)) then None
      else unescape EncodeHost host)"

definition validUserinfo :: "string \<Rightarrow> bool" where
  "validUserinfo s \<longleftrightarrow> list_all (\<lambda>c. alnum c \<or> c \<in> set ''-._:~!$&()*+,;=%@'' \<or> c = CHR 0x27) s"

record url_parts =
  u_Username :: string
  u_Password :: string
  u_Host :: string

text \<open>\<open>User\<close> is nil without user information; its methods return the empty string then.\<close>

definition parseAuthority :: "string \<Rightarrow> url_parts option" where
  "parseAuthority authority =
     (if CHR ''@'' \<notin> set authority
      then map_option (\<lambda>h. \<lparr>u_Username = [], u_Password = [], u_Host = h\<rparr>) (parseHost authority)
      else case CutLast (CHR ''@'') authority of (userinfo, host) \<Rightarrow>
        (case parseHost host of
           None \<Rightarrow> None
         | Some h \<Rightarrow>
             if \<not> validUserinfo userinfo then None
             else if CHR '':'' \<notin> set userinfo
             then map_option (\<lambda>u. \<lparr>u_Username = u, u_Password = [], u_Host = h\<rparr>) (unescape EncodeOther userinfo)
             else (case Cut (CHR '':'') userinfo of (username, password) \<Rightarrow>
               (case (unescape EncodeOther username, unescape EncodeOther password) of
                  (Some u, Some p) \<Rightarrow> Some \<lparr>u_Username = u, u_Password = p, u_Host = h\<rparr>
                | _ \<Rightarrow> None))))"

definition no_authority :: url_parts where
  "no_authority = \<lparr>u_Username = [], u_Password = [], u_Host = []\<rparr>"

text \<open>\<open>setPath\<close> fails on a malformed escape.\<close>

definition with_path :: "string \<Rightarrow> url_parts \<Rightarrow> url_parts option" where
  "with_path p u = (if unescape EncodeOther p = None then None else Some u)"

section \<open>The whole address\<close>

definition url_parse :: "string \<Rightarrow> url_parts option" where
  "url_parse raw =
     (if stringContainsCTLByte raw then None
      else if raw = ''*'' then Some no_authority
      else case getScheme raw of
        None \<Rightarrow> None
      | Some (scheme, rest0) \<Rightarrow>
          (let rest = fst (Cut (CHR ''?'') rest0)
           in if \<not> HasPrefix rest ''/'' \<and> scheme \<noteq> [] then Some no_authority
              else if \<not> HasPrefix rest ''/'' \<and> CHR '':'' \<in> set (fst (Cut (CHR ''/'') rest)) then None
              else if (scheme \<noteq> [] \<or> \<not> HasPrefix rest ''///'') \<and> HasPrefix rest ''//''
              then (let authority = takeWhile (\<lambda>c. c \<noteq> CHR ''/'') (drop 2 rest);
                        path = dropWhile (\<lambda>c. c \<noteq> CHR ''/'') (drop 2 rest)
                    in case parseAuthority authority of None \<Rightarrow> None | Some u \<Rightarrow> with_path path u)
              else with_path rest no_authority))"

definition url_Parse :: "string \<Rightarrow> url_parts option" where
  "url_Parse raw =
     (case Cut (CHR ''#'') raw of (u, frag) \<Rightarrow>
        (case url_parse u of
           None \<Rightarrow> None
         | Some p \<Rightarrow> if frag \<noteq> [] \<and> unescape EncodeOther frag = None then None else Some p))"

section \<open>Plain addresses\<close>

definition plain :: "string \<Rightarrow> bool" where
  "plain s \<longleftrightarrow> list_all (\<lambda>c. alnum c \<or> c \<in> set ''-_.'') s"

lemma plain_char:
  assumes "alnum c \<or> c \<in> set ''-_.''"
  shows "c \<noteq> CHR ''%''" "c \<noteq> CHR '':''" "c \<noteq> CHR ''@''" "c \<noteq> CHR ''/''" "c \<noteq> CHR ''?''" "c \<noteq> CHR ''#''" "c \<noteq> CHR ''[''"
    "32 \<le> byte c" "byte c \<noteq> 127" "\<not> shouldEscapeHost c"
  using assms by (auto simp: alnum_def digit_def shouldEscapeHost_def)

lemma plain_no_special:
  assumes "plain s"
  shows "CHR '':'' \<notin> set s" "CHR ''@'' \<notin> set s" "CHR ''/'' \<notin> set s" "CHR ''?'' \<notin> set s" "CHR ''#'' \<notin> set s"
    "\<not> stringContainsCTLByte s" "validUserinfo s" "\<not> HasPrefix s ''[''"
proof -
  have c: "alnum c \<or> c \<in> set ''-_.''" if "c \<in> set s" for c using assms that by (simp add: plain_def list_all_iff)
  show "CHR '':'' \<notin> set s" "CHR ''@'' \<notin> set s" "CHR ''/'' \<notin> set s" "CHR ''?'' \<notin> set s" "CHR ''#'' \<notin> set s"
    using plain_char [OF c] by blast+
  show "\<not> stringContainsCTLByte s"
    using plain_char(8,9) [OF c] by (auto simp: stringContainsCTLByte_def list_ex_iff not_less)
  show "validUserinfo s" using c by (auto simp: validUserinfo_def list_all_iff)
  show "\<not> HasPrefix s ''[''" using plain_char(7) [OF c] by (cases s) (auto simp: HasPrefix_def)
qed

lemma unescape_plain: "plain s \<Longrightarrow> unescape m s = Some s"
proof (induction s)
  case (Cons c s)
  then have "alnum c \<or> c \<in> set ''-_.''" "plain s" by (simp_all add: plain_def)
  with Cons.IH plain_char [of c] show ?case by (simp add: bad_char_def)
qed simp

lemma parseHost_plain: "plain s \<Longrightarrow> parseHost s = Some s"
  using plain_no_special [of s] by (simp add: parseHost_def unescape_plain)

lemma Cut_at: "c \<notin> set a \<Longrightarrow> Cut c (a @ c # b) = (a, b)"
  by (simp add: Cut_def takeWhile_append dropWhile_append)

lemma takeWhile_absent: "c \<notin> set a \<Longrightarrow> takeWhile (\<lambda>x. x \<noteq> c) a = a"
  by (induction a) auto

lemma dropWhile_absent: "c \<notin> set a \<Longrightarrow> dropWhile (\<lambda>x. x \<noteq> c) a = []"
  by (induction a) auto

lemma Cut_absent: "c \<notin> set a \<Longrightarrow> Cut c a = (a, [])"
  by (simp add: Cut_def takeWhile_absent dropWhile_absent)

lemma CutLast_at: "c \<notin> set b \<Longrightarrow> CutLast c (a @ c # b) = (a, b)"
  using Cut_at [of c "rev b" "rev a"] by (simp add: CutLast_def)

lemma parseAuthority_plain:
  assumes "plain k" and "plain p" and "plain h"
  shows "parseAuthority (k @ CHR '':'' # p @ CHR ''@'' # h) = Some \<lparr>u_Username = k, u_Password = p, u_Host = h\<rparr>"
proof -
  have "CutLast (CHR ''@'') ((k @ CHR '':'' # p) @ CHR ''@'' # h) = (k @ CHR '':'' # p, h)"
    by (rule CutLast_at) (use plain_no_special(2) [OF assms(3)] in simp)
  moreover have "validUserinfo (k @ CHR '':'' # p)"
    using plain_no_special(7) assms(1,2) by (simp add: validUserinfo_def)
  moreover have "Cut (CHR '':'') (k @ CHR '':'' # p) = (k, p)"
    by (rule Cut_at) (use plain_no_special(1) [OF assms(1)] in simp)
  ultimately show ?thesis using assms by (simp add: parseAuthority_def parseHost_plain unescape_plain)
qed

lemma url_Parse_authority:
  assumes "CHR ''/'' \<notin> set a" and "CHR ''?'' \<notin> set a" and "CHR ''#'' \<notin> set a" and "\<not> stringContainsCTLByte a"
  shows "url_Parse (''cloudinary://'' @ a) = parseAuthority a"
proof -
  have frag: "Cut (CHR ''#'') (''cloudinary://'' @ a) = (''cloudinary://'' @ a, [])"
    by (rule Cut_absent) (use assms in simp)
  have query: "Cut (CHR ''?'') (''//'' @ a) = (''//'' @ a, [])"
    by (rule Cut_absent) (use assms in simp)
  have ctl: "\<not> stringContainsCTLByte (''cloudinary://'' @ a)"
    using assms(4) by (simp add: stringContainsCTLByte_def)
  have scheme: "getScheme (''cloudinary://'' @ a) = Some (''cloudinary'', ''//'' @ a)"
    by (simp add: getScheme_def alnum_def digit_def)
  have "url_parse (''cloudinary://'' @ a) = parseAuthority a"
    using ctl scheme query assms(1)
    by (simp add: url_parse_def HasPrefix_def with_path_def Let_def takeWhile_absent dropWhile_absent split: option.split)
  then show ?thesis using frag by (simp add: url_Parse_def split: option.split)
qed

lemma url_Parse_plain:
  assumes "plain k" and "plain p" and "plain h"
  shows "url_Parse (''cloudinary://'' @ k @ CHR '':'' # p @ CHR ''@'' # h) =
    Some \<lparr>u_Username = k, u_Password = p, u_Host = h\<rparr>"
proof -
  note ctl = plain_no_special(6)
  show ?thesis
    unfolding parseAuthority_plain [OF assms, symmetric]
    by (rule url_Parse_authority)
      (use plain_no_special(3-5) assms ctl [OF assms(1)] ctl [OF assms(2)] ctl [OF assms(3)] in
        \<open>simp_all add: stringContainsCTLByte_def\<close>)
qed

lemma url_Parse_bad_port:
  assumes "plain k" and "plain p" and "plain h"
  shows "url_Parse (''cloudinary://'' @ k @ CHR '':'' # p @ CHR ''@'' # h @ '':x'') = None"
proof -
  note ctl = plain_no_special(6)
  have "CutLast (CHR ''@'') ((k @ CHR '':'' # p) @ CHR ''@'' # h @ '':x'') = (k @ CHR '':'' # p, h @ '':x'')"
    by (rule CutLast_at) (use plain_no_special(2) [OF assms(3)] in simp)
  moreover have "CutLast (CHR '':'') (h @ '':x'') = (h, ''x'')"
    using CutLast_at [of "CHR '':''" "''x''" h] by simp
  then have "parseHost (h @ '':x'') = None"
    using plain_no_special(8) [OF assms(3)]
    by (cases h) (simp_all add: parseHost_def HasPrefix_def validOptionalPort_def digit_def)
  ultimately have "parseAuthority (k @ CHR '':'' # p @ CHR ''@'' # h @ '':x'') = None"
    by (simp add: parseAuthority_def)
  moreover have "url_Parse (''cloudinary://'' @ k @ CHR '':'' # p @ CHR ''@'' # h @ '':x'')
      = parseAuthority (k @ CHR '':'' # p @ CHR ''@'' # h @ '':x'')"
    by (rule url_Parse_authority)
      (use plain_no_special(3-5) assms ctl [OF assms(1)] ctl [OF assms(2)] ctl [OF assms(3)] in
        \<open>simp_all add: stringContainsCTLByte_def\<close>)
  ultimately show ?thesis by simp
qed

end
