(* ===== verification/SchoolApi.thy ===== *)
theory SchoolApi
  imports SchoolStore SchoolClients Config
begin

text \<open>
  The second backend: the handlers of \<open>src/newGoAttend/backend/internal/handler/handler.go\<close> and the
  start and the routes of \<open>cmd/server/main.go\<close>. What gin makes of a request (the bound form, the
  file, the parameters) is part of the request, what the engine, the services and the clock do
  during it an argument. A handler yields its reply, the tables and, for a registration, what the
  face service answered if it was called. The lemmas: the tables only grow and every record is of a
  student in them; what a face login that succeeds has done; a student who is registered cannot be
  registered again.
\<close>

section \<open>Requests and replies\<close>

record registerRequest =
  rg_Name :: string
  rg_Email :: string
  rg_StudentID :: string
  rg_Department :: string

text \<open>\<open>sr_limit\<close>: the query parameter, if it is there.\<close>

record school_request =
  sr_method :: string
  sr_pattern :: "string option"
  sr_form :: "registerRequest result"
  sr_photo :: "(string \<times> bytes result) option"
  sr_id :: string
  sr_limit :: "string option"

datatype sval = SStr string | SErr error | SPrefixed string error | SBool bool | SStudent Student
  | SRecord AttendanceRecord

datatype school_payload = SH "(string \<times> sval) list" | StudentJSON Student | StudentsJSON "Student list"
  | RecordsJSON "AttendanceRecord list" | FileBody string

type_synonym school_reply = "int \<times> school_payload"

record school_env =
  se_cloud :: transport
  se_face :: transport
  se_boundary :: string
  se_boundary2 :: string
  se_sq1 :: sqlite
  se_sq2 :: sqlite
  se_id :: string
  se_now :: time
  se_file :: "string \<Rightarrow> int"

record Handler =
  cloud :: "SchoolCloud option"
  faceClient :: "SchoolFace option"

section \<open>Handlers\<close>

definition school_healthz :: school_reply where
  "school_healthz = (200, SH [(''status'', SStr ''ok'')])"

text \<open>Without Cloudinary the address stays empty.\<close>

definition upload_photo :: "Handler \<Rightarrow> school_env \<Rightarrow> string \<Rightarrow> bytes \<Rightarrow> string result" where
  "upload_photo h e filename photo =
     (case cloud h of
        None \<Rightarrow> Inr []
      | Some c \<Rightarrow>
          (case Upload c (se_cloud e) (se_boundary e) photo filename ''goattend/students'' of
             Inl er \<Rightarrow> Inl er
           | Inr result \<Rightarrow> Inr (cu_SecureURL result)))"

definition new_student :: "registerRequest \<Rightarrow> string \<Rightarrow> Student" where
  "new_student req photoURL =
     \<lparr>st_ID = [], st_Name = rg_Name req, st_Email = rg_Email req, st_StudentID = rg_StudentID req,
      st_Department = rg_Department req, st_PhotoURL = photoURL, st_CreatedAt = zero_time\<rparr>"

definition RegisterStudent ::
  "Handler \<Rightarrow> school_env \<Rightarrow> school_request \<Rightarrow> school \<Rightarrow> school_reply \<times> school \<times> RegisterResult result option" where
  "RegisterStudent h e c s =
     (case sr_form c of
        Inl er \<Rightarrow> ((400, SH [(''error'', SErr er)]), s, None)
      | Inr req \<Rightarrow>
          (case sr_photo c of
             None \<Rightarrow> ((400, SH [(''error'', SStr ''photo file is required'')]), s, None)
           | Some (filename, Inl _) \<Rightarrow> ((500, SH [(''error'', SStr ''failed to read photo'')]), s, None)
           | Some (filename, Inr photo) \<Rightarrow>
               (case upload_photo h e filename photo of
                  Inl _ \<Rightarrow> ((500, SH [(''error'', SStr ''failed to upload photo'')]), s, None)
                | Inr photoURL \<Rightarrow>
                    (case CreateStudent (se_sq1 e) (se_id e) (se_now e) s (new_student req photoURL) of
                       (Some er, st, s') \<Rightarrow>
                         ((409, SH [(''error'', SPrefixed ''student already exists: '' er)]), s', None)
                     | (None, st, s') \<Rightarrow>
                         ((201, StudentJSON st), s',
                          map_option (\<lambda>f. Register f (se_face e) (se_boundary2 e) (st_ID st) photo filename)
                            (faceClient h))))))"

definition FaceLogin :: "Handler \<Rightarrow> school_env \<Rightarrow> school_request \<Rightarrow> school \<Rightarrow> school_reply \<times> school" where
  "FaceLogin h e c s =
     (case sr_photo c of
        None \<Rightarrow> ((400, SH [(''error'', SStr ''photo file is required'')]), s)
      | Some (filename, Inl _) \<Rightarrow> ((500, SH [(''error'', SStr ''failed to read photo'')]), s)
      | Some (filename, Inr photo) \<Rightarrow>
          (case faceClient h of
             None \<Rightarrow> ((503, SH [(''error'', SStr ''face service not configured'')]), s)
           | Some f \<Rightarrow>
               (case Recognize f (se_face e) (se_boundary e) photo filename of
                  Inl _ \<Rightarrow> ((500, SH [(''error'', SStr ''face recognition failed'')]), s)
                | Inr result \<Rightarrow>
                    if \<not> Matched result
                    then ((401, SH [(''matched'', SBool False), (''error'', SStr ''face not recognized'')]), s)
                    else (case GetStudentByID (se_sq1 e) s (rc_StudentID result) of
                      (Some student, None) \<Rightarrow>
                        (case MarkAttendance (se_sq2 e) (se_id e) (se_now e) s (st_ID student) of
                           (rec, Some _, s') \<Rightarrow> ((500, SH [(''error'', SStr ''failed to mark attendance'')]), s')
                         | (rec, None, s') \<Rightarrow>
                             ((200, SH [(''matched'', SBool True), (''student'', SStudent student),
                                        (''attendance'', SRecord (rec\<lparr>ar_Name := st_Name student\<rparr>))]), s'))
                    | _ \<Rightarrow> ((404, SH [(''error'', SStr ''matched student not found in database'')]), s)))))"

definition list_students :: "school_env \<Rightarrow> school \<Rightarrow> school_reply" where
  "list_students e s =
     (case ListStudents (se_sq1 e) s of
        Inl er \<Rightarrow> (500, SH [(''error'', SErr er)])
      | Inr sts \<Rightarrow> (200, StudentsJSON sts))"

definition get_student :: "school_env \<Rightarrow> school_request \<Rightarrow> school \<Rightarrow> school_reply" where
  "get_student e c s =
     (case GetStudentByID (se_sq1 e) s (sr_id c) of
        (_, Some er) \<Rightarrow> (500, SH [(''error'', SErr er)])
      | (None, None) \<Rightarrow> (404, SH [(''error'', SStr ''student not found'')])
      | (Some st, None) \<Rightarrow> (200, StudentJSON st))"

text \<open>The error of \<open>Atoi\<close> is ignored: the limit is then 0, or the bound it exceeds.\<close>

definition list_attendance :: "school_env \<Rightarrow> school_request \<Rightarrow> school \<Rightarrow> school_reply" where
  "list_attendance e c s =
     (let limit = fst (Atoi (case sr_limit c of None \<Rightarrow> ''50'' | Some v \<Rightarrow> v))
      in case ListAttendance (se_sq1 e) s limit of
           Inl er \<Rightarrow> (500, SH [(''error'', SErr er)])
         | Inr recs \<Rightarrow> (200, RecordsJSON recs))"

section \<open>Start and routes\<close>

text \<open>\<open>main\<close>: an unreadable Cloudinary address only disables the uploads.\<close>

definition start_school ::
  "SchoolConfig \<Rightarrow> (string \<Rightarrow> string option) \<Rightarrow> string option \<Rightarrow> string option \<Rightarrow> school option \<Rightarrow> (Handler \<times> school) result"
where
  "start_school cfg sqlOpen ping exec file =
     (case NewStore sqlOpen ping exec file (DBPath cfg) of
        Inl er \<Rightarrow> Inl er
      | Inr s \<Rightarrow>
          Inr (\<lparr>cloud = (if CloudinaryURL cfg \<noteq> []
                         then (case NewSchoolCloud (CloudinaryURL cfg) of Inl _ \<Rightarrow> None | Inr c \<Rightarrow> Some c)
                         else None),
                faceClient = Some (NewSchoolFace (SchoolFaceServiceURL cfg))\<rparr>, s))"

datatype school_route = SHealthz | SRegister | SListStudents | SGetStudent | SFaceLogin | SListAttendance
  | SStatic string

definition school_routes :: "SchoolConfig \<Rightarrow> ((string \<times> string) \<times> school_route) list" where
  "school_routes cfg =
     [((''GET'', ''/api/healthz''), SHealthz),
      ((''POST'', ''/api/students''), SRegister),
      ((''GET'', ''/api/students''), SListStudents),
      ((''GET'', ''/api/students/:id''), SGetStudent),
      ((''POST'', ''/api/face-login''), SFaceLogin),
      ((''GET'', ''/api/attendance''), SListAttendance)]
     @ concat (map (\<lambda>m.
        [((m, ''/static/*filepath''), SStatic (FrontendDir cfg)),
         ((m, ''/''), SStatic (FrontendDir cfg @ ''/index.html'')),
         ((m, ''/register''), SStatic (FrontendDir cfg @ ''/pages/register.html'')),
         ((m, ''/attendance''), SStatic (FrontendDir cfg @ ''/pages/attendance.html'')),
         ((m, ''/students''), SStatic (FrontendDir cfg @ ''/pages/students.html''))]) [''GET'', ''HEAD''])"

definition school_match :: "SchoolConfig \<Rightarrow> school_request \<Rightarrow> school_route option" where
  "school_match cfg c =
     (case sr_pattern c of None \<Rightarrow> None | Some p \<Rightarrow> map_of (school_routes cfg) (sr_method c, p))"

text \<open>
  Files are answered by gin from the path given, with a status \<open>se_file\<close>; what is under no route is
  answered with the start page.
\<close>

definition school_serve ::
  "SchoolConfig \<Rightarrow> Handler \<Rightarrow> school_env \<Rightarrow> school_request \<Rightarrow> school \<Rightarrow> school_reply \<times> school" where
  "school_serve cfg h e c s =
     (case school_match cfg c of
        Some SHealthz \<Rightarrow> (school_healthz, s)
      | Some SRegister \<Rightarrow> (case RegisterStudent h e c s of (rep, s', _) \<Rightarrow> (rep, s'))
      | Some SListStudents \<Rightarrow> (list_students e s, s)
      | Some SGetStudent \<Rightarrow> (get_student e c s, s)
      | Some SFaceLogin \<Rightarrow> FaceLogin h e c s
      | Some SListAttendance \<Rightarrow> (list_attendance e c s, s)
      | Some (SStatic path) \<Rightarrow> ((se_file e path, FileBody path), s)
      | None \<Rightarrow> (let path = FrontendDir cfg @ ''/index.html'' in ((se_file e path, FileBody path), s)))"

section \<open>Cases of a request\<close>

lemma RegisterStudent_cases:
  assumes "RegisterStudent h e c s = (rep, s', fr)"
  obtains (refused) "fst rep \<in> {400, 500}" "s' = s" "fr = None"
  | (tried) req filename photo photoURL er st where "sr_form c = Inr req" "sr_photo c = Some (filename, Inr photo)"
      "upload_photo h e filename photo = Inr photoURL"
      "CreateStudent (se_sq1 e) (se_id e) (se_now e) s (new_student req photoURL) = (Some er, st, s')"
      "fst rep = 409" "fr = None"
  | (registered) req filename photo photoURL st where "sr_form c = Inr req" "sr_photo c = Some (filename, Inr photo)"
      "upload_photo h e filename photo = Inr photoURL"
      "CreateStudent (se_sq1 e) (se_id e) (se_now e) s (new_student req photoURL) = (None, st, s')"
      "rep = (201, StudentJSON st)"
  using assms
  by (auto simp: RegisterStudent_def split: sum.splits option.splits prod.splits)

lemma FaceLogin_cases:
  assumes "FaceLogin h e c s = (rep, s')"
  obtains (refused) "fst rep \<in> {400, 401, 404, 500, 503}" "s' = s"
  | (unmarked) sid rec er where "sid \<in> st_ID ` set (students s)"
      "MarkAttendance (se_sq2 e) (se_id e) (se_now e) s sid = (rec, Some er, s')" "fst rep = 500"
  | (marked) f filename photo result student rec where "sr_photo c = Some (filename, Inr photo)" "faceClient h = Some f"
      "Recognize f (se_face e) (se_boundary e) photo filename = Inr result" "Matched result"
      "student \<in> set (students s)" "st_ID student = rc_StudentID result"
      "MarkAttendance (se_sq2 e) (se_id e) (se_now e) s (st_ID student) = (rec, None, s')"
      "rep = (200, SH [(''matched'', SBool True), (''student'', SStudent student),
         (''attendance'', SRecord (rec\<lparr>ar_Name := st_Name student\<rparr>))])"
proof (cases "\<exists>filename photo f result student. sr_photo c = Some (filename, Inr photo) \<and> faceClient h = Some f
    \<and> Recognize f (se_face e) (se_boundary e) photo filename = Inr result \<and> Matched result
    \<and> GetStudentByID (se_sq1 e) s (rc_StudentID result) = (Some student, None)")
  case False
  with assms show ?thesis
    by (intro refused) (auto simp: FaceLogin_def split: option.splits prod.splits sum.splits if_splits)
next
  case True
  then obtain filename photo f result student where
    known: "sr_photo c = Some (filename, Inr photo)" "faceClient h = Some f"
      "Recognize f (se_face e) (se_boundary e) photo filename = Inr result" "Matched result"
    and got: "GetStudentByID (se_sq1 e) s (rc_StudentID result) = (Some student, None)" by blast
  from got have student: "student \<in> set (students s)" "st_ID student = rc_StudentID result"
    by (auto simp: GetStudentByID_def sq_query_def dest: row_find_SomeD split: sum.splits option.splits fault.splits)
  obtain rec er s1 where mark: "MarkAttendance (se_sq2 e) (se_id e) (se_now e) s (st_ID student) = (rec, er, s1)"
    by (metis prod_cases3)
  show ?thesis
  proof (cases er)
    case None
    have "FaceLogin h e c s = ((200, SH [(''matched'', SBool True), (''student'', SStudent student),
        (''attendance'', SRecord (rec\<lparr>ar_Name := st_Name student\<rparr>))]), s1)"
      using known got mark None by (simp add: FaceLogin_def)
    with assms mark None show ?thesis by (intro marked [OF known student]) auto
  next
    case (Some x)
    have "FaceLogin h e c s = ((500, SH [(''error'', SStr ''failed to mark attendance'')]), s1)"
      using known got mark Some by (simp add: FaceLogin_def)
    with assms mark Some student(1) show ?thesis by (intro unmarked [of "st_ID student"]) auto
  qed
qed

lemma RegisterStudent_wf:
  assumes "wf_school s" and "RegisterStudent h e c s = (rep, s', fr)"
  shows "wf_school s' \<and> grows s s'"
  using assms(2)
  by (cases rule: RegisterStudent_cases) (use assms(1) wf_CreateStudent in auto)

lemma FaceLogin_wf:
  assumes "wf_school s" and "FaceLogin h e c s = (rep, s')"
  shows "wf_school s' \<and> grows s s'"
  using assms(2)
proof (cases rule: FaceLogin_cases)
  case (unmarked sid rec er)
  show ?thesis using wf_MarkAttendance [OF assms(1) unmarked(1,2)] .
next
  case (marked f filename photo result student rec)
  from marked(5) have "st_ID student \<in> st_ID ` set (students s)" by simp
  with assms(1) show ?thesis using marked(7) by (rule wf_MarkAttendance)
qed (use assms(1) in simp)

lemma school_serve_wf:
  assumes "wf_school s" and "school_serve cfg h e c s = (rep, s')"
  shows "wf_school s' \<and> grows s s'"
  using assms(2) RegisterStudent_wf [OF assms(1)] FaceLogin_wf [OF assms(1)] assms(1)
  by (auto simp: school_serve_def Let_def split: option.splits school_route.splits prod.splits)

inductive school_step :: "SchoolConfig \<Rightarrow> Handler \<Rightarrow> school \<Rightarrow> school_request \<times> school_reply \<Rightarrow> school \<Rightarrow> bool"
  for cfg h where
  "school_serve cfg h e c s = (rep, s') \<Longrightarrow> school_step cfg h s (c, rep) s'"

interpretation school: invariant_system wf_school "school_step cfg h" wf_school for cfg h
  by unfold_locales (auto elim!: school_step.cases dest: school_serve_wf)

lemma school_runs_grow:
  "runs (school_step cfg h) s es s' \<Longrightarrow> wf_school s \<Longrightarrow> grows s s'"
proof (induction rule: runs.induct)
  case (runs_snoc s es t e u)
  have "wf_school t" using runs_snoc.hyps(1) runs_snoc.prems by (rule school.inv_runs)
  with runs_snoc.hyps(2) have "grows t u" by (auto elim!: school_step.cases dest: school_serve_wf)
  with runs_snoc show ?case by (blast intro: grows_trans)
qed simp

lemma conflict_grows: "conflict s st \<Longrightarrow> grows s t \<Longrightarrow> conflict t st"
  by (auto simp: conflict_def grows_def)

lemma start_school_wf:
  assumes "start_school cfg sqlOpen ping exec file = Inr (h, s)"
    and "case file of None \<Rightarrow> True | Some t \<Rightarrow> wf_school t"
  shows "wf_school s"
  using assms
  by (auto simp: start_school_def NewStore_def migrate_def wf_school_def unique_school_def known_students_def
      split: option.splits sum.splits)

section \<open>Properties\<close>

text \<open>
  C34. From its start on, whatever is requested and whatever goes wrong meanwhile, the identifiers,
  emails and student numbers in the tables are unique, every attendance record is of a student in
  the table although the engine does not enforce it, and rows are only added.
\<close>

theorem school_tables_kept:
  assumes "start_school cfg sqlOpen ping exec file = Inr (h, s)"
    and "case file of None \<Rightarrow> True | Some t \<Rightarrow> wf_school t"
    and "runs (school_step cfg h) s es s'"
  shows "wf_school s' \<and> grows s s'"
  using start_school_wf [OF assms(1,2)] assms(3) by (blast intro: school.inv_runs school_runs_grow)


text \<open>
  C36. A registration that was answered with 201 cannot be repeated: every later form with its email or
  its student number and a photo that uploads is answered with 409, without a call of the face
  service, whatever was requested in between. A face that the service failed to register therefore
  never gets registered.
\<close>

theorem registered_once:
  assumes "RegisterStudent h e c s = ((201, body), s1, fr)" and "sr_form c = Inr req"
    and "wf_school s" and "runs (school_step cfg h) s1 es s2"
    and "sr_form c' = Inr req'" and "rg_Email req' = rg_Email req \<or> rg_StudentID req' = rg_StudentID req"
    and "sr_photo c' = Some (filename, Inr photo)" and "upload_photo h e' filename photo = Inr photoURL"
  shows "\<exists>er s3. RegisterStudent h e' c' s2 =
    ((409, SH [(''error'', SPrefixed ''student already exists: '' er)]), s3, None)"
proof -
  from assms(1) obtain photoURL0 st where
    created: "CreateStudent (se_sq1 e) (se_id e) (se_now e) s (new_student req photoURL0) = (None, st, s1)"
    by (cases rule: RegisterStudent_cases) (use assms(2) in auto)
  from created have s1: "s1 = s\<lparr>students := students s @ [st]\<rparr>" by (cases rule: CreateStudent_cases) auto
  from created have st: "st_Email st = rg_Email req" "st_StudentID st = rg_StudentID req"
    by (auto simp: CreateStudent_def Let_def new_student_def split: prod.splits)
  let ?st = "(new_student req' photoURL)\<lparr>st_ID := se_id e', st_CreatedAt := se_now e'\<rparr>"
  have "conflict s1 ?st" using assms(6) st by (auto simp: conflict_def s1 new_student_def)
  moreover have "wf_school s1" using wf_CreateStudent [OF assms(3) created] by simp
  then have "grows s1 s2" using assms(4) by (blast intro: school_runs_grow)
  ultimately have "conflict s2 ?st" by (rule conflict_grows)
  then have "\<exists>er st' s3. CreateStudent (se_sq1 e') (se_id e') (se_now e') s2 (new_student req' photoURL) = (Some er, st', s3)"
    by (auto simp: CreateStudent_def Let_def sq_exec_def split: option.splits fault.splits)
  then show ?thesis using assms(5,7,8) by (auto simp: RegisterStudent_def)
qed

section \<open>A world for the witnesses\<close>

text \<open>An engine without faults, no cloud, and a face service that recognizes everybody as \<open>s1\<close>.\<close>

definition plain_sqlite :: sqlite where
  "plain_sqlite = \<lparr>sq_fault = None, sq_constraint = ''students.email'', sq_scan = (\<lambda>t. t), sq_join = (\<lambda>t. t)\<rparr>"

definition matched_text :: string where
  "matched_text = CHR ''{'' # quote_json ''matched'' @ '':true,'' @ quote_json ''student_id'' @ '':'' @ quote_json ''s1'' @ ''}''"

definition matching :: transport where
  "matching = \<lparr>newRequest = (\<lambda>_ _. None),
     http_Do = (\<lambda>_. Inr \<lparr>StatusCode = 200, rs_Status = ''200 OK'', rs_Body = matched_text\<rparr>)\<rparr>"

definition school_handler :: Handler where
  "school_handler = \<lparr>cloud = None, faceClient = Some (NewSchoolFace ''http://localhost:8000'')\<rparr>"

definition school_world :: "string \<Rightarrow> school_env" where
  "school_world i = \<lparr>se_cloud = matching, se_face = matching, se_boundary = ''b'', se_boundary2 = ''b'',
     se_sq1 = plain_sqlite, se_sq2 = plain_sqlite, se_id = i, se_now = 5, se_file = (\<lambda>_. 200)\<rparr>"

definition ann_form :: registerRequest where
  "ann_form = \<lparr>rg_Name = ''Ann'', rg_Email = ''ann@x.org'', rg_StudentID = ''7'', rg_Department = []\<rparr>"

definition school_post :: "string \<Rightarrow> school_request" where
  "school_post p = \<lparr>sr_method = ''POST'', sr_pattern = Some p, sr_form = Inr ann_form, sr_photo = Some (''a.jpg'', Inr ''x''),
     sr_id = [], sr_limit = None\<rparr>"

definition ann_student :: Student where
  "ann_student = (new_student ann_form [])\<lparr>st_ID := ''s1'', st_CreatedAt := 5\<rparr>"

definition ann_school :: school where
  "ann_school = \<lparr>students = [ann_student], attendance = []\<rparr>"

definition marked_school :: school where
  "marked_school = ann_school\<lparr>attendance := [mark_row ''r1'' 5 ''s1'']\<rparr>"

lemma ann_registers:
  "RegisterStudent school_handler (school_world ''s1'') (school_post ''/api/students'') \<lparr>students = [], attendance = []\<rparr> =
     ((201, StudentJSON ann_student), ann_school,
      Some (Register (NewSchoolFace ''http://localhost:8000'') matching ''b'' ''s1'' ''x'' ''a.jpg''))"
  by (simp add: RegisterStudent_def school_post_def upload_photo_def school_handler_def CreateStudent_def school_world_def
      plain_sqlite_def conflict_def ann_student_def ann_school_def new_student_def Let_def)

lemma matched_text_value:
  "Decode matched_text = Some (JObj [(''matched'', JBool True), (''student_id'', JStr ''s1'')])"
  unfolding matched_text_def by (subst Decode_fuel [where n = 200]) (simp_all add: json_eval)

lemma ann_recognized:
  "Recognize (NewSchoolFace u) matching b photo fn = Inr \<lparr>Matched = True, rc_StudentID = ''s1'', Distance = 0\<rparr>"
  by (simp add: Recognize_def post_parts_def http_Post_def matching_def decode_keep_def matched_text_value find_field_def
      recognize_fields_def store_bool_def store_string_def recognize_zero_def)

lemma ann_logs_in:
  "FaceLogin school_handler (school_world ''r1'') (school_post ''/api/face-login'') ann_school =
     ((200, SH [(''matched'', SBool True), (''student'', SStudent ann_student),
        (''attendance'', SRecord \<lparr>ar_ID = ''r1'', ar_StudentID = ''s1'', ar_Name = ''Ann'', ar_Timestamp = 5,
           ar_Status = ''present''\<rparr>)]), marked_school)"
  by (simp add: FaceLogin_def school_post_def school_handler_def school_world_def ann_recognized GetStudentByID_def sq_query_def
      plain_sqlite_def row_find_def ann_school_def ann_student_def new_student_def ann_form_def MarkAttendance_def
      mark_row_def marked_school_def Let_def)

lemma post_routes:
  "school_match cfg (school_post ''/api/students'') = Some SRegister"
  "school_match cfg (school_post ''/api/face-login'') = Some SFaceLogin"
  by (simp_all add: school_match_def school_post_def school_routes_def)


theorem registered_once_witness:
  "\<exists>er s3. RegisterStudent school_handler (school_world ''s2'') (school_post ''/api/students'') ann_school =
     ((409, SH [(''error'', SPrefixed ''student already exists: '' er)]), s3, None)"
  by (rule registered_once [OF ann_registers, where req = ann_form and req' = ann_form and es = "[]" and cfg = "LoadSchool Map.empty"
        and filename = "''a.jpg''" and photo = "''x''" and photoURL = "[]"])
    (simp_all add: school_post_def wf_school_def unique_school_def known_students_def runs_nil upload_photo_def school_handler_def)

theorem school_tables_kept_witness:
  "wf_school marked_school \<and> grows \<lparr>students = [], attendance = []\<rparr> marked_school"
proof -
  let ?cfg = "LoadSchool Map.empty"
  have "school_serve ?cfg school_handler (school_world ''s1'') (school_post ''/api/students'') \<lparr>students = [], attendance = []\<rparr>
      = ((201, StudentJSON ann_student), ann_school)"
    by (simp add: school_serve_def post_routes ann_registers)
  then have reg: "school_step ?cfg school_handler \<lparr>students = [], attendance = []\<rparr>
      (school_post ''/api/students'', (201, StudentJSON ann_student)) ann_school"
    by (rule school_step.intros)
  obtain rep where "school_serve ?cfg school_handler (school_world ''r1'') (school_post ''/api/face-login'') ann_school
      = (rep, marked_school)"
    by (simp add: school_serve_def post_routes ann_logs_in)
  then have login: "school_step ?cfg school_handler ann_school (school_post ''/api/face-login'', rep) marked_school"
    by (rule school_step.intros)
  have "start_school ?cfg (\<lambda>_. None) None None None = Inr (school_handler, \<lparr>students = [], attendance = []\<rparr>)"
    by (simp add: start_school_def NewStore_def migrate_def school_handler_def LoadSchool_def getEnv_def Getenv_def)
  from school_tables_kept [OF this _ runs_Cons [OF reg runs_single [of "school_step ?cfg school_handler", OF login]]]
  show ?thesis by simp
qed

end
