(* ===== verification/FastApi.thy ===== *)
theory FastApi
  imports JsonEncode GoHttp
begin

text \<open>
  What the two face services, written in Python over FastAPI, share: the outcome of a handler, the
  answer made of it, and Python's \<open>round\<close>. A reply is kept as a value; the bytes that FastAPI sends for
  it are an argument, of which \<open>renders\<close> says that they are JSON text for that value.
\<close>

section \<open>Outcomes and answers\<close>

text \<open>A value to be sent, an \<open>HTTPException\<close>, or an exception that nothing catches.\<close>

datatype py_outcome = Reply gval | HTTPException int string | Uncaught

record web =
  web_render :: "gval \<Rightarrow> bytes"
  web_reason :: "int \<Rightarrow> string"

definition answer :: "web \<Rightarrow> int \<Rightarrow> bytes \<Rightarrow> http_response" where
  "answer w code body = \<lparr>StatusCode = code, rs_Status = int_text code @ '' '' @ web_reason w code, rs_Body = body\<rparr>"

definition respond :: "web \<Rightarrow> py_outcome \<Rightarrow> http_response" where
  "respond w r =
     (case r of
        Reply g \<Rightarrow> answer w 200 (web_render w g)
      | HTTPException code detail \<Rightarrow> answer w code (web_render w (GMap [(''detail'', GString detail)]))
      | Uncaught \<Rightarrow> answer w 500 ''Internal Server Error'')"

section \<open>JSON text for a value\<close>

fun means :: "gval \<Rightarrow> json \<Rightarrow> bool" where
  "means GNil v = (v = JNull)"
| "means (GBool b) v = (v = JBool b)"
| "means (GInt i) v = (case v of JNum t \<Rightarrow> in_i64 i \<longrightarrow> Atoi t = (i, True) | _ \<Rightarrow> False)"
| "means (GFloat x) v = (case v of JNum t \<Rightarrow> float64_text t = Some x | _ \<Rightarrow> False)"
| "means (GString s) v = (v = JStr s)"
| "means (GSlice gs) v = (case v of JArr vs \<Rightarrow> list_all2 means gs vs | _ \<Rightarrow> False)"
| "means (GMap m) v = (case v of JObj ms \<Rightarrow> list_all2 (\<lambda>(k, g) (l, w). k = l \<and> means g w) m ms | _ \<Rightarrow> False)"

lemma means_iffs:
  "means (GInt i) v \<longleftrightarrow> (\<exists>t. v = JNum t \<and> (in_i64 i \<longrightarrow> Atoi t = (i, True)))"
  "means (GFloat x) v \<longleftrightarrow> (\<exists>t. v = JNum t \<and> float64_text t = Some x)"
  "means (GSlice gs) v \<longleftrightarrow> (\<exists>vs. v = JArr vs \<and> list_all2 means gs vs)"
  "means (GMap m) v \<longleftrightarrow> (\<exists>ms. v = JObj ms \<and> list_all2 (\<lambda>(k, g) (l, w). k = l \<and> means g w) m ms)"
  by (cases v; simp)+

declare means.simps(3,4,6,7) [simp del]

fun utf8_ok :: "gval \<Rightarrow> bool" where
  "utf8_ok (GString s) = (to_utf8 s = s)"
| "utf8_ok (GSlice vs) = list_all utf8_ok vs"
| "utf8_ok (GMap m) = list_all (\<lambda>(k, v). to_utf8 k = k \<and> utf8_ok v) m"
| "utf8_ok _ = True"

definition sendable :: "gval \<Rightarrow> bool" where
  "sendable g \<longleftrightarrow> floats_ok g \<and> utf8_ok g \<and> depth g \<le> 100"

definition renders :: "(gval \<Rightarrow> bytes) \<Rightarrow> bool" where
  "renders r \<longleftrightarrow> (\<forall>g. sendable g \<longrightarrow> (\<exists>v. Decode (r g) = Some v \<and> means g v))"

lemma rendersD: "renders r \<Longrightarrow> sendable g \<Longrightarrow> \<exists>v. Decode (r g) = Some v \<and> means g v"
  by (simp add: renders_def)

section \<open>Rounding to decimal places\<close>

text \<open>\<open>round(x, n)\<close>: the exact value to the nearest decimal, at a tie the even one, and back to a float.\<close>

definition py_round :: "float64 \<Rightarrow> nat \<Rightarrow> float64" where
  "py_round x n = f64_round (of_int (rne (x * 10 ^ n)) / 10 ^ n)"

text \<open>Every rounded value is a \<open>float64\<close>.\<close>

lemma powi_less_D: "(2::rat) powi a < 2 powi b \<Longrightarrow> a < b"
  using power_int_increasing [of b a "2::rat"] by (force simp: not_less)

lemma f64_round_multiple:
  assumes x: "x = of_int i * 2 powi j" and i: "0 < i" "i \<le> 2 ^ 53" and j: "- 1074 \<le> j"
  shows "f64_round x = x"
proof -
  have pos: "0 < x" using i by (simp add: x)
  have "rat_of_int i \<le> of_int (2 ^ 53)" using i(2) by (simp only: of_int_le_iff)
  then have "x \<le> 2 ^ 53 * 2 powi j" by (simp add: x mult_right_mono)
  also have "\<dots> = 2 powi (53 + j)" by (simp add: power_int_add)
  finally have le: "x \<le> 2 powi (53 + j)" .
  have "\<exists>k::int. x = of_int k * unit_at x"
  proof (cases "x = 2 powi (53 + j)")
    case True
    have "(2::rat) powi (53 + j) < 2 powi (54 + j)" by (rule power_int_strict_increasing) simp_all
    then have "2 powi expo x < (2::rat) powi (54 + j)" using expo_bounds(1) [OF pos] True by simp
    then have "expo x < 54 + j" by (rule powi_less_D)
    then have "max (expo x - 52) (- 1074) \<le> 53 + j" using j by simp
    then show ?thesis unfolding True [symmetric] unit_at_def by (metis True powi_multiple)
  next
    case False
    with le have "2 powi expo x < (2::rat) powi (53 + j)" using expo_bounds(1) [OF pos] by simp
    then have "expo x < 53 + j" by (rule powi_less_D)
    then have "max (expo x - 52) (- 1074) \<le> j" using j by simp
    then obtain k where "2 powi j = of_int k * unit_at x" unfolding unit_at_def by (blast dest: powi_multiple)
    then have "x = of_int (i * k) * unit_at x" by (simp add: x)
    then show ?thesis by blast
  qed
  then obtain k where "x = of_int k * unit_at x" by blast
  moreover have "unit_at x \<noteq> 0" by (simp add: unit_at_def)
  ultimately have "x / unit_at x = of_int k" by (simp add: divide_eq_eq)
  then have "rne (x / unit_at x) = k" by simp
  then show ?thesis using pos \<open>x = of_int k * unit_at x\<close> by (simp add: f64_round_pos)
qed

lemma f64_round_idem: "f64_round (f64_round q) = f64_round q"
proof -
  have pos: "f64_round (f64_round q) = f64_round q" if q: "0 < q" for q
  proof (cases "rne (q / unit_at q) = 0")
    case True
    then show ?thesis using q by (simp add: f64_round_pos) (simp add: f64_round_def round_binary_def)
  next
    case False
    have "0 \<le> rne (q / unit_at q)" using rne_mono [of 0 "q / unit_at q"] q by (simp add: rne_def less_imp_le)
    moreover have "q / unit_at q \<le> of_int (2 ^ 53)"
      using unit_at_lower [OF q] by (simp add: pos_divide_le_eq less_imp_le)
    then have "rne (q / unit_at q) \<le> rne (of_int (2 ^ 53))" by (rule rne_mono)
    then have "rne (q / unit_at q) \<le> 2 ^ 53" by (simp only: rne_of_int)
    ultimately show ?thesis
      using False unfolding f64_round_pos [OF q] unit_at_def
      by (intro f64_round_multiple [OF refl]) simp_all
  qed
  show ?thesis
  proof (cases "q < 0")
    case True
    then show ?thesis using pos [of "- q"] by (simp add: f64_round_minus)
  next
    case False
    then show ?thesis using pos [of q] by (cases "q = 0") (simp_all add: f64_round_def round_binary_def)
  qed
qed

lemma f64_round_upper: "0 < q \<Longrightarrow> f64_round q \<le> 2 * q + 1"
proof -
  assume q: "0 < q"
  have "(2::rat) powi (expo q - 52) \<le> 2 powi expo q" by (rule power_int_increasing) simp_all
  then have "(2::rat) powi (expo q - 52) \<le> q" using expo_bounds(1) [OF q] by simp
  moreover have "(2::rat) powi (- 1074) \<le> 2 powi 0" by (rule power_int_increasing) simp_all
  ultimately have "unit_at q \<le> q + 1" using q by (auto simp: unit_at_def max_def)
  moreover have "of_int (rne (q / unit_at q)) * unit_at q \<le> (q / unit_at q + 1) * unit_at q"
    by (intro mult_right_mono rne_upper) (simp add: less_imp_le)
  moreover have "(q / unit_at q + 1) * unit_at q = q + unit_at q"
    using less_imp_neq [OF unit_at_pos [of q]] by (simp add: distrib_right)
  ultimately show ?thesis by (simp add: f64_round_pos [OF q])
qed

text \<open>Where numbers are not subnormal, the bounds on \<open>rnd\<close> hold.\<close>

lemma f64_round_rnd:
  assumes "2 powi (- 1022) \<le> q"
  shows "f64_round q = rnd q"
proof -
  have q: "0 < q" using assms less_le_trans [of 0 "2 powi (- 1022)" q] by simp
  have "(2::rat) powi (- 1022) < 2 powi (expo q + 1)" using assms expo_bounds(2) [OF q] by simp
  then have "- 1022 < expo q + 1" by (rule powi_less_D)
  then have "max (expo q - 52) (- 1074) = expo q - 52" by simp
  then have "unit_at q = ulp q" by (simp only: unit_at_def ulp_def)
  then show ?thesis using q by (simp add: f64_round_pos rnd_def rnd_pos_def)
qed

lemma f64_round_abs: "\<bar>f64_round q\<bar> \<le> 2 * \<bar>q\<bar> + 1"
proof -
  have pos: "\<bar>f64_round q\<bar> \<le> 2 * q + 1" if "0 < q" for q
    using f64_round_upper [OF that] f64_round_nonpos [of "- q"] that unfolding f64_round_minus by (simp add: abs_le_iff)
  consider "0 < q" | "q = 0" | "0 < - q" by linarith
  then show ?thesis
  proof cases
    case 2
    then show ?thesis by (simp add: f64_round_def round_binary_def)
  qed (use pos [of q] pos [of "- q"] in \<open>simp_all add: f64_round_minus\<close>)
qed

lemma py_round_is_f64_abs:
  assumes "\<bar>x\<bar> \<le> 2 ^ 64"
  shows "is_f64 (py_round x n)"
proof -
  let ?r = "of_int (rne (x * 10 ^ n)) :: rat" and ?q = "of_int (rne (x * 10 ^ n)) / 10 ^ n :: rat"
  have "\<bar>?r\<bar> \<le> \<bar>x * 10 ^ n\<bar> + 1" using rne_error [of "x * 10 ^ n"] by linarith
  also have "\<dots> \<le> (\<bar>x\<bar> + 1) * 10 ^ n" by (simp add: distrib_right abs_mult)
  finally have "\<bar>?q\<bar> \<le> \<bar>x\<bar> + 1" by (simp add: pos_divide_le_eq)
  then have "2 * \<bar>?q\<bar> + 1 \<le> 2 * (\<bar>x\<bar> + 1) + 1" by simp
  with f64_round_abs [of ?q] have "\<bar>f64_round ?q\<bar> \<le> 2 * (\<bar>x\<bar> + 1) + 1" by (rule order_trans)
  also have "\<dots> < (2::rat) ^ 66" using assms by simp
  also have "(2::rat) ^ 66 \<le> 2 ^ 1024" by (rule power_increasing) simp_all
  finally show ?thesis by (simp add: is_f64_def py_round_def f64_round_idem)
qed

lemma py_round_is_f64: "0 \<le> x \<Longrightarrow> x \<le> 2 ^ 64 \<Longrightarrow> is_f64 (py_round x n)"
  by (rule py_round_is_f64_abs) simp

section \<open>A renderer\<close>

lemma means_in_order: "floats_ok g \<Longrightarrow> utf8_ok g \<Longrightarrow> means g (json_in_order g)"
proof (induction g)
  case (GSlice vs)
  then show ?case by (auto simp: means_iffs list_all2_map2 list_all_iff intro!: list.rel_refl_strong)
next
  case (GMap m)
  then show ?case
    by (fastforce simp: means_iffs list_all2_map2 list_all_iff intro!: list.rel_refl_strong)
qed (simp_all add: means_iffs Atoi_int_text float64_text_float_text)

lemma renders_write_value: "renders write_value"
  unfolding renders_def
proof (intro allI impI)
  fix g assume g: "sendable g"
  then have "Decode (write_value g) = Some (json_in_order g)"
    by (intro reads_Decode [OF write_reads]) (simp_all add: sendable_def max_depth_def)
  with g show "\<exists>v. Decode (write_value g) = Some v \<and> means g v"
    using means_in_order by (auto simp: sendable_def)
qed

end
