(* ===== verification/FaceFolder.thy ===== *)
theory FaceFolder
  imports FastApi SchoolClients "HOL-Library.AList"
begin

text \<open>
  The face service of the second backend, \<open>src/newGoAttend/face-service/main.py\<close>: a folder with one
  picture per registered identifier, and the search for the closest of them. DeepFace, FastAPI's
  reading of a form, the file system and the temporary names are fields of the argument \<open>face_app\<close>. The
  lemmas: the search finds a closest face, what the Go client receives, and when a temporary file stays
  behind.
\<close>

section \<open>State and surroundings\<close>

text \<open>The files of \<open>FACES_DIR\<close> by name, and the temporary files.\<close>

record face_state =
  faces :: "(string \<times> bytes) list"
  tmp_files :: "string list"

text \<open>\<open>DeepFace.extract_faces\<close>: the number of faces, or an exception.\<close>

datatype extraction = Faces nat | ValueError string | OtherError

text \<open>
  \<open>fa_bind_register\<close> and \<open>fa_bind_photo\<close>: the parameters that FastAPI takes from the content type and the
  body, none if it refuses them with 422. \<open>fa_verify\<close>: the distance of two pictures, none for an
  exception or a distance that is not finite. \<open>fa_glob\<close>: the order in which the folder is listed.
  \<open>fa_move\<close>: the folder after a file was moved to a name under it, none for an error. \<open>fa_tmp\<close>: the name
  of the temporary file, none if it cannot be written.
\<close>

record face_app =
  fa_web :: web
  fa_invalid :: bytes
  fa_bind_register :: "string \<Rightarrow> bytes \<Rightarrow> (string \<times> bytes) option"
  fa_bind_photo :: "string \<Rightarrow> bytes \<Rightarrow> bytes option"
  fa_extract :: "bytes \<Rightarrow> extraction"
  fa_verify :: "bytes \<Rightarrow> bytes \<Rightarrow> float64 option"
  fa_glob :: "string list \<Rightarrow> string list"
  fa_move :: "string \<Rightarrow> bytes \<Rightarrow> (string \<times> bytes) list \<Rightarrow> (string \<times> bytes) list option"
  fa_tmp :: "string option"
  fa_model :: string
  fa_threshold :: float64

section \<open>Names of files\<close>

definition jpg :: "string \<Rightarrow> bool" where
  "jpg n \<longleftrightarrow> drop (length n - 4) n = ''.jpg''"

text \<open>\<open>PurePath.stem\<close>: up to the last dot, unless it is the first or the last character.\<close>

definition stem :: "string \<Rightarrow> string" where
  "stem n =
     (let suffix = takeWhile (\<lambda>c. c \<noteq> CHR ''.'') (rev n); i = length n - length suffix - 1
      in if 0 < i \<and> length suffix < length n \<and> suffix \<noteq> [] then take i n else n)"

definition face_paths :: "face_app \<Rightarrow> face_state \<Rightarrow> string list" where
  "face_paths a st = fa_glob a (filter jpg (map fst (faces st)))"

section \<open>Endpoints\<close>

definition folder_health :: "face_app \<Rightarrow> face_state \<Rightarrow> py_outcome" where
  "folder_health a st =
     Reply (GMap [(''status'', GString ''ok''), (''registered_faces'', GInt (int (length (face_paths a st)))),
       (''model'', GString (fa_model a))])"

definition register_face :: "face_app \<Rightarrow> string \<Rightarrow> bytes \<Rightarrow> face_state \<Rightarrow> py_outcome \<times> face_state" where
  "register_face a student_id photo st =
     (case fa_tmp a of
        None \<Rightarrow> (Uncaught, st)
      | Some t \<Rightarrow>
          (case fa_extract a photo of
             ValueError e \<Rightarrow> (HTTPException 400 (''Face detection failed: '' @ e), st)
           | OtherError \<Rightarrow> (Uncaught, st\<lparr>tmp_files := t # tmp_files st\<rparr>)
           | Faces n \<Rightarrow>
               if n = 0 then (HTTPException 400 ''No face detected'', st)
               else (case fa_move a (student_id @ ''.jpg'') photo (faces st) of
                 None \<Rightarrow> (Uncaught, st\<lparr>tmp_files := t # tmp_files st\<rparr>)
               | Some fs \<Rightarrow>
                   (Reply (GMap [(''status'', GString ''registered''), (''student_id'', GString student_id)]),
                    st\<lparr>faces := fs\<rparr>))))"

text \<open>The loop over the registered files; the best distance is infinite as long as there is no match.\<close>

fun closest ::
  "(bytes \<Rightarrow> bytes \<Rightarrow> float64 option) \<Rightarrow> bytes \<Rightarrow> (string \<times> bytes) list \<Rightarrow> string list
     \<Rightarrow> (string \<times> float64) option \<Rightarrow> (string \<times> float64) option" where
  "closest verify photo fs [] best = best"
| "closest verify photo fs (n # ns) best =
     closest verify photo fs ns
       (case Option.bind (map_of fs n) (verify photo) of
          None \<Rightarrow> best
        | Some d \<Rightarrow>
            (case best of
               None \<Rightarrow> Some (stem n, d)
             | Some (m, e) \<Rightarrow> if d < e then Some (stem n, d) else best))"

text \<open>The answer: the match, if it is close enough, and the distance to four decimal places.\<close>

definition recognition :: "face_app \<Rightarrow> (string \<times> float64) option \<Rightarrow> gval" where
  "recognition a best =
     (case best of
        None \<Rightarrow> GMap [(''matched'', GBool False), (''distance'', GNil)]
      | Some (m, d) \<Rightarrow>
          if m \<noteq> [] \<and> d \<le> fa_threshold a
          then GMap [(''matched'', GBool True), (''student_id'', GString m), (''distance'', GFloat (py_round d 4))]
          else GMap [(''matched'', GBool False), (''distance'', GFloat (py_round d 4))])"

definition recognize_face :: "face_app \<Rightarrow> bytes \<Rightarrow> face_state \<Rightarrow> py_outcome \<times> face_state" where
  "recognize_face a photo st =
     (let ns = face_paths a st
      in if ns = [] then (HTTPException 404 ''No faces registered yet'', st)
         else case fa_tmp a of
           None \<Rightarrow> (Uncaught, st)
         | Some t \<Rightarrow>
             (case fa_extract a photo of
                ValueError _ \<Rightarrow> (HTTPException 400 ''No face detected in image'', st)
              | OtherError \<Rightarrow> (Uncaught, st\<lparr>tmp_files := t # tmp_files st\<rparr>)
              | Faces _ \<Rightarrow>
                  (Reply (recognition a (closest (fa_verify a) photo (faces st) ns None)),
                   st)))"

definition face_serve :: "face_app \<Rightarrow> string \<Rightarrow> http_request \<Rightarrow> face_state \<Rightarrow> http_response \<times> face_state" where
  "face_serve a path rq st =
     (if path = ''/register'' \<and> rq_method rq = ''POST''
      then (case fa_bind_register a (rq_content_type rq) (rq_body rq) of
        None \<Rightarrow> (answer (fa_web a) 422 (fa_invalid a), st)
      | Some (student_id, photo) \<Rightarrow> apfst (respond (fa_web a)) (register_face a student_id photo st))
      else if path = ''/recognize'' \<and> rq_method rq = ''POST''
      then (case fa_bind_photo a (rq_content_type rq) (rq_body rq) of
        None \<Rightarrow> (answer (fa_web a) 422 (fa_invalid a), st)
      | Some photo \<Rightarrow> apfst (respond (fa_web a)) (recognize_face a photo st))
      else if path = ''/health'' \<and> rq_method rq = ''GET'' then (respond (fa_web a) (folder_health a st), st)
      else if path \<in> {''/register'', ''/recognize'', ''/health''}
      then (respond (fa_web a) (HTTPException 405 ''Method Not Allowed''), st)
      else (respond (fa_web a) (HTTPException 404 ''Not Found''), st))"

section \<open>The search\<close>

definition distance_to :: "face_app \<Rightarrow> bytes \<Rightarrow> face_state \<Rightarrow> string \<Rightarrow> float64 option" where
  "distance_to a photo st n = Option.bind (map_of (faces st) n) (fa_verify a photo)"

text \<open>The best of what was given and what was listed: attained, and a lower bound.\<close>

lemma closest_best:
  assumes "closest verify photo fs ns best = Some (m, d)"
  shows "(best = Some (m, d) \<or> (\<exists>n \<in> set ns. m = stem n \<and> Option.bind (map_of fs n) (verify photo) = Some d))
    \<and> (\<forall>m' d'. best = Some (m', d') \<longrightarrow> d \<le> d')
    \<and> (\<forall>n \<in> set ns. \<forall>d'. Option.bind (map_of fs n) (verify photo) = Some d' \<longrightarrow> d \<le> d')"
  using assms
proof (induction ns arbitrary: best)
  case (Cons n ns)
  show ?case
  proof (cases "Option.bind (map_of fs n) (verify photo)")
    case None
    with Cons show ?thesis by auto
  next
    case (Some e)
    with Cons show ?thesis by (fastforce split: option.splits if_splits prod.splits)
  qed
qed simp

lemma closest_None:
  "closest verify photo fs ns best = None \<longleftrightarrow>
     best = None \<and> (\<forall>n \<in> set ns. Option.bind (map_of fs n) (verify photo) = None)"
  by (induction ns arbitrary: best) (auto split: option.splits if_splits)

section \<open>What the service relies on\<close>

text \<open>Identifiers of the form of a UUID: letters, digits and dashes.\<close>

definition file_id :: "string \<Rightarrow> bool" where
  "file_id i \<longleftrightarrow> i \<noteq> [] \<and> list_all (\<lambda>c. alnum c \<or> c = CHR ''-'') i"

text \<open>
  FastAPI sends JSON, a listing is complete, a move under a plain name fails or replaces that file, and
  distances are finite and not negative.
\<close>

definition face_laws :: "face_app \<Rightarrow> bool" where
  "face_laws a \<longleftrightarrow> renders (web_render (fa_web a)) \<and> (\<forall>ns. mset (fa_glob a ns) = mset ns)
     \<and> (\<forall>i b fs. file_id i \<longrightarrow> fa_move a (i @ ''.jpg'') b fs \<in> {None, Some (AList.update (i @ ''.jpg'') b fs)})
     \<and> (\<forall>p b d. fa_verify a p b = Some d \<longrightarrow> 0 \<le> d \<and> d \<le> 2 ^ 64)"

definition folder_ok :: "(string \<times> bytes) list \<Rightarrow> bool" where
  "folder_ok fs \<longleftrightarrow> distinct (map fst fs) \<and> (\<forall>n \<in> fst ` set fs. \<exists>i. file_id i \<and> n = i @ ''.jpg'')"

lemma jpg_file: "jpg (i @ ''.jpg'')"
  by (simp add: jpg_def)

lemma stem_file: "file_id i \<Longrightarrow> stem (i @ ''.jpg'') = i"
  by (simp add: stem_def file_id_def Let_def)

lemma file_id_ascii: "file_id i \<Longrightarrow> ascii i"
  by (auto simp: file_id_def ascii_def alnum_def digit_def list_all_iff)

lemma registered_files:
  assumes "face_laws a" and "folder_ok (faces st)"
  shows "set (face_paths a st) = fst ` set (faces st)"
proof -
  have "filter jpg (map fst (faces st)) = map fst (faces st)"
    using assms(2) jpg_file by (auto simp: folder_ok_def filter_id_conv)
  moreover have "set (fa_glob a ns) = set ns" for ns
    using assms(1) by (metis face_laws_def set_mset_mset)
  ultimately show ?thesis by (simp add: face_paths_def)
qed

lemma distance_bounds:
  assumes "face_laws a" and "distance_to a photo st n = Some d"
  shows "0 \<le> d \<and> d \<le> 2 ^ 64"
proof -
  from assms(2) obtain b where "fa_verify a photo b = Some d"
    by (cases "map_of (faces st) n") (simp_all add: distance_to_def)
  with assms(1) show ?thesis unfolding face_laws_def by blast
qed

lemma distance_registered:
  assumes "face_laws a" and "folder_ok (faces st)" and "distance_to a photo st n = Some d"
  shows "n \<in> set (face_paths a st)"
  using assms(3) unfolding registered_files [OF assms(1,2)] distance_to_def
  by (cases "map_of (faces st) n") (auto dest: map_of_SomeD intro: rev_image_eqI)

text \<open>The search returns a closest of the registered faces.\<close>

lemma closest_registered:
  assumes "face_laws a" and "folder_ok (faces st)"
    and "closest (fa_verify a) photo (faces st) (face_paths a st) None = Some (m, d)"
  shows "file_id m \<and> distance_to a photo st (m @ ''.jpg'') = Some d
    \<and> (\<forall>n d'. distance_to a photo st n = Some d' \<longrightarrow> d \<le> d')"
proof -
  note best = closest_best [OF assms(3), folded distance_to_def]
  then obtain n where n: "n \<in> set (face_paths a st)" "m = stem n" "distance_to a photo st n = Some d" by blast
  then obtain i where i: "file_id i" "n = i @ ''.jpg''"
    using assms(2) registered_files [OF assms(1,2)] unfolding folder_ok_def by blast
  then have "m = i" using n(2) by (simp add: stem_file)
  moreover have "\<forall>n d'. distance_to a photo st n = Some d' \<longrightarrow> d \<le> d'"
    using best distance_registered [OF assms(1,2)] by blast
  ultimately show ?thesis using n(3) i by simp
qed

lemma closest_found:
  assumes "face_laws a" and "folder_ok (faces st)" and "distance_to a photo st (i @ ''.jpg'') = Some d"
    and "\<forall>n d'. n \<noteq> i @ ''.jpg'' \<longrightarrow> distance_to a photo st n = Some d' \<longrightarrow> d < d'"
  shows "closest (fa_verify a) photo (faces st) (face_paths a st) None = Some (i, d)"
proof (cases "closest (fa_verify a) photo (faces st) (face_paths a st) None")
  case None
  with distance_registered [OF assms(1-3)] assms(3) show ?thesis
    unfolding closest_None by (simp add: distance_to_def)
next
  case (Some md)
  then obtain m e where md: "md = (m, e)" by (cases md)
  from closest_registered [OF assms(1,2) Some [unfolded md]]
  have me: "distance_to a photo st (m @ ''.jpg'') = Some e" and "e \<le> d" using assms(3) by blast+
  with assms(4) have "m @ ''.jpg'' = i @ ''.jpg''" by (metis not_le)
  with me assms(3) Some md show ?thesis by simp
qed

section \<open>What the Go client receives\<close>

text \<open>The service at a state, as the client reaches it under an address.\<close>

definition face_transport :: "face_app \<Rightarrow> string \<Rightarrow> face_state \<Rightarrow> transport" where
  "face_transport a base st =
     \<lparr>newRequest = (\<lambda>_ _. None),
      http_Do = (\<lambda>rq. Inr (fst (face_serve a (drop (length base) (rq_url rq)) rq st)))\<rparr>"

definition parts_request :: "string \<Rightarrow> string \<Rightarrow> form_part list \<Rightarrow> http_request" where
  "parts_request boundary url parts =
     \<lparr>rq_method = ''POST'', rq_url = url, rq_content_type = FormDataContentType boundary,
      rq_body = multipart_body boundary parts\<rparr>"

lemma post_face:
  "post_parts (face_transport a base st) boundary (base @ path) parts =
     Inr (fst (face_serve a path (parts_request boundary (base @ path) parts) st))"
  by (simp add: post_parts_def http_Post_def face_transport_def parts_request_def)

text \<open>The forms of the client are refused or read as what they hold.\<close>

definition register_form :: "face_app \<Rightarrow> string \<Rightarrow> string \<Rightarrow> bytes \<Rightarrow> string \<Rightarrow> (string \<times> bytes) option" where
  "register_form a boundary sid photo filename =
     fa_bind_register a (FormDataContentType boundary)
       (multipart_body boundary [Field ''student_id'' sid, FileField ''photo'' filename photo])"

definition photo_form :: "face_app \<Rightarrow> string \<Rightarrow> bytes \<Rightarrow> string \<Rightarrow> bytes option" where
  "photo_form a boundary photo filename =
     fa_bind_photo a (FormDataContentType boundary) (multipart_body boundary [FileField ''photo'' filename photo])"

lemma serve_register:
  "face_serve a ''/register'' (parts_request b url [Field ''student_id'' sid, FileField ''photo'' fn photo]) st =
     (case register_form a b sid photo fn of
        None \<Rightarrow> (answer (fa_web a) 422 (fa_invalid a), st)
      | Some (i, p) \<Rightarrow> apfst (respond (fa_web a)) (register_face a i p st))"
  by (simp add: face_serve_def parts_request_def register_form_def)

lemma serve_recognize:
  "face_serve a ''/recognize'' (parts_request b url [FileField ''photo'' fn photo]) st =
     (case photo_form a b photo fn of
        None \<Rightarrow> (answer (fa_web a) 422 (fa_invalid a), st)
      | Some p \<Rightarrow> apfst (respond (fa_web a)) (recognize_face a p st))"
  by (simp add: face_serve_def parts_request_def photo_form_def)

text \<open>A registration leaves the folder as it is or puts the picture under the identifier; with an answer
  of 200 it is there.\<close>

lemma register_folder:
  assumes "face_laws a" and "file_id sid" and "register_form a b sid photo fn \<in> {None, Some (sid, photo)}"
    and "face_serve a ''/register'' (parts_request b url [Field ''student_id'' sid, FileField ''photo'' fn photo]) st = (resp, st')"
  shows "faces st' = faces st \<or> faces st' = AList.update (sid @ ''.jpg'') photo (faces st)"
    and "StatusCode resp = 200 \<Longrightarrow> faces st' = AList.update (sid @ ''.jpg'') photo (faces st)"
proof -
  have move: "fa_move a (sid @ ''.jpg'') photo fs \<in> {None, Some (AList.update (sid @ ''.jpg'') photo fs)}" for fs
    using assms(1,2) unfolding face_laws_def by blast
  have "(faces st' = faces st \<or> faces st' = AList.update (sid @ ''.jpg'') photo (faces st))
    \<and> (StatusCode resp = 200 \<longrightarrow> faces st' = AList.update (sid @ ''.jpg'') photo (faces st))"
    using assms(3,4) move [of "faces st"]
    by (auto simp: serve_register register_face_def respond_def answer_def split: option.splits extraction.splits if_splits)
  then show "faces st' = faces st \<or> faces st' = AList.update (sid @ ''.jpg'') photo (faces st)"
    and "StatusCode resp = 200 \<Longrightarrow> faces st' = AList.update (sid @ ''.jpg'') photo (faces st)" by simp_all
qed

lemma recognize_folder: "faces (snd (face_serve a ''/recognize'' (parts_request b url [FileField ''photo'' fn photo]) st)) = faces st"
  by (simp add: serve_recognize recognize_face_def Let_def split: option.split extraction.split)

text \<open>The answer of a search, and its members as the client decodes them.\<close>

lemma recognition_sendable:
  assumes "face_laws a" and "folder_ok (faces st)"
    and "best = closest (fa_verify a) photo (faces st) (face_paths a st) None"
  shows "sendable (recognition a best)"
proof (cases best)
  case None
  then show ?thesis by (simp add: recognition_def sendable_def ascii_to_utf8 ascii_def)
next
  case (Some md)
  then obtain m d where md: "best = Some (m, d)" by (cases md) auto
  with closest_registered [OF assms(1,2)] assms(3)
  have "file_id m" and "distance_to a photo st (m @ ''.jpg'') = Some d" by (metis)+
  with distance_bounds [OF assms(1)] have "is_f64 (py_round d 4)" "to_utf8 m = m"
    by (auto intro: py_round_is_f64 ascii_to_utf8 file_id_ascii)
  then show ?thesis by (simp add: md recognition_def sendable_def ascii_to_utf8 ascii_def)
qed

lemma decode_recognition:
  assumes "Decode body = Some v" and "means (recognition a best) v"
  shows "Matched (decode_keep recognize_fields body recognize_zero) \<longleftrightarrow>
      (\<exists>m d. best = Some (m, d) \<and> m \<noteq> [] \<and> d \<le> fa_threshold a)"
    and "best = Some (m, d) \<Longrightarrow> m \<noteq> [] \<Longrightarrow> d \<le> fa_threshold a \<Longrightarrow>
      rc_StudentID (decode_keep recognize_fields body recognize_zero) = m"
  using assms
  by (auto simp: recognition_def decode_keep_def find_field_def recognize_fields_def store_bool_def store_string_def
      store_float64_def recognize_zero_def means_iffs list_all2_Cons1 split: option.splits if_splits)

text \<open>A recognition answered by the service is its search.\<close>

lemma Recognize_served:
  assumes "face_laws a" and "folder_ok (faces st)" and "photo_form a b photo fn \<in> {None, Some photo}"
    and "Recognize c (face_transport a (sf_baseURL c) st) b photo fn = Inr result"
    and "best = closest (fa_verify a) photo (faces st) (face_paths a st) None"
  shows "Matched result \<longleftrightarrow> (\<exists>m d. best = Some (m, d) \<and> m \<noteq> [] \<and> d \<le> fa_threshold a)"
    and "best = Some (m, d) \<Longrightarrow> m \<noteq> [] \<Longrightarrow> d \<le> fa_threshold a \<Longrightarrow> rc_StudentID result = m"
proof -
  from assms(3,4,5) have result: "result = decode_keep recognize_fields (web_render (fa_web a) (recognition a best)) recognize_zero"
    by (auto simp: Recognize_def post_face serve_recognize recognize_face_def respond_def answer_def Let_def
        split: option.splits extraction.splits if_splits)
  from assms(1) recognition_sendable [OF assms(1,2,5)]
  obtain v where v: "Decode (web_render (fa_web a) (recognition a best)) = Some v" "means (recognition a best) v"
    unfolding face_laws_def by (blast dest: rendersD)
  show "Matched result \<longleftrightarrow> (\<exists>m d. best = Some (m, d) \<and> m \<noteq> [] \<and> d \<le> fa_threshold a)"
    unfolding result by (rule decode_recognition(1) [OF v])
  show "best = Some (m, d) \<Longrightarrow> m \<noteq> [] \<Longrightarrow> d \<le> fa_threshold a \<Longrightarrow> rc_StudentID result = m"
    unfolding result by (rule decode_recognition(2) [OF v])
qed

end
