(* ===== verification/SchoolFaces.thy ===== *)
theory SchoolFaces
  imports SchoolApi FaceFolder
begin

text \<open>
  The second backend together with its face service: what a request to the backend does to the tables and
  to the folder of faces, when the calls of the backend are answered by the service of theory
  \<open>FaceFolder\<close> or get lost on the way. The lemmas: every face in the folder is of a stored student, and a
  student whose face was registered is found again.
\<close>

section \<open>Requests through both programs\<close>

text \<open>The connection: up, or failing with an error, after or before the service has handled the call.\<close>

datatype link = Up | Down string bool

definition reaches :: "link \<Rightarrow> bool" where
  "reaches l = (case l of Up \<Rightarrow> True | Down _ handled \<Rightarrow> handled)"

definition link_transport :: "link \<Rightarrow> transport \<Rightarrow> transport" where
  "link_transport l tr = (case l of Up \<Rightarrow> tr | Down t _ \<Rightarrow> tr\<lparr>http_Do := (\<lambda>_. Inl t)\<rparr>)"

definition linked :: "Handler \<Rightarrow> face_app \<Rightarrow> link \<Rightarrow> face_state \<Rightarrow> school_env \<Rightarrow> school_env" where
  "linked h a l fs e =
     (case faceClient h of
        None \<Rightarrow> e
      | Some f \<Rightarrow> e\<lparr>se_face := link_transport l (face_transport a (sf_baseURL f) fs)\<rparr>)"

text \<open>The call of the service that a request makes, if any: its path and the request.\<close>

definition face_call :: "SchoolConfig \<Rightarrow> Handler \<Rightarrow> school_env \<Rightarrow> school_request \<Rightarrow> school \<Rightarrow> (string \<times> http_request) option" where
  "face_call cfg h e c s =
     (case (school_match cfg c, faceClient h, sr_photo c) of
        (Some SRegister, Some f, Some (fn, Inr photo)) \<Rightarrow>
          (case RegisterStudent h e c s of
             ((_, StudentJSON st), _, Some _) \<Rightarrow>
               Some (''/register'', parts_request (se_boundary2 e) (sf_baseURL f @ ''/register'')
                 [Field ''student_id'' (st_ID st), FileField ''photo'' fn photo])
           | _ \<Rightarrow> None)
      | (Some SFaceLogin, Some f, Some (fn, Inr photo)) \<Rightarrow>
          Some (''/recognize'', parts_request (se_boundary e) (sf_baseURL f @ ''/recognize'') [FileField ''photo'' fn photo])
      | _ \<Rightarrow> None)"

definition joint_serve ::
  "SchoolConfig \<Rightarrow> Handler \<Rightarrow> face_app \<Rightarrow> link \<Rightarrow> school_env \<Rightarrow> school_request \<Rightarrow> school \<times> face_state
     \<Rightarrow> school_reply \<times> school \<times> face_state" where
  "joint_serve cfg h a l e c st =
     (let e' = linked h a l (snd st) e
      in case school_serve cfg h e' c (fst st) of
           (rep, s') \<Rightarrow>
             (rep, s',
              case face_call cfg h e' c (fst st) of
                None \<Rightarrow> snd st
              | Some (path, rq) \<Rightarrow> if reaches l then snd (face_serve a path rq (snd st)) else snd st))"

text \<open>
  Assumed of a request: the laws of the service's surroundings, an identifier of the form of a UUID, and
  that the forms which the backend sends are refused or read as what they hold.
\<close>

definition joint_ok :: "face_app \<Rightarrow> school_env \<Rightarrow> school_request \<Rightarrow> bool" where
  "joint_ok a e c \<longleftrightarrow> face_laws a \<and> file_id (se_id e)
     \<and> (case sr_photo c of
          Some (fn, Inr photo) \<Rightarrow>
            register_form a (se_boundary2 e) (se_id e) photo fn \<in> {None, Some (se_id e, photo)}
            \<and> photo_form a (se_boundary e) photo fn \<in> {None, Some photo}
        | _ \<Rightarrow> True)"

inductive joint_step ::
  "SchoolConfig \<Rightarrow> Handler \<Rightarrow> school \<times> face_state \<Rightarrow> school_request \<times> school_reply \<Rightarrow> school \<times> face_state \<Rightarrow> bool"
  for cfg h where
  "joint_ok a e c \<Longrightarrow> joint_serve cfg h a l e c st = (rep, st') \<Longrightarrow> joint_step cfg h st (c, rep) st'"

section \<open>Every face is of a student\<close>

definition face_file :: "Student \<Rightarrow> string" where
  "face_file st = st_ID st @ ''.jpg''"

definition joint_inv :: "school \<times> face_state \<Rightarrow> bool" where
  "joint_inv st \<longleftrightarrow> wf_school (fst st) \<and> folder_ok (faces (snd st))
     \<and> fst ` set (faces (snd st)) \<subseteq> face_file ` set (students (fst st))"

lemma linked_fields [simp]:
  "se_id (linked h a l fs e) = se_id e" "se_boundary (linked h a l fs e) = se_boundary e"
  "se_boundary2 (linked h a l fs e) = se_boundary2 e" "se_now (linked h a l fs e) = se_now e"
  "se_sq1 (linked h a l fs e) = se_sq1 e" "se_sq2 (linked h a l fs e) = se_sq2 e"
  by (simp_all add: linked_def split: option.split)

lemma registered_student:
  assumes "RegisterStudent h e c s = ((code, StudentJSON st), s', fr)"
  shows "st_ID st = se_id e \<and> \<not> conflict s st \<and> s' = s\<lparr>students := students s @ [st]\<rparr>"
  using assms
proof (cases rule: RegisterStudent_cases)
  case (registered req filename photo photoURL st')
  from registered(4) have "st_ID st' = se_id e" by (auto simp: CreateStudent_def Let_def split: prod.splits)
  moreover from registered(4) have "\<not> conflict s st' \<and> s' = s\<lparr>students := students s @ [st']\<rparr>"
    by (cases rule: CreateStudent_cases) auto
  ultimately show ?thesis using registered(5) by simp
qed (use assms in \<open>auto simp: RegisterStudent_def split: sum.splits option.splits prod.splits\<close>)

text \<open>What a request does to the folder: nothing, or the picture of a new student is put there.\<close>

lemma joint_serve_folder:
  assumes "joint_ok a e c" and "joint_serve cfg h a l e c (s, fs) = (rep, s', fs')"
  shows "school_serve cfg h (linked h a l fs e) c s = (rep, s')"
    and "faces fs' = faces fs \<or> (\<exists>st photo. file_id (st_ID st) \<and> \<not> conflict s st
      \<and> s' = s\<lparr>students := students s @ [st]\<rparr> \<and> faces fs' = AList.update (face_file st) photo (faces fs))"
proof -
  let ?e = "linked h a l fs e"
  from assms(2) show served: "school_serve cfg h ?e c s = (rep, s')"
    by (simp add: joint_serve_def Let_def split: prod.splits)
  from assms(2) have fs': "fs' = (case face_call cfg h ?e c s of
      None \<Rightarrow> fs | Some (path, rq) \<Rightarrow> if reaches l then snd (face_serve a path rq fs) else fs)"
    using served by (auto simp: joint_serve_def Let_def split: option.split)
  show "faces fs' = faces fs \<or> (\<exists>st photo. file_id (st_ID st) \<and> \<not> conflict s st
      \<and> s' = s\<lparr>students := students s @ [st]\<rparr> \<and> faces fs' = AList.update (face_file st) photo (faces fs))"
  proof (cases "\<exists>f fn photo code st s1 fr. school_match cfg c = Some SRegister \<and> faceClient h = Some f
      \<and> sr_photo c = Some (fn, Inr photo) \<and> RegisterStudent h ?e c s = ((code, StudentJSON st), s1, Some fr)")
    case True
    then obtain f fn photo code st s1 fr where reg: "school_match cfg c = Some SRegister" "faceClient h = Some f"
      "sr_photo c = Some (fn, Inr photo)" "RegisterStudent h ?e c s = ((code, StudentJSON st), s1, Some fr)" by blast
    let ?rq = "parts_request (se_boundary2 e) (sf_baseURL f @ ''/register'')
      [Field ''student_id'' (st_ID st), FileField ''photo'' fn photo]"
    from registered_student [OF reg(4)] have st: "st_ID st = se_id e" "\<not> conflict s st"
      "s1 = s\<lparr>students := students s @ [st]\<rparr>" by simp_all
    have "s' = s1" using served reg(1,4) by (simp add: school_serve_def)
    moreover have "fs' = (if reaches l then snd (face_serve a ''/register'' ?rq fs) else fs)"
      using reg by (simp add: fs' face_call_def)
    moreover have "faces (snd (face_serve a ''/register'' ?rq fs)) = faces fs
        \<or> faces (snd (face_serve a ''/register'' ?rq fs)) = AList.update (face_file st) photo (faces fs)"
      unfolding face_file_def
      by (rule register_folder(1) [OF _ _ _ prod.collapse [symmetric]]) (use assms(1) reg(3) st(1) in \<open>auto simp: joint_ok_def\<close>)
    moreover have "file_id (st_ID st)" using assms(1) st(1) by (simp add: joint_ok_def)
    ultimately show ?thesis using st by metis
  next
    case False
    then have "face_call cfg h ?e c s = None
        \<or> (\<exists>url fn photo. face_call cfg h ?e c s =
            Some (''/recognize'', parts_request (se_boundary ?e) url [FileField ''photo'' fn photo]))"
      by (auto simp: face_call_def split: option.splits school_route.splits sum.splits prod.splits school_payload.splits)
    then have "faces fs' = faces fs" by (auto simp: fs' recognize_folder)
    then show ?thesis by simp
  qed
qed

lemma folder_ok_update: "folder_ok fs \<Longrightarrow> file_id i \<Longrightarrow> folder_ok (AList.update (i @ ''.jpg'') b fs)"
  by (auto simp: folder_ok_def distinct_update dom_update update_keys)

lemma joint_step_inv:
  assumes "joint_inv (s, fs)" and "joint_ok a e c" and "joint_serve cfg h a l e c (s, fs) = (rep, s', fs')"
  shows "joint_inv (s', fs')"
proof -
  have wf: "wf_school s" "folder_ok (faces fs)" "fst ` set (faces fs) \<subseteq> face_file ` set (students s)"
    using assms(1) by (simp_all add: joint_inv_def)
  have s': "wf_school s' \<and> grows s s'"
    using wf(1) joint_serve_folder(1) [OF assms(2,3)] by (rule school_serve_wf)
  then have grow: "face_file ` set (students s) \<subseteq> face_file ` set (students s')" by (auto simp: grows_def)
  from joint_serve_folder(2) [OF assms(2,3)]
  have "folder_ok (faces fs') \<and> fst ` set (faces fs') \<subseteq> face_file ` set (students s')"
  proof (elim disjE exE conjE)
    assume "faces fs' = faces fs"
    with wf grow show ?thesis by auto
  next
    fix st photo
    assume "file_id (st_ID st)" "s' = s\<lparr>students := students s @ [st]\<rparr>"
      "faces fs' = AList.update (face_file st) photo (faces fs)"
    with wf show ?thesis by (auto simp: face_file_def dom_update intro: folder_ok_update)
  qed
  with s' show ?thesis by (simp add: joint_inv_def)
qed

text \<open>A face stays in the folder.\<close>

lemma joint_step_keeps:
  assumes "joint_inv (s, fs)" and "joint_ok a e c" and "joint_serve cfg h a l e c (s, fs) = (rep, s', fs')"
    and "map_of (faces fs) n = Some b"
  shows "map_of (faces fs') n = Some b"
proof -
  have "n \<in> face_file ` set (students s)"
    using assms(1,4) by (force simp: joint_inv_def dest: map_of_SomeD)
  then have "n \<noteq> face_file st" if "\<not> conflict s st" for st
  proof -
    from that have "st_ID st \<notin> st_ID ` set (students s)" by (simp add: conflict_def)
    with \<open>n \<in> face_file ` set (students s)\<close> show ?thesis by (auto simp: face_file_def image_iff)
  qed
  with joint_serve_folder(2) [OF assms(2,3)] assms(4) show ?thesis
    by (auto simp: update_conv')
qed

interpretation joint: invariant_system joint_inv "joint_step cfg h" joint_inv for cfg h
proof
  show "joint_inv u" if "joint_inv t" "joint_step cfg h t x u" for t x u
    using that(2,1) by cases (cases t; cases u; auto intro: joint_step_inv)
qed

lemma joint_runs_keep:
  assumes "runs (joint_step cfg h) st es st'" and "joint_inv st" and "map_of (faces (snd st)) n = Some b"
  shows "map_of (faces (snd st')) n = Some b"
  using assms
proof (induction rule: runs.induct)
  case (runs_snoc s es t x u)
  have "joint_inv t" using runs_snoc.hyps(1) runs_snoc.prems(1) by (rule joint.inv_runs)
  moreover have "map_of (faces (snd t)) n = Some b" using runs_snoc by blast
  moreover obtain a e c l rep where "joint_ok a e c" "joint_serve cfg h a l e c (fst t, snd t) = (rep, fst u, snd u)"
    using runs_snoc.hyps(2) by cases auto
  ultimately show ?case using joint_step_keeps [of "fst t" "snd t" a e c cfg h l rep "fst u" "snd u" n b] by simp
qed simp

lemma joint_runs_grow:
  assumes "runs (joint_step cfg h) st es st'" and "joint_inv st"
  shows "grows (fst st) (fst st')"
  using assms
proof (induction rule: runs.induct)
  case (runs_snoc s es t x u)
  have "joint_inv t" using runs_snoc.hyps(1) runs_snoc.prems(1) by (rule joint.inv_runs)
  moreover obtain a e c l rep where "joint_ok a e c" "joint_serve cfg h a l e c (fst t, snd t) = (rep, fst u, snd u)"
    using runs_snoc.hyps(2) by cases auto
  then have "school_serve cfg h (linked h a l (snd t) e) c (fst t) = (rep, fst u)" by (rule joint_serve_folder(1))
  ultimately have "grows (fst t) (fst u)" by (auto simp: joint_inv_def dest: school_serve_wf)
  with runs_snoc show ?case by (blast intro: grows_trans)
qed simp

section \<open>Logging in\<close>

lemma linked_up: "faceClient h = Some f \<Longrightarrow> se_face (linked h a Up fs e) = face_transport a (sf_baseURL f) fs"
  by (simp add: linked_def link_transport_def)

lemma linked_down: "faceClient h = Some f \<Longrightarrow> Recognize f (se_face (linked h a (Down t r) fs e)) b photo fn = Inl (Errorf (''face service recognize: '' @ t))"
  by (simp add: linked_def link_transport_def Recognize_def post_parts_def http_Post_def face_transport_def)

text \<open>Whoever the service recognizes is a student in the table.\<close>

lemma recognized_student:
  assumes "joint_inv (s, fs)" and "joint_ok a e c" and "sr_photo c = Some (fn, Inr photo)" and "faceClient h = Some f"
    and "Recognize f (se_face (linked h a l fs e)) (se_boundary e) photo fn = Inr result" and "Matched result"
  shows "rc_StudentID result \<in> st_ID ` set (students s)"
proof -
  let ?best = "closest (fa_verify a) photo (faces fs) (face_paths a fs) None"
  have laws: "face_laws a" "folder_ok (faces fs)" "photo_form a (se_boundary e) photo fn \<in> {None, Some photo}"
    using assms(1-3) by (simp_all add: joint_inv_def joint_ok_def)
  have "l = Up" using assms(4,5) linked_down by (cases l) auto
  then have rec: "Recognize f (face_transport a (sf_baseURL f) fs) (se_boundary e) photo fn = Inr result"
    using assms(4,5) by (simp add: linked_up)
  from Recognize_served(1) [OF laws rec refl] assms(6) obtain m d where
    best: "?best = Some (m, d)" "m \<noteq> []" "d \<le> fa_threshold a" by blast
  have "rc_StudentID result = m" by (rule Recognize_served(2) [OF laws rec refl best])
  moreover have "distance_to a photo fs (m @ ''.jpg'') = Some d"
    using closest_registered [OF laws(1,2) best(1)] by blast
  then have "m @ ''.jpg'' \<in> fst ` set (faces fs)"
    by (cases "map_of (faces fs) (m @ ''.jpg'')") (auto simp: distance_to_def dest: map_of_SomeD intro: rev_image_eqI)
  then have "m @ ''.jpg'' \<in> face_file ` set (students s)" using assms(1) by (auto simp: joint_inv_def)
  then have "m \<in> st_ID ` set (students s)" by (auto simp: face_file_def)
  ultimately show ?thesis by simp
qed

lemma login_not_found:
  assumes "joint_inv (s, fs)" and "joint_ok a e c" and "FaceLogin h (linked h a l fs e) c s = (rep, s')" and "fst rep = 404"
  shows "sq_fault (se_sq1 e) \<noteq> None"
proof
  assume "sq_fault (se_sq1 e) = None"
  then have found: "GetStudentByID (se_sq1 e) s i = (row_find st_ID i (students s), None)" for i
    by (simp add: GetStudentByID_def sq_query_def)
  from assms(3,4) obtain fn photo f result where login: "sr_photo c = Some (fn, Inr photo)" "faceClient h = Some f"
    "Recognize f (se_face (linked h a l fs e)) (se_boundary e) photo fn = Inr result" "Matched result"
    "row_find st_ID (rc_StudentID result) (students s) = None"
    by (auto simp: FaceLogin_def found split: option.splits sum.splits prod.splits if_splits)
  from recognized_student [OF assms(1,2) login(1-4)] login(5) show False by (simp add: row_find_None_iff)
qed


lemma recognize_finds:
  assumes "face_laws a" and "folder_ok (faces fs)" and "photo_form a b photo fn = Some photo"
    and "fa_tmp a \<noteq> None" and "fa_extract a photo = Faces k"
    and "map_of (faces fs) (i @ ''.jpg'') = Some picture" and "fa_verify a photo picture = Some d" and "d \<le> fa_threshold a"
    and "\<forall>(n, x) \<in> set (faces fs). n \<noteq> i @ ''.jpg'' \<longrightarrow> (case fa_verify a photo x of None \<Rightarrow> True | Some d' \<Rightarrow> d < d')"
  shows "\<exists>result. Recognize f (face_transport a (sf_baseURL f) fs) b photo fn = Inr result \<and> Matched result
    \<and> rc_StudentID result = i"
    and "snd (face_serve a ''/recognize'' (parts_request b url [FileField ''photo'' fn photo]) fs) = fs"
proof -
  have dist: "distance_to a photo fs (i @ ''.jpg'') = Some d" using assms(6,7) by (simp add: distance_to_def)
  have "d < d'" if "n \<noteq> i @ ''.jpg''" "distance_to a photo fs n = Some d'" for n d'
    using that assms(9) by (cases "map_of (faces fs) n") (auto simp: distance_to_def dest!: map_of_SomeD)
  then have best: "closest (fa_verify a) photo (faces fs) (face_paths a fs) None = Some (i, d)"
    by (intro closest_found [OF assms(1,2) dist]) blast
  have some: "face_paths a fs \<noteq> []" using distance_registered [OF assms(1,2) dist] by auto
  obtain t where t: "fa_tmp a = Some t" using assms(4) by blast
  show "snd (face_serve a ''/recognize'' (parts_request b url [FileField ''photo'' fn photo]) fs) = fs"
    using some by (simp add: serve_recognize assms(3) recognize_face_def assms(5) t Let_def)
  obtain result where r: "Recognize f (face_transport a (sf_baseURL f) fs) b photo fn = Inr result"
    using some by (simp add: Recognize_def post_face serve_recognize assms(3) recognize_face_def assms(5) t Let_def respond_def answer_def)
  have "i \<noteq> []" using closest_registered [OF assms(1,2) best] by (simp add: file_id_def)
  with Recognize_served [OF assms(1,2) _ r refl, unfolded best] assms(3,8) r
  show "\<exists>result. Recognize f (face_transport a (sf_baseURL f) fs) b photo fn = Inr result \<and> Matched result
    \<and> rc_StudentID result = i" by simp
qed

lemma register_stores:
  assumes "joint_ok a e c" and "sr_photo c = Some (fn, Inr photo)" and "faceClient h = Some f"
    and "school_match cfg c = Some SRegister"
    and "RegisterStudent h (linked h a Up fs e) c s = ((201, StudentJSON st), s1, Some (Inr rr))"
    and "joint_serve cfg h a Up e c (s, fs) = (rep, s1', fs1)"
  shows "s1' = s1 \<and> map_of (faces fs1) (face_file st) = Some photo"
proof -
  let ?e = "linked h a Up fs e"
  let ?rq = "parts_request (se_boundary2 e) (sf_baseURL f @ ''/register'')
      [Field ''student_id'' (st_ID st), FileField ''photo'' fn photo]"
  have st: "st_ID st = se_id e" using registered_student [OF assms(5)] by simp
  from assms(5) have "Register f (se_face ?e) (se_boundary2 e) (st_ID st) photo fn = Inr rr"
    using assms(2,3) by (auto simp: RegisterStudent_def split: sum.splits option.splits prod.splits)
  then have ok: "StatusCode (fst (face_serve a ''/register'' ?rq fs)) = 200"
    using assms(3) by (auto simp: Register_def linked_up post_face split: if_splits)
  have "faces (snd (face_serve a ''/register'' ?rq fs)) = AList.update (face_file st) photo (faces fs)"
    unfolding face_file_def
    by (rule register_folder(2) [OF _ _ _ prod.collapse [symmetric]]) (use assms(1,2) st ok in \<open>auto simp: joint_ok_def\<close>)
  moreover have "fs1 = snd (face_serve a ''/register'' ?rq fs)" "s1' = s1"
    using assms(2-6) by (simp_all add: joint_serve_def Let_def school_serve_def face_call_def reaches_def)
  ultimately show ?thesis by (simp add: update_conv')
qed

text \<open>
  C8. A student whose registration was answered with 201 and whose picture the face service accepted can log
  in later: after any requests and failures in between, a photo in which a face is found, which is within the
  threshold of that picture and further from every other picture in the folder, is answered with 200
  and adds one record, of that student at that instant, if the database is up and the identifier of the
  record is new.
\<close>

theorem registered_face_logs_in:
  assumes "joint_inv (s, fs)" and "faceClient h = Some f"
    and reg: "joint_ok a e c" "school_match cfg c = Some SRegister" "sr_photo c = Some (fn, Inr picture)"
      "RegisterStudent h (linked h a Up fs e) c s = ((201, StudentJSON st), s0, Some (Inr rr))"
      "joint_serve cfg h a Up e c (s, fs) = (rep, s1, fs1)"
    and "runs (joint_step cfg h) (s1, fs1) es (s2, fs2)"
    and login: "joint_ok a' e' c'" "school_match cfg c' = Some SFaceLogin" "sr_photo c' = Some (fn', Inr photo)"
      "photo_form a' (se_boundary e') photo fn' = Some photo"
    and found: "fa_tmp a' \<noteq> None" "fa_extract a' photo = Faces k"
      "fa_verify a' photo picture = Some d" "d \<le> fa_threshold a'"
      "\<forall>(n, x) \<in> set (faces fs2). n \<noteq> face_file st \<longrightarrow> (case fa_verify a' photo x of None \<Rightarrow> True | Some d' \<Rightarrow> d < d')"
    and up: "sq_fault (se_sq1 e') = None" "sq_fault (se_sq2 e') = None" "se_id e' \<notin> a_id ` set (attendance s2)"
  shows "\<exists>body. joint_serve cfg h a' Up e' c' (s2, fs2) =
    ((200, body), s2\<lparr>attendance := attendance s2 @ [mark_row (se_id e') (se_now e') (st_ID st)]\<rparr>, fs2)"
proof -
  have inv1: "joint_inv (s1, fs1)" by (rule joint_step_inv [OF assms(1) reg(1,5)])
  have inv2: "joint_inv (s2, fs2)" by (rule joint.inv_runs [OF assms(8) inv1])
  note stored = register_stores [OF reg(1,3) assms(2) reg(2,4,5)]
  then have pic: "map_of (faces fs2) (st_ID st @ ''.jpg'') = Some picture"
    using joint_runs_keep [OF assms(8) inv1, of "face_file st"] by (simp add: face_file_def)
  have "st \<in> set (students s1)" using registered_student [OF reg(4)] stored by simp
  then have "st \<in> set (students s2)" using joint_runs_grow [OF assms(8) inv1] by (auto simp: grows_def)
  moreover have "distinct (map st_ID (students s2))" using inv2 by (simp add: joint_inv_def wf_school_def unique_school_def)
  ultimately have get: "GetStudentByID (se_sq1 e') s2 (st_ID st) = (Some st, None)"
    using up(1) by (simp add: GetStudentByID_def sq_query_def row_find_unique)
  have laws: "face_laws a'" "folder_ok (faces fs2)" using login(1) inv2 by (simp_all add: joint_ok_def joint_inv_def)
  note finds = recognize_finds [OF laws login(4) found(1,2) pic found(3,4) found(5) [unfolded face_file_def]]
  obtain result where result: "Recognize f (face_transport a' (sf_baseURL f) fs2) (se_boundary e') photo fn' = Inr result"
    "Matched result" "rc_StudentID result = st_ID st"
    using finds(1) by blast
  have mark: "MarkAttendance (se_sq2 e') (se_id e') (se_now e') s2 (st_ID st) = (rec, None,
      s2\<lparr>attendance := attendance s2 @ [mark_row (se_id e') (se_now e') (st_ID st)]\<rparr>)"
    if "rec = \<lparr>ar_ID = se_id e', ar_StudentID = st_ID st, ar_Name = [], ar_Timestamp = se_now e', ar_Status = ''present''\<rparr>" for rec
    using up(2,3) that by (simp add: MarkAttendance_def Let_def sq_exec_def mark_row_def)
  have "\<exists>body. FaceLogin h (linked h a' Up fs2 e') c' s2 =
      ((200, body), s2\<lparr>attendance := attendance s2 @ [mark_row (se_id e') (se_now e') (st_ID st)]\<rparr>)"
    using result get mark [OF refl] login(3) assms(2) by (simp add: FaceLogin_def linked_up)
  then show ?thesis
    using login(2,3) assms(2) finds(2) by (auto simp: joint_serve_def Let_def school_serve_def face_call_def reaches_def)
qed

section \<open>A world for the witnesses\<close>

text \<open>A service that takes equal pictures for the same face, and the forms of \<open>school_world\<close>.\<close>

definition plain_face :: face_app where
  "plain_face =
     \<lparr>fa_web = \<lparr>web_render = write_value, web_reason = (\<lambda>_. ''OK'')\<rparr>, fa_invalid = [],
      fa_bind_register = (\<lambda>_ body.
        if body = multipart_body ''b'' [Field ''student_id'' ''s1'', FileField ''photo'' ''a.jpg'' ''x'']
        then Some (''s1'', ''x'') else None),
      fa_bind_photo = (\<lambda>_ body.
        if body = multipart_body ''b'' [FileField ''photo'' ''a.jpg'' ''x''] then Some ''x'' else None),
      fa_extract = (\<lambda>_. Faces 1), fa_verify = (\<lambda>p x. Some (if p = x then 0 else 1)), fa_glob = (\<lambda>ns. ns),
      fa_move = (\<lambda>n x fs. Some (AList.update n x fs)), fa_tmp = Some ''t'', fa_model = ''VGG-Face'',
      fa_threshold = rnd (2 / 5)\<rparr>"

definition no_faces :: face_state where
  "no_faces = \<lparr>faces = [], tmp_files = []\<rparr>"

definition ann_faces :: face_state where
  "ann_faces = \<lparr>faces = [(''s1.jpg'', ''x'')], tmp_files = []\<rparr>"

lemma plain_face_laws: "face_laws plain_face"
  by (simp add: face_laws_def plain_face_def renders_write_value)

lemma plain_forms:
  "register_form plain_face ''b'' ''s1'' ''x'' ''a.jpg'' = Some (''s1'', ''x'')"
  "photo_form plain_face ''b'' ''x'' ''a.jpg'' = Some ''x''"
  by (simp_all add: register_form_def photo_form_def plain_face_def)

lemma plain_register_form: "register_form plain_face ''b'' ''r1'' ''x'' ''a.jpg'' = None"
  by (simp add: register_form_def plain_face_def multipart_body_def crlf_def escapeQuotes_def)

lemma plain_joint_ok:
  "joint_ok plain_face (school_world ''s1'') (school_post p)" "joint_ok plain_face (school_world ''r1'') (school_post p)"
  by (simp_all add: joint_ok_def plain_face_laws school_world_def school_post_def file_id_def alnum_def digit_def
      plain_forms plain_register_form)

lemma ann_face_registers:
  "RegisterStudent school_handler (linked school_handler plain_face Up no_faces (school_world ''s1''))
     (school_post ''/api/students'') \<lparr>students = [], attendance = []\<rparr> =
   ((201, StudentJSON ann_student), ann_school, Some (Register (NewSchoolFace ''http://localhost:8000'')
     (face_transport plain_face ''http://localhost:8000'' no_faces) ''b'' ''s1'' ''x'' ''a.jpg''))"
  by (simp add: RegisterStudent_def school_post_def upload_photo_def school_handler_def CreateStudent_def school_world_def
      plain_sqlite_def conflict_def ann_student_def ann_school_def new_student_def Let_def linked_def link_transport_def
      NewSchoolFace_def)

lemma plain_registers:
  "face_serve plain_face ''/register'' (parts_request ''b'' u [Field ''student_id'' ''s1'', FileField ''photo'' ''a.jpg'' ''x'']) no_faces =
     (respond (fa_web plain_face) (Reply (GMap [(''status'', GString ''registered''), (''student_id'', GString ''s1'')])), ann_faces)"
  by (simp add: serve_register plain_forms register_face_def) (simp add: plain_face_def no_faces_def ann_faces_def)

lemma ann_face_answer:
  "\<exists>rr. Register (NewSchoolFace ''http://localhost:8000'') (face_transport plain_face ''http://localhost:8000'' no_faces)
     ''b'' ''s1'' ''x'' ''a.jpg'' = Inr rr"
  using post_face [of plain_face "''http://localhost:8000''" no_faces "''b''" "''/register''"]
  by (simp add: Register_def NewSchoolFace_def plain_registers respond_def answer_def)

lemma ann_joint_registers:
  "joint_serve (LoadSchool Map.empty) school_handler plain_face Up (school_world ''s1'') (school_post ''/api/students'')
     (\<lparr>students = [], attendance = []\<rparr>, no_faces) = ((201, StudentJSON ann_student), ann_school, ann_faces)"
proof -
  have "face_call (LoadSchool Map.empty) school_handler (linked school_handler plain_face Up no_faces (school_world ''s1''))
      (school_post ''/api/students'') \<lparr>students = [], attendance = []\<rparr> =
      Some (''/register'', parts_request ''b'' ''http://localhost:8000/register''
        [Field ''student_id'' ''s1'', FileField ''photo'' ''a.jpg'' ''x''])"
  proof -
    have "faceClient school_handler = Some (NewSchoolFace ''http://localhost:8000'')"
      "sr_photo (school_post p) = Some (''a.jpg'', Inr ''x'')" for p
      by (simp_all add: school_handler_def school_post_def)
    then show ?thesis
      by (simp add: face_call_def post_routes ann_face_registers) (simp add: NewSchoolFace_def school_world_def ann_student_def)
  qed
  then show ?thesis
    by (simp add: joint_serve_def Let_def school_serve_def post_routes ann_face_registers reaches_def plain_registers)
qed


theorem registered_face_logs_in_witness:
  "\<exists>body. joint_serve (LoadSchool Map.empty) school_handler plain_face Up (school_world ''r1'') (school_post ''/api/face-login'')
     (ann_school, ann_faces) = ((200, body), marked_school, ann_faces)"
proof -
  obtain rr where rr: "Register (NewSchoolFace ''http://localhost:8000'') (face_transport plain_face ''http://localhost:8000'' no_faces)
     ''b'' ''s1'' ''x'' ''a.jpg'' = Inr rr" using ann_face_answer by blast
  have "0 \<le> fa_threshold plain_face" by (simp add: plain_face_def f64.rd_nonneg)
  have "\<exists>body. joint_serve (LoadSchool Map.empty) school_handler plain_face Up (school_world ''r1'') (school_post ''/api/face-login'')
     (ann_school, ann_faces) = ((200, body), ann_school\<lparr>attendance := attendance ann_school
        @ [mark_row (se_id (school_world ''r1'')) (se_now (school_world ''r1'')) (st_ID ann_student)]\<rparr>, ann_faces)"
    by (rule registered_face_logs_in [where s = "\<lparr>students = [], attendance = []\<rparr>" and fs = no_faces and es = "[]" and st = ann_student
        and f = "NewSchoolFace ''http://localhost:8000''" and d = 0 and k = 1 and picture = "''x''" and photo = "''x''",
        OF _ _ plain_joint_ok(1) post_routes(1) _ ann_face_registers [unfolded rr] ann_joint_registers _ plain_joint_ok(2) post_routes(2)])
      (use \<open>0 \<le> fa_threshold plain_face\<close> in \<open>simp_all add: joint_inv_def wf_school_def unique_school_def known_students_def folder_ok_def no_faces_def
        school_handler_def school_post_def runs_nil school_world_def photo_form_def plain_face_def ann_faces_def face_file_def
        ann_student_def plain_sqlite_def ann_school_def\<close>)
  then show ?thesis by (simp add: school_world_def marked_school_def ann_school_def ann_student_def)
qed

end
