(* ===== verification/PyJson.thy ===== *)
theory PyJson
  imports FastApi "HOL-Library.AList"
begin

text \<open>
  Python's \<open>json.dumps\<close> with its default settings and \<open>json.loads\<close> of such a text, for the values that
  \<open>gval\<close> has: strings in ASCII with escapes, floats by \<open>repr\<close>, a space after commas and colons. The lemma:
  what is dumped is loaded as the same value.
\<close>

section \<open>Floats\<close>

text \<open>\<open>repr\<close> of a float: the shortest decimal, in exponent form outside of 1e-4 to 1e16, otherwise always
  with a fraction.\<close>

definition py_plain :: "string \<Rightarrow> int \<Rightarrow> string" where
  "py_plain ds dp = plain_text ds dp @ (if int (length ds) \<le> dp then ''.0'' else [])"

definition py_exponent :: "string \<Rightarrow> int \<Rightarrow> string" where
  "py_exponent ds dp =
     take 1 ds @ (if 1 < length ds then CHR ''.'' # drop 1 ds else [])
     @ CHR ''e'' # (if dp < 1 then CHR ''-'' else CHR ''+'')
     # (if \<bar>dp - 1\<bar> < 10 then ''0'' else []) @ nat_text (nat \<bar>dp - 1\<bar>)"

definition py_repr_pos :: "rat \<Rightarrow> string" where
  "py_repr_pos x =
     (let (ds, dp) = float_digits x in if dp \<le> - 4 \<or> 16 < dp then py_exponent ds dp else py_plain ds dp)"

definition py_repr :: "float64 \<Rightarrow> string" where
  "py_repr x =
     (if x = 0 then ''0.0'' else if x < 0 then CHR ''-'' # py_repr_pos (- x) else py_repr_pos x)"

section \<open>Strings\<close>

definition py_escape :: "nat \<Rightarrow> string" where
  "py_escape r =
     (if r = 34 \<or> r = 92 then [backslash, mk_byte r]
      else if r = 10 then [backslash, CHR ''n'']
      else if r = 13 then [backslash, CHR ''r'']
      else if r = 9 then [backslash, CHR ''t'']
      else if r = 12 then [backslash, CHR ''f'']
      else if r = 8 then [backslash, CHR ''b'']
      else if 32 \<le> r \<and> r < 127 then [mk_byte r]
      else if r < 65536 then u_escape r
      else u_escape (55296 + (r - 65536) div 1024) @ u_escape (56320 + (r - 65536) mod 1024))"

definition py_quote :: "string \<Rightarrow> string" where
  "py_quote s = dquote # concat (map py_escape (runes s)) @ [dquote]"

section \<open>Writing and reading\<close>

fun py_dumps :: "gval \<Rightarrow> string" where
  "py_dumps GNil = ''null''"
| "py_dumps (GBool b) = (if b then ''true'' else ''false'')"
| "py_dumps (GInt i) = int_text i"
| "py_dumps (GFloat x) = py_repr x"
| "py_dumps (GString s) = py_quote s"
| "py_dumps (GSlice vs) = CHR ''['' # Join (map py_dumps vs) '', '' @ '']''"
| "py_dumps (GMap m) = CHR ''{'' # Join (map (\<lambda>(k, v). py_quote k @ '': '' @ py_dumps v) m) '', '' @ ''}''"

text \<open>A number is an integer if its text has neither a dot nor an exponent. In an object the last value of
  a key counts.\<close>

definition py_number :: "string \<Rightarrow> gval option" where
  "py_number t =
     (if list_all (\<lambda>c. c \<notin> {CHR ''.'', CHR ''e'', CHR ''E''}) t then Some (GInt \<lfloor>number_value t\<rfloor>)
      else map_option GFloat (float64_text t))"

definition py_dict :: "(string \<times> 'v) list \<Rightarrow> (string \<times> 'v) list" where
  "py_dict ms = foldl (\<lambda>d (k, v). AList.update k v d) [] ms"

fun gval_of :: "json \<Rightarrow> gval option" where
  "gval_of JNull = Some GNil"
| "gval_of (JBool b) = Some (GBool b)"
| "gval_of (JNum t) = py_number t"
| "gval_of (JStr s) = Some (GString s)"
| "gval_of (JArr vs) = map_option GSlice (those (map gval_of vs))"
| "gval_of (JObj ms) =
     map_option (\<lambda>l. GMap (py_dict l)) (those (map (\<lambda>(k, v). map_option (Pair k) (gval_of v)) ms))"

definition py_loads :: "string \<Rightarrow> gval option" where
  "py_loads s = Option.bind (Unmarshal_text s) gval_of"

section \<open>Floats read back\<close>

lemma py_plain_parts:
  assumes "decimal ds" and "hd ds \<noteq> CHR ''0''"
  shows "\<exists>i f. py_plain ds dp = i @ CHR ''.'' # f \<and> decimal i \<and> (hd i = CHR ''0'' \<longrightarrow> i = ''0'') \<and> f \<noteq> [] \<and> list_all digit f
    \<and> of_nat (digits_value (i @ f)) * 10 powi (- int (length f)) = (of_nat (digits_value ds) * 10 powi (dp - int (length ds)) :: rat)"
proof (cases "int (length ds) \<le> dp")
  case True
  have ds: "ds \<noteq> []" "list_all digit ds" using assms(1) by (simp_all add: decimal_def)
  let ?i = "ds @ replicate (nat dp - length ds) CHR ''0''"
  have "0 < dp" using True ds(1) by (cases ds) auto
  then have "py_plain ds dp = ?i @ CHR ''.'' # ''0''" using True by (simp add: py_plain_def plain_text_def)
  moreover have "decimal ?i" using ds by (auto simp: decimal_def list_all_iff)
  moreover have "hd ?i \<noteq> CHR ''0''" using assms(2) ds(1) by simp
  moreover have "digits_value (?i @ ''0'') = digits_value ds * 10 ^ (nat dp - length ds) * 10"
    by (simp add: digits_value_append digits_value_zeros) (simp add: digits_value_def)
  moreover have "(10::rat) powi (dp - int (length ds)) = 10 ^ (nat dp - length ds)"
    using True by (simp add: power_int_def nat_diff_distrib)
  ultimately show ?thesis
    by (intro exI [of _ ?i] exI [of _ "''0''"]) (simp add: power_int_minus)
next
  case False
  have ds: "ds \<noteq> []" "list_all digit ds" using assms(1) by (simp_all add: decimal_def)
  let ?i = "if 0 < dp then take (nat dp) ds else ''0''"
  let ?f = "replicate (nat (- dp)) CHR ''0'' @ drop (nat dp) ds"
  have "py_plain ds dp = ?i @ CHR ''.'' # ?f" using False by (auto simp: py_plain_def plain_text_def)
  moreover have "decimal ?i" using ds by (auto simp: decimal_def list_all_iff dest: in_set_takeD)
  moreover have "hd ?i = CHR ''0'' \<longrightarrow> ?i = ''0''" using assms(2) ds by (auto simp: decimal_def)
  moreover have "?f \<noteq> []" and "list_all digit ?f" using False ds by (auto simp: list_all_iff dest: in_set_dropD)
  moreover have "of_nat (digits_value (?i @ ?f)) * 10 powi (- int (length ?f)) =
      (of_nat (digits_value ds) * 10 powi (dp - int (length ds)) :: rat)"
  proof (cases "0 < dp")
    case True
    then have "?i @ ?f = ds" and "- int (length ?f) = dp - int (length ds)" using False by auto
    then show ?thesis by (simp only:)
  next
    case nonpos: False
    then have "?i @ ?f = replicate (Suc (nat (- dp))) CHR ''0'' @ ds" and "- int (length ?f) = dp - int (length ds)" by auto
    then show ?thesis by (simp only: digits_value_append digits_value_zeros) simp
  qed
  ultimately show ?thesis by blast
qed

lemma Atoi_padded: "n < 10 \<Longrightarrow> Atoi (c # ''0'' @ nat_text n) = Atoi (c # nat_text n)" if "c = CHR ''-'' \<or> c = CHR ''+''"
  using that digits_value_append [of "''0''" "nat_text n"]
  by (auto simp: Atoi_def nat_text_nonempty nat_text_digits digits_value_nat_text digits_value_def Let_def)

lemma py_exponent_parts:
  assumes "decimal ds" and "hd ds \<noteq> CHR ''0''" and "\<bar>dp - 1\<bar> < 2 ^ 62"
  shows "\<exists>i f e. py_exponent ds dp = i @ (if f = [] then [] else CHR ''.'' # f) @ e \<and> decimal i \<and> (hd i = CHR ''0'' \<longrightarrow> i = ''0'')
    \<and> list_all digit f \<and> number_exponent e \<and> e \<noteq> []
    \<and> of_nat (digits_value (i @ f)) * 10 powi (fst (Atoi (drop 1 e)) - int (length f)) =
       (of_nat (digits_value ds) * 10 powi (dp - int (length ds)) :: rat)"
proof -
  let ?s = "if dp < 1 then CHR ''-'' else CHR ''+''"
  let ?n = "(if \<bar>dp - 1\<bar> < 10 then ''0'' else []) @ nat_text (nat \<bar>dp - 1\<bar>)"
  obtain c cs where ds: "ds = c # cs" using assms(1) by (cases ds) (auto simp: decimal_def)
  have "fst (Atoi (?s # ?n)) = dp - 1"
    using assms(3) Atoi_signed [of "nat \<bar>dp - 1\<bar>"] Atoi_padded [of ?s "nat \<bar>dp - 1\<bar>"]
    by (cases "dp < 1"; cases "\<bar>dp - 1\<bar> < 10") (simp_all add: nat_less_iff)
  moreover have "number_exponent (CHR ''e'' # ?s # ?n)"
    by (simp add: number_exponent_def decimal_def nat_text_digits nat_text_nonempty)
  ultimately show ?thesis
    using assms(1,2)
    by (intro exI [of _ "[c]"] exI [of _ cs] exI [of _ "CHR ''e'' # ?s # ?n"])
      (auto simp: py_exponent_def ds decimal_def diff_diff_eq)
qed

lemma py_repr_pos_back:
  assumes "0 < x" "is_f64 x"
  shows "unsigned_number (py_repr_pos x) \<and> f64_round (number_value (py_repr_pos x)) = x
    \<and> \<not> list_all (\<lambda>c. c \<notin> {CHR ''.'', CHR ''e'', CHR ''E''}) (py_repr_pos x)"
proof -
  obtain ds dp where d: "float_digits x = (ds, dp)" by (cases "float_digits x")
  from assms have fd: "decimal ds" "hd ds \<noteq> CHR ''0''" "\<bar>dp - 1\<bar> < 2 ^ 62"
    "f64_round (of_nat (digits_value ds) * 10 powi (dp - int (length ds))) = x"
    using float_digits_back [OF assms(1) _ _ d] by (simp_all add: is_f64_def)
  obtain i f e where u: "py_repr_pos x = i @ (if f = [] then [] else CHR ''.'' # f) @ e"
    and parts: "decimal i" "hd i = CHR ''0'' \<longrightarrow> i = ''0''" "list_all digit f" "number_exponent e" "f \<noteq> [] \<or> e \<noteq> []"
    and v: "of_nat (digits_value (i @ f)) * 10 powi (fst (Atoi (drop 1 e)) - int (length f)) =
         (of_nat (digits_value ds) * 10 powi (dp - int (length ds)) :: rat)"
  proof (cases "dp \<le> - 4 \<or> 16 < dp")
    case True
    then have "py_repr_pos x = py_exponent ds dp" by (auto simp: py_repr_pos_def d)
    with py_exponent_parts [OF fd(1-3)] that show ?thesis by metis
  next
    case False
    then have r: "py_repr_pos x = py_plain ds dp" by (simp add: py_repr_pos_def d)
    from py_plain_parts [OF fd(1,2), of dp] obtain i f where
      "py_plain ds dp = i @ CHR ''.'' # f" "decimal i" "hd i = CHR ''0'' \<longrightarrow> i = ''0''" "f \<noteq> []" "list_all digit f"
      "of_nat (digits_value (i @ f)) * 10 powi (- int (length f)) = (of_nat (digits_value ds) * 10 powi (dp - int (length ds)) :: rat)"
      by blast
    then show ?thesis using r by (intro that [of i f "[]"]) (simp_all add: number_exponent_def Atoi_def)
  qed
  have "e = [] \<or> (\<exists>r. e = CHR ''e'' # r)" using parts(4) by (auto simp: number_exponent_def)
  from number_value_parts [OF parts(1,3) refl this] v fd(4)
  have "f64_round (number_value (py_repr_pos x)) = x" unfolding u by simp
  moreover have "unsigned_number (py_repr_pos x)" unfolding unsigned_number_def using u parts by blast
  moreover have "\<not> list_all (\<lambda>c. c \<notin> {CHR ''.'', CHR ''e'', CHR ''E''}) (py_repr_pos x)"
    using parts(4,5) by (auto simp: u number_exponent_def)
  ultimately show ?thesis by blast
qed

lemma zero_repr: "unsigned_number ''0.0''" "number_value ''0.0'' = 0"
proof -
  show "unsigned_number ''0.0''"
    unfolding unsigned_number_def
    by (intro exI [of _ "''0''"] exI [of _ "''0''"] exI [of _ "[]"]) (simp add: decimal_def number_exponent_def)
  have "decimal ''0''" "list_all digit ''0''" by (simp_all add: decimal_def)
  from number_value_parts [OF this refl, of "[]"] show "number_value ''0.0'' = 0"
    by (simp add: digits_value_def)
qed

text \<open>The text of a float is a JSON number that is not an integer and has the value of the float.\<close>

lemma py_repr_reads:
  assumes "is_f64 x"
  shows "reads (py_repr x) (JNum (py_repr x)) h" and "py_number (py_repr x) = Some (GFloat x)"
proof -
  have minus: "is_f64 (- x)" using assms by (simp add: is_f64_def f64_round_minus)
  obtain u where u: "unsigned_number u" "py_repr x = u \<or> py_repr x = CHR ''-'' # u"
    "f64_round (number_value (py_repr x)) = x"
    "\<not> list_all (\<lambda>c. c \<notin> {CHR ''.'', CHR ''e'', CHR ''E''}) (py_repr x)"
  proof (cases "x = 0")
    case True
    then show ?thesis using zero_repr by (intro that [of "''0.0''"]) (simp_all add: py_repr_def f64_round_def round_binary_def)
  next
    case False
    show ?thesis
    proof (cases "x < 0")
      case True
      with py_repr_pos_back [of "- x"] minus show ?thesis
        by (intro that [of "py_repr_pos (- x)"]) (simp_all add: py_repr_def number_value_minus f64_round_minus)
    next
      case nonneg: False
      with py_repr_pos_back [of x] assms False show ?thesis
        by (intro that [of "py_repr_pos x"]) (simp_all add: py_repr_def)
    qed
  qed
  have "u \<noteq> [] \<and> digit (hd u)" using u(1) by (auto simp: unsigned_number_def decimal_def neq_Nil_conv)
  then show "reads (py_repr x) (JNum (py_repr x)) h"
    using u(2) parse_unsigned_number [OF u(1)] by (intro reads_number) auto
  show "py_number (py_repr x) = Some (GFloat x)"
    using u(3,4) assms by (simp add: py_number_def float64_text_def ParseFloat_def f64_round_def Let_def is_f64_def)
qed

section \<open>Strings read back\<close>

lemma parse_surrogates:
  assumes "65536 \<le> r" "r < 1114112"
  shows "parse_string acc (u_escape (55296 + (r - 65536) div 1024) @ u_escape (56320 + (r - 65536) mod 1024) @ t) =
    parse_string (acc @ encode_rune r) t"
proof -
  define q where "q = r - 65536"
  have q: "q < 1048576" using assms by (simp add: q_def)
  let ?a = "55296 + q div 1024" and ?b = "56320 + q mod 1024"
  have a: "?a < 56320" using q by auto
  have b: "?b < 57344" by simp
  have "low_half (u_escape ?b @ t) = Some (?b, t)"
    using hex4_u_escape [of ?b t] b by (simp add: u_escape_def low_half_def del: hex4.simps)
  moreover have "(?a - 55296) * 1024 + (?b - 56320) + 65536 = r"
    using div_mult_mod_eq [of q 1024] assms(1) by (simp add: q_def)
  ultimately have un: "unescape_u ?a (u_escape ?b @ t) = (r, t)"
    using a b by (simp add: unescape_u_def surrogate_def)
  have "u_escape ?a @ u_escape ?b @ t = backslash # CHR ''u'' # hex_digit (?a div 4096 mod 16) # hex_digit (?a div 256 mod 16)
      # hex_digit (?a div 16 mod 16) # hex_digit (?a mod 16) # u_escape ?b @ t"
    by (simp add: u_escape_def)
  then show ?thesis
    using hex4_u_escape [of ?a "u_escape ?b @ t"] a un
    by (simp add: q_def [symmetric] parse_string.simps json_chars del: hex4.simps)
qed

lemma parse_py_escape:
  assumes "valid_rune r"
  shows "parse_string acc (py_escape r @ t) = parse_string (acc @ encode_rune r) t"
proof -
  have e: "parse_string acc (backslash # e # t) = parse_string (acc @ [x]) t"
    if "escape_char e = Some x" "e \<noteq> CHR ''u''" for e x
    using that by (simp add: parse_string.simps json_chars)
  consider "r < 128" | "128 \<le> r" "r < 65536" | "65536 \<le> r" by linarith
  then show ?thesis
  proof cases
    case 1
    define c where "c = mk_byte r"
    have c: "r = byte c" "byte c < 128" using 1 of_mk_byte [of r] by (simp_all add: c_def del: of_mk_byte)
    show ?thesis
    proof (cases "r < 127 \<and> 32 \<le> r \<and> r \<noteq> 34 \<and> r \<noteq> 92")
      case True
      then have "c \<noteq> dquote" "c \<noteq> backslash" using c by (auto simp: json_chars)
      with True parse_plain [of c acc t] show ?thesis using c by (auto simp: py_escape_def ascii_encode)
    next
      case False
      have "parse_string acc (u_escape r @ t) = parse_string (acc @ encode_rune r) t"
        using 1 by (intro parse_u_escape) (simp_all add: surrogate_def)
      moreover have "mk_byte 34 = dquote" "mk_byte 92 = backslash" by code_simp+
      ultimately show ?thesis
        using False 1 e by (auto simp: py_escape_def encode_ascii escape_char_def json_chars)
    qed
  next
    case 2
    with assms have "\<not> surrogate r" by (auto simp: valid_rune_def surrogate_def)
    with 2 show ?thesis by (simp add: py_escape_def parse_u_escape)
  next
    case 3
    then show ?thesis using assms parse_surrogates [of r acc t] by (simp add: py_escape_def valid_rune_def)
  qed
qed

lemma parse_py_escapes:
  "list_all valid_rune rs \<Longrightarrow>
     parse_string acc (concat (map py_escape rs) @ dquote # t) = Some (acc @ string_of_runes rs, t)"
  by (induction rs arbitrary: acc) (simp_all add: parse_py_escape, simp add: parse_string.simps)

lemma parse_py_quote: "parse_string [] (concat (map py_escape (runes s)) @ dquote # t) = Some (to_utf8 s, t)"
  using parse_py_escapes [of "runes s" "[]" t] runes_valid by (auto simp: to_utf8_def list_all_iff)

lemma reads_py_quote: "reads (py_quote s) (JStr (to_utf8 s)) h"
  by (rule readsI) (simp add: py_quote_def value_step_def skip_space_Cons parse_py_quote)

lemma key_reads_py: "key_reads (py_quote k @ '':'') (to_utf8 k)"
  by (simp add: key_reads_def py_quote_def member_key_def skip_space_Cons parse_py_quote)

lemma skip_space_space [simp]: "skip_space (CHR '' '' # s) = skip_space s"
  by (simp add: skip_space_def json_space_def)

lemma key_reads_space: "key_reads t k \<Longrightarrow> key_reads (CHR '' '' # t) k"
  by (simp add: key_reads_def member_key_def)

lemma parse_value_space: "parse_value n d (CHR '' '' # s) = parse_value n d s"
  by (cases n) (simp_all add: value_step_def)

lemma reads_space: "reads s w h \<Longrightarrow> reads (CHR '' '' # s) w h"
  by (simp add: reads_def parse_value_space)

section \<open>Values read back\<close>

fun py_json :: "gval \<Rightarrow> json" where
  "py_json (GFloat x) = JNum (py_repr x)"
| "py_json (GSlice vs) = JArr (map py_json vs)"
| "py_json (GMap m) = JObj (map (\<lambda>(k, v). (to_utf8 k, py_json v)) m)"
| "py_json g = json_in_order g"

fun keys_distinct :: "gval \<Rightarrow> bool" where
  "keys_distinct (GSlice vs) = list_all keys_distinct vs"
| "keys_distinct (GMap m) = (distinct (map fst m) \<and> list_all (\<lambda>(k, v). keys_distinct v) m)"
| "keys_distinct _ = True"

lemma Join_head: "Join ((c # a) # xs) sep = c # Join (a # xs) sep"
  by (cases xs) simp_all

lemma Join_space: "Join (x # xs) '', '' = Join (x # map (Cons CHR '' '') xs) '',''"
  by (induction xs arbitrary: x) (simp_all add: Join_head)

lemma int_number: "py_number (int_text i) = Some (GInt i)"
proof -
  have n: "number_value (nat_text n) = of_nat n" for n
    using number_value_parts [of "nat_text n" "[]" "[]" "[]"]
    by (simp add: decimal_def nat_text_digits nat_text_nonempty digits_value_nat_text Atoi_def)
  have "list_all (\<lambda>c. c \<notin> {CHR ''.'', CHR ''e'', CHR ''E''}) (nat_text n)" for n
    using nat_text_digits [of n] by (auto simp: list_all_iff dest: digit_plain)
  then show ?thesis
    using n number_value_minus [OF unsigned_number_nat_text, of "nat (- i)"]
    by (auto simp: py_number_def int_text_def)
qed

text \<open>The elements of a list or object: all but the first come after a space.\<close>

definition spread :: "('a \<Rightarrow> 'a) \<Rightarrow> 'a list \<Rightarrow> 'a list" where
  "spread f xs = (case xs of [] \<Rightarrow> [] | x # xs \<Rightarrow> x # map f xs)"

lemma map_spread: "(\<And>x. g (f x) = f' (g x)) \<Longrightarrow> map g (spread f xs) = spread f' (map g xs)"
  by (cases xs) (simp_all add: spread_def)

lemma map_spread_same: "(\<And>x. g (f x) = g x) \<Longrightarrow> map g (spread f xs) = map g xs"
  by (cases xs) (simp_all add: spread_def)

lemma set_spread: "y \<in> set (spread f xs) \<Longrightarrow> \<exists>x \<in> set xs. y = x \<or> y = f x"
  by (cases xs) (auto simp: spread_def)

lemma Join_spread: "Join xs '', '' = Join (spread (Cons CHR '' '') xs) '',''"
  by (cases xs) (simp_all add: spread_def Join_space)

lemma reads_py_slice:
  assumes "\<forall>(s, w) \<in> set ps. reads s w h"
  shows "reads (CHR ''['' # Join (map fst ps) '', '' @ '']'') (JArr (map snd ps)) (Suc h)"
proof -
  let ?ps = "spread (apfst (Cons CHR '' '')) ps"
  have "\<forall>(s, w) \<in> set ?ps. reads s w h"
    using assms by (fastforce dest!: set_spread intro: reads_space)
  then have "reads (CHR ''['' # Join (map fst ?ps) '','' @ '']'') (JArr (map snd ?ps)) (Suc h)" by (rule reads_slice)
  moreover have "map fst ?ps = spread (Cons CHR '' '') (map fst ps)" "map snd ?ps = map snd ps"
    by (rule map_spread, simp, rule map_spread_same, simp)
  ultimately show ?thesis by (simp add: Join_spread)
qed

lemma reads_py_map:
  assumes "\<forall>(k, s, w) \<in> set ps. reads s w h"
  shows "reads (CHR ''{'' # Join (map (\<lambda>(k, s, w). py_quote k @ '': '' @ s) ps) '', '' @ ''}'')
    (JObj (map (\<lambda>(k, s, w). (to_utf8 k, w)) ps)) (Suc h)"
proof -
  let ?qs = "map (\<lambda>(k, s, w). (py_quote k @ '':'', to_utf8 k, CHR '' '' # s, w)) ps"
  let ?ps = "spread (apfst (Cons CHR '' '')) ?qs"
  have "\<forall>(t, k, s, w) \<in> set ?ps. key_reads t k \<and> reads s w h"
    using assms by (fastforce dest!: set_spread intro: reads_space key_reads_space key_reads_py)
  then have "reads (CHR ''{'' # member_texts ?ps @ ''}'') (JObj (member_values ?ps)) (Suc h)" by (rule reads_map)
  moreover have "member_values ?ps = map (\<lambda>(k, s, w). (to_utf8 k, w)) ps"
    unfolding member_values_def by (subst map_spread_same) (auto simp: comp_def case_prod_beta')
  moreover have "map (\<lambda>(t, k, s, w). t @ s) ?ps = spread (Cons CHR '' '') (map (\<lambda>(t, k, s, w). t @ s) ?qs)"
    by (rule map_spread) auto
  ultimately show ?thesis
    by (simp add: member_texts_def Join_spread comp_def case_prod_beta')
qed

lemma py_dumps_reads: "floats_ok g \<Longrightarrow> reads (py_dumps g) (py_json g) (depth g)"
proof (induction g)
  case (GSlice vs)
  let ?ps = "map (\<lambda>v. (py_dumps v, py_json v)) vs" and ?h = "foldr max (map depth vs) 0"
  have "reads (py_dumps v) (py_json v) ?h" if "v \<in> set vs" for v
    using GSlice that by (intro reads_weaken [OF GSlice.IH] foldr_max_ge) (auto simp: list_all_iff)
  then have "reads (CHR ''['' # Join (map fst ?ps) '', '' @ '']'') (JArr (map snd ?ps)) (Suc ?h)"
    by (intro reads_py_slice) auto
  then show ?case by (simp add: comp_def)
next
  case (GMap m)
  let ?ps = "map (\<lambda>(k, v). (k, py_dumps v, py_json v)) m"
  let ?h = "foldr max (map (\<lambda>(k, v). depth v) m) 0"
  have "reads (py_dumps v) (py_json v) ?h" if "(k, v) \<in> set m" for k v
    using GMap that by (intro reads_weaken [OF GMap.IH [of "(k, v)" v]] foldr_max_ge) (force simp: list_all_iff)+
  then have "\<forall>(k, s, w) \<in> set ?ps. reads s w ?h" by auto
  then show ?case using reads_py_map [of ?ps ?h] by (simp add: comp_def case_prod_beta')
qed (simp_all add: reads_literal reads_py_quote int_text_reads py_repr_reads)

lemma those_map_Some: "(\<And>x. x \<in> set xs \<Longrightarrow> f x = Some (g x)) \<Longrightarrow> those (map f xs) = Some (map g xs)"
  by (induction xs) simp_all

lemma py_dict_distinct: "distinct (map fst ms) \<Longrightarrow> py_dict ms = ms"
proof (induction ms rule: rev_induct)
  case (snoc p ms)
  have "fst p \<notin> fst ` set ms \<Longrightarrow> AList.update (fst p) (snd p) ms = ms @ [p]" for ms :: "(string \<times> 'a) list"
    by (induction ms) auto
  then show ?case using snoc by (simp add: py_dict_def case_prod_beta)
qed (simp add: py_dict_def)

lemma gval_of_py_json: "floats_ok g \<Longrightarrow> utf8_ok g \<Longrightarrow> keys_distinct g \<Longrightarrow> gval_of (py_json g) = Some g"
proof (induction g)
  case (GSlice vs)
  then have "those (map (\<lambda>v. gval_of (py_json v)) vs) = Some (map (\<lambda>v. v) vs)"
    by (intro those_map_Some) (simp add: list_all_iff)
  then show ?case by (simp add: comp_def)
next
  case (GMap m)
  have "those (map (\<lambda>(k, v). map_option (Pair (to_utf8 k)) (gval_of (py_json v))) m) = Some (map (\<lambda>p. p) m)"
    using GMap.prems by (intro those_map_Some) (fastforce simp: list_all_iff intro: GMap.IH)
  then show ?case using GMap.prems by (simp add: comp_def case_prod_beta' py_dict_distinct)
qed (simp_all add: int_number py_repr_reads)

text \<open>What \<open>json.dumps\<close> writes for a value, \<open>json.loads\<close> reads as the same value.\<close>

definition dumpable :: "gval \<Rightarrow> bool" where
  "dumpable g \<longleftrightarrow> floats_ok g \<and> utf8_ok g \<and> keys_distinct g \<and> depth g \<le> 100"

lemma py_loads_dumps:
  assumes "dumpable g"
  shows "py_loads (py_dumps g) = Some g"
proof -
  have "depth g \<le> max_depth" using assms by (simp add: dumpable_def max_depth_def)
  with assms have "Unmarshal_text (py_dumps g) = Some (py_json g)"
    by (intro reads_Unmarshal [OF py_dumps_reads]) (simp_all add: dumpable_def)
  then show ?thesis using assms gval_of_py_json by (simp add: py_loads_def dumpable_def)
qed

end
