(* ===== verification/FaceService.thy ===== *)
theory FaceService
  imports PyJson FaceClient
begin

text \<open>
  The face recognition service \<open>src/face-service/main.py\<close>: its lazily opened model and Redis client,
  the gallery in Redis or in memory, and one definition per endpoint. What InsightFace, numpy, PIL,
  \<open>requests\<close> and Redis compute are fields of the argument \<open>face_env\<close>; so are the measures of
  \<open>assess_face_quality\<close> and \<open>check_liveness\<close>, which are arithmetic on arrays. Floats are finite.
\<close>

section \<open>Exceptions and state\<close>

text \<open>A function returns a value or raises an \<open>HTTPException\<close> or another exception with its text.\<close>

datatype py_exn = Http int string | Exn string

type_synonym ('s, 'a) py = "'s \<Rightarrow> (py_exn + 'a) \<times> 's"

definition py_return :: "'a \<Rightarrow> ('s, 'a) py" where
  "py_return x s = (Inr x, s)"

definition py_raise :: "py_exn \<Rightarrow> ('s, 'a) py" where
  "py_raise e s = (Inl e, s)"

definition py_bind :: "('s, 'a) py \<Rightarrow> ('a \<Rightarrow> ('s, 'b) py) \<Rightarrow> ('s, 'b) py" where
  "py_bind m f s = (case m s of (Inl e, t) \<Rightarrow> (Inl e, t) | (Inr x, t) \<Rightarrow> f x t)"

definition py_try :: "('s, 'a) py \<Rightarrow> (py_exn \<Rightarrow> ('s, 'a) py) \<Rightarrow> ('s, 'a) py" where
  "py_try m h s = (case m s of (Inl e, t) \<Rightarrow> h e t | (Inr x, t) \<Rightarrow> (Inr x, t))"

definition py_lift :: "string + 'a \<Rightarrow> ('s, 'a) py" where
  "py_lift r s = (case r of Inl e \<Rightarrow> (Inl (Exn e), s) | Inr x \<Rightarrow> (Inr x, s))"

text \<open>The global variables, and the Redis server as the service finds it.\<close>

datatype model = Mock | FaceAnalysis bool

datatype client = Unavailable | Connected

record 'r service =
  face_model :: "model option"
  redis_client :: "client option"
  face_gallery :: "(string \<times> gval) list"
  redis_data :: 'r

record settings =
  MATCH_THRESHOLD :: float64
  QUALITY_THRESHOLD :: float64
  USE_GPU :: bool
  REDIS_URL :: string

section \<open>Surroundings\<close>

text \<open>A face as InsightFace returns it.\<close>

record face =
  fc_bbox :: "float64 list"
  fc_det_score :: float64
  fc_embedding :: "float64 list"
  fc_age :: "int option"
  fc_gender :: "int option"

text \<open>
  \<open>requests.get\<close>: an exception, or the status with the chunks of the body and the exception that may
  end them. Exceptions are given by their text.
\<close>

datatype download = Failed string | Response int "bytes list" "string option"

record 'i pil =
  pil_open :: "bytes \<Rightarrow> string + 'i"
  pil_mode :: "'i \<Rightarrow> string"
  pil_convert :: "'i \<Rightarrow> string \<Rightarrow> string + 'i"
  pil_on_white :: "'i \<Rightarrow> bool \<Rightarrow> string + 'i"

text \<open>Commands on the hash \<open>face_gallery\<close> of the Redis server.\<close>

record 'r hash_server =
  hs_set :: "string \<Rightarrow> bytes \<Rightarrow> 'r \<Rightarrow> (string + unit) \<times> 'r"
  hs_get :: "string \<Rightarrow> 'r \<Rightarrow> string + bytes option"
  hs_all :: "'r \<Rightarrow> string + (string \<times> bytes) list"
  hs_del :: "string \<Rightarrow> 'r \<Rightarrow> (string + int) \<times> 'r"
  hs_len :: "'r \<Rightarrow> string + int"

text \<open>How the loading of the model ends: in the import, the constructor or \<open>prepare\<close>, or well.\<close>

datatype loading = NoInsightFace | NoModel string | NotPrepared string | Prepared

record ('i, 'r) face_env =
  fe_load :: loading
  fe_ping :: bool
  fe_hash :: "'r hash_server"
  fe_get :: "string \<Rightarrow> download"
  fe_status_text :: "string \<Rightarrow> int \<Rightarrow> string"
  fe_http_text :: "int \<Rightarrow> string \<Rightarrow> string"
  fe_pil :: "'i pil"
  fe_detect :: "bool \<Rightarrow> 'i \<Rightarrow> string + face list"
  fe_quality :: "face \<Rightarrow> 'i \<Rightarrow> FaceQuality"
  fe_liveness :: "face \<Rightarrow> 'i \<Rightarrow> bool \<times> float64 \<times> (string \<times> gval) list"
  fe_dot :: "float64 list \<Rightarrow> float64 list \<Rightarrow> float64 option"
  fe_norm :: "float64 list \<Rightarrow> float64"
  fe_random :: "float64 list"
  fe_now :: string

section \<open>Redis and the model\<close>

definition get_redis :: "settings \<Rightarrow> ('i, 'r) face_env \<Rightarrow> ('r service, bool) py" where
  "get_redis c e s =
     (let s' = (if redis_client s = None \<and> REDIS_URL c \<noteq> []
                then s\<lparr>redis_client := Some (if fe_ping e then Connected else Unavailable)\<rparr> else s)
      in (Inr (redis_client s' = Some Connected), s'))"

text \<open>The model is assigned before \<open>prepare\<close> is called.\<close>

definition get_face_model :: "('i, 'r) face_env \<Rightarrow> ('r service, model) py" where
  "get_face_model e s =
     (case face_model s of
        Some m \<Rightarrow> (Inr m, s)
      | None \<Rightarrow>
          (case fe_load e of
             NoInsightFace \<Rightarrow> (Inr Mock, s\<lparr>face_model := Some Mock\<rparr>)
           | NoModel t \<Rightarrow> (Inl (Exn t), s)
           | NotPrepared t \<Rightarrow> (Inl (Exn t), s\<lparr>face_model := Some (FaceAnalysis False)\<rparr>)
           | Prepared \<Rightarrow> (Inr (FaceAnalysis True), s\<lparr>face_model := Some (FaceAnalysis True)\<rparr>)))"

section \<open>Images\<close>

definition max_image :: nat where
  "max_image = 10 * 1024 * 1024"

text \<open>The loop over the chunks: an exception, too large, or the content.\<close>

fun collect :: "bytes list \<Rightarrow> string option \<Rightarrow> bytes \<Rightarrow> py_exn + bytes" where
  "collect [] failed content = (case failed of None \<Rightarrow> Inr content | Some t \<Rightarrow> Inl (Exn t))"
| "collect (c # cs) failed content =
     (if max_image < length (content @ c) then Inl (Http 400 ''Image too large (max 10MB)'')
      else collect cs failed (content @ c))"

definition to_rgb :: "'i pil \<Rightarrow> 'i \<Rightarrow> string + 'i" where
  "to_rgb p img =
     (if pil_mode p img \<in> {''RGBA'', ''LA'', ''P''}
      then (case if pil_mode p img = ''P'' then pil_convert p img ''RGBA'' else Inr img of
              Inl t \<Rightarrow> Inl t
            | Inr im \<Rightarrow> pil_on_white p im (CHR ''A'' \<in> set (pil_mode p im)))
      else if pil_mode p img \<noteq> ''RGB'' then pil_convert p img ''RGB''
      else Inr img)"

definition open_image :: "'i pil \<Rightarrow> bytes \<Rightarrow> string + 'i" where
  "open_image p content = (case pil_open p content of Inl t \<Rightarrow> Inl t | Inr img \<Rightarrow> to_rgb p img)"

definition fetch_image :: "('i, 'r) face_env \<Rightarrow> string \<Rightarrow> py_exn + 'i" where
  "fetch_image e url =
     (case fe_get e url of
        Failed t \<Rightarrow> Inl (Exn t)
      | Response code chunks failed \<Rightarrow>
          if 400 \<le> code \<and> code < 600 then Inl (Exn (fe_status_text e url code))
          else (case collect chunks failed [] of
            Inl x \<Rightarrow> Inl x
          | Inr content \<Rightarrow> (case open_image (fe_pil e) content of Inl t \<Rightarrow> Inl (Exn t) | Inr img \<Rightarrow> Inr img)))"

text \<open>Every exception but an \<open>HTTPException\<close> is reported under a heading, with status 400.\<close>

definition as_400 :: "string \<Rightarrow> py_exn + 'i \<Rightarrow> ('s, 'i) py" where
  "as_400 heading r s =
     (case r of
        Inr x \<Rightarrow> (Inr x, s)
      | Inl (Http code d) \<Rightarrow> (Inl (Http code d), s)
      | Inl (Exn t) \<Rightarrow> (Inl (Http 400 (heading @ t)), s))"

definition download_image :: "('i, 'r) face_env \<Rightarrow> string \<Rightarrow> ('s, 'i) py" where
  "download_image e url = as_400 ''Failed to download image: '' (fetch_image e url)"

section \<open>Images in base 64\<close>

text \<open>\<open>base64.b64decode\<close>: characters outside of the alphabet are skipped, enough padding ends the text.\<close>

definition b64_value :: "char \<Rightarrow> nat option" where
  "b64_value c =
     (let n = byte c
      in if 65 \<le> n \<and> n \<le> 90 then Some (n - 65)
         else if 97 \<le> n \<and> n \<le> 122 then Some (n - 71)
         else if 48 \<le> n \<and> n \<le> 57 then Some (n + 4)
         else if c = CHR ''+'' then Some 62 else if c = CHR ''/'' then Some 63 else None)"

fun a2b :: "nat \<Rightarrow> nat \<Rightarrow> nat \<Rightarrow> string \<Rightarrow> bytes \<Rightarrow> string + bytes" where
  "a2b quad left pads [] out =
     (if quad = 0 then Inr out
      else if quad = 1
      then Inl (''Invalid base64-encoded string: number of data characters ('' @ nat_text (length out div 3 * 4 + 1)
             @ '') cannot be 1 more than a multiple of 4'')
      else Inl ''Incorrect padding'')"
| "a2b quad left pads (c # s) out =
     (if c = CHR ''=''
      then (if 2 \<le> quad then if 4 \<le> quad + pads + 1 then Inr out else a2b quad left (pads + 1) s out
            else a2b quad left pads s out)
      else case b64_value c of
        None \<Rightarrow> a2b quad left pads s out
      | Some v \<Rightarrow>
          if quad = 0 then a2b 1 v 0 s out
          else if quad = 1 then a2b 2 (v mod 16) 0 s (out @ [mk_byte (left * 4 + v div 16)])
          else if quad = 2 then a2b 3 (v mod 4) 0 s (out @ [mk_byte (left * 16 + v div 4)])
          else a2b 0 0 0 s (out @ [mk_byte (left * 64 + v)]))"

definition b64decode :: "string \<Rightarrow> string + bytes" where
  "b64decode s =
     (if ascii s then a2b 0 0 0 s [] else Inl ''string argument should contain only ASCII characters'')"

text \<open>The regular expression \<open>data:image/[^;]+;base64,(.+)\<close>, matched at the start.\<close>

definition data_url :: "string \<Rightarrow> string option" where
  "data_url s =
     (let r = drop 11 s; kind = takeWhile (\<lambda>c. c \<noteq> CHR '';'') r; r' = drop (length kind) r;
          body = takeWhile (\<lambda>c. c \<noteq> CHR 0x0A) (drop 8 r')
      in if HasPrefix s ''data:image/'' \<and> kind \<noteq> [] \<and> HasPrefix r' '';base64,'' \<and> body \<noteq> [] then Some body else None)"

definition read_image :: "('i, 'r) face_env \<Rightarrow> string \<Rightarrow> py_exn + 'i" where
  "read_image e image_data =
     (case if HasPrefix image_data ''data:'' then data_url image_data else Some image_data of
        None \<Rightarrow> Inl (Http 400 ''Invalid data URL format'')
      | Some d \<Rightarrow>
          (case b64decode d of
             Inl t \<Rightarrow> Inl (Exn t)
           | Inr image_bytes \<Rightarrow>
               if max_image < length image_bytes then Inl (Http 400 ''Image too large (max 10MB)'')
               else (case open_image (fe_pil e) image_bytes of Inl t \<Rightarrow> Inl (Exn t) | Inr img \<Rightarrow> Inr img)))"

definition parse_base64_image :: "('i, 'r) face_env \<Rightarrow> string \<Rightarrow> ('s, 'i) py" where
  "parse_base64_image e image_data = as_400 ''Failed to parse image: '' (read_image e image_data)"

section \<open>Faces and embeddings\<close>

text \<open>The first face of the highest quality.\<close>

definition get_best_face :: "('i, 'r) face_env \<Rightarrow> face list \<Rightarrow> 'i \<Rightarrow> face" where
  "get_best_face e faces img =
     (if length faces = 1 then hd faces
      else fst (hd (sort_key (\<lambda>x. - snd x) (map (\<lambda>f. (f, fq_Score (fe_quality e f img))) faces))))"

definition service_mock_quality :: FaceQuality where
  "service_mock_quality =
     \<lparr>fq_Score = f64_round (85 / 100), fq_Blur = f64_round (1 / 10), fq_PoseYaw = 5, fq_PosePitch = 3, fq_PoseRoll = 1,
      fq_FaceSize = 40000, fq_IsFrontal = True\<rparr>"

text \<open>The faces of an image, at least one.\<close>

definition detect :: "('i, 'r) face_env \<Rightarrow> string \<Rightarrow> bool \<Rightarrow> 'i \<Rightarrow> ('s, face list) py" where
  "detect e none prepared img =
     py_bind (py_lift (fe_detect e prepared img))
       (\<lambda>faces. if faces = [] then py_raise (Http 400 none) else py_return faces)"

definition get_embedding ::
  "('i, 'r) face_env \<Rightarrow> 'i \<Rightarrow> bool \<Rightarrow> ('r service, float64 list \<times> float64 \<times> int \<times> FaceQuality option) py" where
  "get_embedding e img return_quality =
     py_bind (get_face_model e) (\<lambda>m.
       case m of
         Mock \<Rightarrow> py_return (fe_random e, f64_round (95 / 100), 1, Some service_mock_quality)
       | FaceAnalysis prepared \<Rightarrow>
           py_bind (detect e ''No face detected in image'' prepared img) (\<lambda>faces.
             let f = get_best_face e faces img
             in py_return (fc_embedding f, fc_det_score f, int (length faces),
                  if return_quality then Some (fe_quality e f img) else None)))"

definition cosine_similarity :: "('i, 'r) face_env \<Rightarrow> float64 list \<Rightarrow> float64 list \<Rightarrow> string + float64" where
  "cosine_similarity e emb1 emb2 =
     (case fe_dot e emb1 emb2 of
        None \<Rightarrow> Inl ''shapes not aligned''
      | Some dot \<Rightarrow>
          if fe_norm e emb1 = 0 \<or> fe_norm e emb2 = 0 then Inr 0
          else Inr (f64_round (dot / f64_round (fe_norm e emb1 * fe_norm e emb2))))"

section \<open>The gallery\<close>

definition optional :: "('a \<Rightarrow> gval) \<Rightarrow> 'a option \<Rightarrow> gval" where
  "optional f x = (case x of None \<Rightarrow> GNil | Some y \<Rightarrow> f y)"

definition gallery_data :: "string \<Rightarrow> float64 list \<Rightarrow> string option \<Rightarrow> (string \<times> gval) list option \<Rightarrow> gval" where
  "gallery_data now embedding name metadata =
     GMap [(''embedding'', GSlice (map GFloat embedding)), (''name'', optional GString name),
       (''metadata'', GMap (case metadata of None \<Rightarrow> [] | Some m \<Rightarrow> m)), (''enrolled_at'', GString now)]"

definition save_to_gallery ::
  "settings \<Rightarrow> ('i, 'r) face_env \<Rightarrow> string \<Rightarrow> gval \<Rightarrow> ('r service, unit) py" where
  "save_to_gallery c e user_id data =
     py_bind (get_redis c e) (\<lambda>r s.
       if r then (case hs_set (fe_hash e) user_id (py_dumps data) (redis_data s) of
         (Inl t, d) \<Rightarrow> (Inl (Exn t), s\<lparr>redis_data := d\<rparr>)
       | (Inr _, d) \<Rightarrow> (Inr (), s\<lparr>redis_data := d\<rparr>))
       else (Inr (), s\<lparr>face_gallery := AList.update user_id data (face_gallery s)\<rparr>))"

text \<open>Bytes that are no JSON text raise an exception.\<close>

definition stored_value :: "bytes \<Rightarrow> string + gval" where
  "stored_value d = (case py_loads d of None \<Rightarrow> Inl ''invalid JSON'' | Some g \<Rightarrow> Inr g)"

definition load_from_gallery :: "settings \<Rightarrow> ('i, 'r) face_env \<Rightarrow> string \<Rightarrow> ('r service, gval option) py" where
  "load_from_gallery c e user_id =
     py_bind (get_redis c e) (\<lambda>r s.
       if r then py_bind (py_lift (hs_get (fe_hash e) user_id (redis_data s))) (\<lambda>d.
           case d of
             None \<Rightarrow> py_return None
           | Some b \<Rightarrow> if b = [] then py_return None else py_bind (py_lift (stored_value b)) (\<lambda>g. py_return (Some g))) s
       else (Inr (map_of (face_gallery s) user_id), s))"

fun stored_values :: "(string \<times> bytes) list \<Rightarrow> string + (string \<times> gval) list" where
  "stored_values [] = Inr []"
| "stored_values ((k, d) # xs) =
     (case stored_value d of
        Inl t \<Rightarrow> Inl t
      | Inr g \<Rightarrow> (case stored_values xs of Inl t \<Rightarrow> Inl t | Inr gs \<Rightarrow> Inr ((k, g) # gs)))"

definition get_all_gallery :: "settings \<Rightarrow> ('i, 'r) face_env \<Rightarrow> ('r service, (string \<times> gval) list) py" where
  "get_all_gallery c e =
     py_bind (get_redis c e) (\<lambda>r s.
       if r then py_bind (py_lift (hs_all (fe_hash e) (redis_data s))) (\<lambda>all. py_lift (stored_values all)) s
       else (Inr (face_gallery s), s))"

definition delete_from_gallery :: "settings \<Rightarrow> ('i, 'r) face_env \<Rightarrow> string \<Rightarrow> ('r service, bool) py" where
  "delete_from_gallery c e user_id =
     py_bind (get_redis c e) (\<lambda>r s.
       if r then (case hs_del (fe_hash e) user_id (redis_data s) of
         (Inl t, d) \<Rightarrow> (Inl (Exn t), s\<lparr>redis_data := d\<rparr>)
       | (Inr n, d) \<Rightarrow> (Inr (0 < n), s\<lparr>redis_data := d\<rparr>))
       else if user_id \<in> fst ` set (face_gallery s)
       then (Inr True, s\<lparr>face_gallery := AList.delete user_id (face_gallery s)\<rparr>)
       else (Inr False, s))"

section \<open>Matches\<close>

record face_match =
  fm_user :: string
  fm_similarity :: float64
  fm_name :: gval

fun dict_get :: "gval \<Rightarrow> string \<Rightarrow> gval option" where
  "dict_get (GMap m) k = map_of m k"
| "dict_get _ k = None"

fun floats_of :: "gval \<Rightarrow> float64 list option" where
  "floats_of (GSlice vs) = those (map (\<lambda>v. case v of GFloat x \<Rightarrow> Some x | _ \<Rightarrow> None) vs)"
| "floats_of _ = None"

definition stored_embedding :: "gval \<Rightarrow> string + float64 list" where
  "stored_embedding data =
     (case Option.bind (dict_get data ''embedding'') floats_of of None \<Rightarrow> Inl ''embedding'' | Some b \<Rightarrow> Inr b)"

definition data_name :: "gval \<Rightarrow> gval" where
  "data_name data = (case dict_get data ''name'' of None \<Rightarrow> GNil | Some v \<Rightarrow> v)"

definition similarity_to :: "('i, 'r) face_env \<Rightarrow> float64 list \<Rightarrow> gval \<Rightarrow> string + float64" where
  "similarity_to e embedding data =
     (case stored_embedding data of Inl t \<Rightarrow> Inl t | Inr b \<Rightarrow> cosine_similarity e embedding b)"

text \<open>The loop over the gallery, and the best of its matches: the sort is stable, also in reverse.\<close>

fun gallery_matches ::
  "('i, 'r) face_env \<Rightarrow> float64 list \<Rightarrow> float64 \<Rightarrow> (string \<times> gval) list \<Rightarrow> string + face_match list" where
  "gallery_matches e embedding threshold [] = Inr []"
| "gallery_matches e embedding threshold ((user_id, data) # g) =
     (case similarity_to e embedding data of
        Inl t \<Rightarrow> Inl t
      | Inr similarity \<Rightarrow>
          (case gallery_matches e embedding threshold g of
             Inl t \<Rightarrow> Inl t
           | Inr ms \<Rightarrow>
               Inr (if threshold \<le> similarity
                    then \<lparr>fm_user = user_id, fm_similarity = py_round similarity 4, fm_name = data_name data\<rparr> # ms
                    else ms)))"

definition best_matches :: "nat \<Rightarrow> face_match list \<Rightarrow> face_match list" where
  "best_matches top_k ms = take top_k (sort_key (\<lambda>m. - fm_similarity m) ms)"

section \<open>Answers\<close>

definition quality_value :: "FaceQuality \<Rightarrow> gval" where
  "quality_value q =
     GMap [(''score'', GFloat (fq_Score q)), (''blur'', GFloat (fq_Blur q)), (''pose_yaw'', GFloat (fq_PoseYaw q)),
       (''pose_pitch'', GFloat (fq_PosePitch q)), (''pose_roll'', GFloat (fq_PoseRoll q)),
       (''face_size'', GInt (fq_FaceSize q)), (''is_frontal'', GBool (fq_IsFrontal q))]"

definition match_value :: "face_match \<Rightarrow> gval" where
  "match_value m =
     GMap [(''user_id'', GString (fm_user m)), (''similarity'', GFloat (fm_similarity m)), (''name'', fm_name m)]"

definition liveness_value :: "bool \<times> float64 \<times> (string \<times> gval) list \<Rightarrow> gval" where
  "liveness_value l =
     (case l of (is_live, confidence, checks) \<Rightarrow>
        GMap [(''is_live'', GBool is_live), (''confidence'', GFloat confidence), (''checks'', GMap checks)])"

definition enroll_answer :: "string \<Rightarrow> bool \<Rightarrow> FaceQuality option \<Rightarrow> string \<Rightarrow> gval" where
  "enroll_answer user_id success quality message =
     GMap [(''user_id'', GString user_id), (''success'', GBool success), (''quality'', optional quality_value quality),
       (''message'', GString message)]"

definition search_answer :: "face_match list \<Rightarrow> int \<Rightarrow> FaceQuality option \<Rightarrow> gval" where
  "search_answer matches faces quality =
     GMap [(''matches'', GSlice (map match_value matches)), (''faces_detected'', GInt faces),
       (''quality'', optional quality_value quality)]"

definition identify_answer :: "face_match list \<Rightarrow> face_match option \<Rightarrow> FaceQuality \<Rightarrow> gval \<Rightarrow> gval" where
  "identify_answer matches best quality live =
     GMap [(''identified'', GBool (best \<noteq> None)), (''matches'', GSlice (map match_value matches)),
       (''best_match'', optional match_value best), (''quality'', quality_value quality), (''liveness'', live)]"

text \<open>\<open>{x:.2f}\<close>\<close>

definition two_places :: "float64 \<Rightarrow> string" where
  "two_places x =
     (let q = nat (rne (\<bar>x\<bar> * 100))
      in (if x < 0 then ''-'' else []) @ nat_text (q div 100) @ CHR ''.'' # nat_text (q mod 100 div 10) @ nat_text (q mod 10))"

section \<open>Endpoints\<close>

definition service_health :: "settings \<Rightarrow> ('i, 'r) face_env \<Rightarrow> ('r service, gval) py" where
  "service_health c e =
     py_bind (get_face_model e) (\<lambda>m. py_bind (get_redis c e) (\<lambda>r s.
       py_bind (if r then py_lift (hs_len (fe_hash e) (redis_data s)) else py_return (int (length (face_gallery s))))
         (\<lambda>gallery_count. py_return (GMap
           [(''status'', GString ''ok''), (''model_loaded'', GBool (m \<noteq> Mock)),
            (''model_name'', GString (if m \<noteq> Mock then ''buffalo_l'' else ''mock'')), (''gpu_enabled'', GBool (USE_GPU c)),
            (''redis_connected'', GBool r), (''gallery_size'', GInt gallery_count),
            (''match_threshold'', GFloat (MATCH_THRESHOLD c))])) s))"

definition embed :: "('i, 'r) face_env \<Rightarrow> string \<Rightarrow> ('r service, gval) py" where
  "embed e image_url =
     py_bind (download_image e image_url) (\<lambda>image.
     py_bind (get_embedding e image True) (\<lambda>(embedding, score, faces, quality).
       py_return (GMap [(''embedding'', GSlice (map GFloat embedding)), (''score'', GFloat score),
         (''faces_detected'', GInt faces), (''quality'', optional quality_value quality)])))"

definition compare :: "settings \<Rightarrow> ('i, 'r) face_env \<Rightarrow> string \<Rightarrow> string \<Rightarrow> ('r service, gval) py" where
  "compare c e image_url_1 image_url_2 =
     py_bind (download_image e image_url_1) (\<lambda>image1.
     py_bind (download_image e image_url_2) (\<lambda>image2.
     py_bind (get_embedding e image1 True) (\<lambda>(emb1, _, _, quality1).
     py_bind (get_embedding e image2 True) (\<lambda>(emb2, _, _, quality2).
     py_bind (py_lift (cosine_similarity e emb1 emb2)) (\<lambda>similarity.
       py_return (GMap [(''similarity'', GFloat (py_round similarity 4)),
         (''match'', GBool (MATCH_THRESHOLD c \<le> similarity)), (''threshold'', GFloat (MATCH_THRESHOLD c)),
         (''quality_1'', optional quality_value quality1), (''quality_2'', optional quality_value quality2)]))))))"

definition too_low :: "settings \<Rightarrow> FaceQuality option \<Rightarrow> string option" where
  "too_low c quality =
     (case quality of
        None \<Rightarrow> None
      | Some q \<Rightarrow>
          if fq_Score q < QUALITY_THRESHOLD c
          then Some (''Face quality too low ('' @ two_places (fq_Score q) @ '' < '' @ py_repr (QUALITY_THRESHOLD c)
            @ ''). Please use a clearer, frontal photo.'')
          else None)"

text \<open>A failed detection is an answer of \<open>enroll\<close>, not an error.\<close>

definition enroll ::
  "settings \<Rightarrow> ('i, 'r) face_env \<Rightarrow> string \<Rightarrow> string \<Rightarrow> string option \<Rightarrow> (string \<times> gval) list option \<Rightarrow> ('r service, gval) py" where
  "enroll c e user_id image_url name metadata =
     py_bind (download_image e image_url) (\<lambda>image.
     py_bind (py_try (py_bind (get_embedding e image True) (\<lambda>x. py_return (Inr x)))
         (\<lambda>x. case x of Http _ detail \<Rightarrow> py_return (Inl detail) | Exn t \<Rightarrow> py_raise (Exn t))) (\<lambda>result.
       case result of
         Inl detail \<Rightarrow> py_return (enroll_answer user_id False None detail)
       | Inr (embedding, score, faces, quality) \<Rightarrow>
           (case too_low c quality of
              Some message \<Rightarrow> py_return (enroll_answer user_id False quality message)
            | None \<Rightarrow>
                py_bind (save_to_gallery c e user_id (gallery_data (fe_now e) embedding name metadata))
                  (\<lambda>_. py_return (enroll_answer user_id True quality ''Face enrolled successfully'')))))"

definition unenroll :: "settings \<Rightarrow> ('i, 'r) face_env \<Rightarrow> string \<Rightarrow> ('r service, gval) py" where
  "unenroll c e user_id =
     py_bind (delete_from_gallery c e user_id) (\<lambda>deleted.
       if \<not> deleted then py_raise (Http 404 (''User '' @ user_id @ '' not found in gallery''))
       else py_return (GMap [(''user_id'', GString user_id), (''deleted'', GBool True)]))"

definition list_gallery :: "settings \<Rightarrow> ('i, 'r) face_env \<Rightarrow> ('r service, gval) py" where
  "list_gallery c e =
     py_bind (get_all_gallery c e) (\<lambda>gallery.
       py_return (GMap
         [(''users'', GSlice (map (\<lambda>(user_id, data). GMap
             [(''user_id'', GString user_id), (''name'', data_name data),
              (''enrolled_at'', case dict_get data ''enrolled_at'' of None \<Rightarrow> GNil | Some v \<Rightarrow> v),
              (''metadata'', case dict_get data ''metadata'' of None \<Rightarrow> GMap [] | Some v \<Rightarrow> v)]) gallery)),
          (''total'', GInt (int (length gallery)))]))"

definition search ::
  "settings \<Rightarrow> ('i, 'r) face_env \<Rightarrow> string \<Rightarrow> nat \<Rightarrow> float64 option \<Rightarrow> ('r service, gval) py" where
  "search c e image_url top_k threshold =
     py_bind (download_image e image_url) (\<lambda>image.
     py_bind (get_embedding e image True) (\<lambda>(embedding, score, faces, quality).
     py_bind (get_all_gallery c e) (\<lambda>gallery.
       if gallery = [] then py_return (search_answer [] faces quality)
       else py_bind (py_lift (gallery_matches e embedding
           (case threshold of None \<Rightarrow> MATCH_THRESHOLD c | Some t \<Rightarrow> t) gallery)) (\<lambda>matches.
         py_return (search_answer (best_matches top_k matches) faces quality)))))"

definition identified_match :: "settings \<Rightarrow> face_match list \<Rightarrow> face_match option" where
  "identified_match c matches =
     (case matches of [] \<Rightarrow> None | m # _ \<Rightarrow> if MATCH_THRESHOLD c \<le> fm_similarity m then Some m else None)"

definition mock_match :: face_match where
  "mock_match = \<lparr>fm_user = ''mock-user'', fm_similarity = f64_round (95 / 100), fm_name = GString ''Mock User''\<rparr>"

definition identify :: "settings \<Rightarrow> ('i, 'r) face_env \<Rightarrow> string \<Rightarrow> nat \<Rightarrow> ('r service, gval) py" where
  "identify c e image_data top_k =
     py_bind (parse_base64_image e image_data) (\<lambda>image.
     py_bind (get_face_model e) (\<lambda>m.
       case m of
         Mock \<Rightarrow> py_return (identify_answer [mock_match] (Some mock_match)
             (service_mock_quality\<lparr>fq_PoseYaw := 0, fq_PosePitch := 0, fq_PoseRoll := 0\<rparr>)
             (GMap [(''is_live'', GBool True), (''confidence'', GFloat (f64_round (9 / 10)))]))
       | FaceAnalysis prepared \<Rightarrow>
           py_bind (detect e ''No face detected in image'' prepared image) (\<lambda>faces.
             let f = get_best_face e faces image; quality = fe_quality e f image;
                 live = liveness_value (fe_liveness e f image)
             in py_bind (get_all_gallery c e) (\<lambda>gallery.
               if gallery = [] then py_return (identify_answer [] None quality live)
               else py_bind (py_lift (gallery_matches e (fc_embedding f)
                   (f64_round (MATCH_THRESHOLD c * f64_round (8 / 10))) gallery)) (\<lambda>ms.
                 let matches = best_matches top_k ms
                 in py_return (identify_answer matches (identified_match c matches) quality live))))))"

definition falsy :: "gval \<Rightarrow> bool" where
  "falsy g \<longleftrightarrow> g \<in> {GNil, GBool False, GInt 0, GFloat 0, GString [], GSlice [], GMap []}"

definition verify :: "settings \<Rightarrow> ('i, 'r) face_env \<Rightarrow> string \<Rightarrow> string \<Rightarrow> ('r service, gval) py" where
  "verify c e user_id image_url =
     py_bind (load_from_gallery c e user_id) (\<lambda>stored.
       case stored of
         None \<Rightarrow> py_raise (Http 404 (''User '' @ user_id @ '' not enrolled''))
       | Some data \<Rightarrow>
           if falsy data then py_raise (Http 404 (''User '' @ user_id @ '' not enrolled''))
           else py_bind (download_image e image_url) (\<lambda>image.
             py_bind (get_embedding e image True) (\<lambda>(embedding, score, faces, quality).
             py_bind (py_lift (similarity_to e embedding data)) (\<lambda>similarity.
               py_return (GMap [(''user_id'', GString user_id), (''verified'', GBool (MATCH_THRESHOLD c \<le> similarity)),
                 (''similarity'', GFloat (py_round similarity 4)), (''threshold'', GFloat (MATCH_THRESHOLD c)),
                 (''quality'', optional quality_value quality)])))))"

definition liveness :: "('i, 'r) face_env \<Rightarrow> string \<Rightarrow> ('r service, gval) py" where
  "liveness e image_url =
     py_bind (get_face_model e) (\<lambda>m.
       case m of
         Mock \<Rightarrow> py_return (liveness_value (True, f64_round (85 / 100), [(''mock'', GBool True)]))
       | FaceAnalysis prepared \<Rightarrow>
           py_bind (download_image e image_url) (\<lambda>image.
           py_bind (detect e ''No face detected'' prepared image) (\<lambda>faces.
             py_return (liveness_value (fe_liveness e (get_best_face e faces image) image)))))"

text \<open>Every exception of one image is a result of the batch.\<close>

definition exn_text :: "('i, 'r) face_env \<Rightarrow> py_exn \<Rightarrow> string" where
  "exn_text e x = (case x of Http code detail \<Rightarrow> fe_http_text e code detail | Exn t \<Rightarrow> t)"

definition batch_result :: "string \<Rightarrow> bool \<Rightarrow> float64 list option \<Rightarrow> float64 option \<Rightarrow> string option \<Rightarrow> gval" where
  "batch_result url success embedding score failure =
     GMap [(''image_url'', GString url), (''success'', GBool success),
       (''embedding'', optional (\<lambda>xs. GSlice (map GFloat xs)) embedding), (''score'', optional GFloat score),
       (''error'', optional GString failure)]"

definition embed_one :: "('i, 'r) face_env \<Rightarrow> string \<Rightarrow> ('r service, gval) py" where
  "embed_one e url =
     py_try
       (py_bind (download_image e url) (\<lambda>image.
        py_bind (get_embedding e image False) (\<lambda>(embedding, score, _, _).
          py_return (batch_result url True (Some embedding) (Some score) None))))
       (\<lambda>x. py_return (batch_result url False None None (Some (exn_text e x))))"

fun py_each :: "('a \<Rightarrow> ('s, 'b) py) \<Rightarrow> 'a list \<Rightarrow> ('s, 'b list) py" where
  "py_each f [] = py_return []"
| "py_each f (x # xs) = py_bind (f x) (\<lambda>y. py_bind (py_each f xs) (\<lambda>ys. py_return (y # ys)))"

definition batch_embed :: "('i, 'r) face_env \<Rightarrow> string list \<Rightarrow> ('r service, gval) py" where
  "batch_embed e image_urls =
     py_bind (py_each (embed_one e) image_urls) (\<lambda>results. py_return (GMap [(''results'', GSlice results)]))"

definition face_data :: "('i, 'r) face_env \<Rightarrow> 'i \<Rightarrow> face \<Rightarrow> gval" where
  "face_data e img f =
     GMap ([(''bbox'', GSlice (map GFloat (fc_bbox f))), (''detection_score'', GFloat (py_round (fc_det_score f) 3)),
         (''quality'', quality_value (fe_quality e f img)), (''liveness'', liveness_value (fe_liveness e f img))]
       @ (case fc_age f of None \<Rightarrow> [] | Some age \<Rightarrow> [(''age'', GInt age)])
       @ (case fc_gender f of None \<Rightarrow> [] | Some g \<Rightarrow> [(''gender'', GString (if g = 1 then ''M'' else ''F''))]))"

definition analyze :: "('i, 'r) face_env \<Rightarrow> string \<Rightarrow> ('r service, gval) py" where
  "analyze e image_url =
     py_bind (get_face_model e) (\<lambda>m.
     py_bind (download_image e image_url) (\<lambda>image.
       case m of
         Mock \<Rightarrow> py_return (GMap [(''faces_detected'', GInt 1), (''faces'', GSlice [GMap
             [(''bbox'', GSlice (map GInt [100, 100, 300, 350])), (''detection_score'', GFloat (f64_round (95 / 100))),
              (''quality'', GMap [(''score'', GFloat (f64_round (85 / 100))), (''is_frontal'', GBool True)]),
              (''age'', GInt 30), (''gender'', GString ''M''),
              (''liveness'', GMap [(''is_live'', GBool True), (''confidence'', GFloat (f64_round (85 / 100)))])]])])
       | FaceAnalysis prepared \<Rightarrow>
           py_bind (py_lift (fe_detect e prepared image)) (\<lambda>faces.
             py_return (GMap [(''faces_detected'', GInt (int (length faces))),
               (''faces'', GSlice (map (face_data e image) faces))]))))"

section \<open>Requests\<close>

text \<open>What FastAPI hands to a handler, once the body was read and validated.\<close>

datatype face_request =
    HealthRequest
  | EmbedRequest string
  | CompareRequest string string
  | EnrollRequest string string "string option" "(string \<times> gval) list option"
  | UnenrollRequest string
  | GalleryRequest
  | SearchRequest string nat "float64 option"
  | IdentifyRequest string nat
  | VerifyRequest string string
  | LivenessRequest string
  | BatchEmbedRequest "string list"
  | AnalyzeRequest string

definition handle :: "settings \<Rightarrow> ('i, 'r) face_env \<Rightarrow> face_request \<Rightarrow> ('r service, gval) py" where
  "handle c e rq =
     (case rq of
        HealthRequest \<Rightarrow> service_health c e
      | EmbedRequest u \<Rightarrow> embed e u
      | CompareRequest u v \<Rightarrow> compare c e u v
      | EnrollRequest i u n m \<Rightarrow> enroll c e i u n m
      | UnenrollRequest i \<Rightarrow> unenroll c e i
      | GalleryRequest \<Rightarrow> list_gallery c e
      | SearchRequest u k t \<Rightarrow> search c e u k t
      | IdentifyRequest d k \<Rightarrow> identify c e d k
      | VerifyRequest i u \<Rightarrow> verify c e i u
      | LivenessRequest u \<Rightarrow> liveness e u
      | BatchEmbedRequest us \<Rightarrow> batch_embed e us
      | AnalyzeRequest u \<Rightarrow> analyze e u)"

definition outcome :: "py_exn + gval \<Rightarrow> py_outcome" where
  "outcome r = (case r of Inr g \<Rightarrow> Reply g | Inl (Http code detail) \<Rightarrow> HTTPException code detail | Inl (Exn _) \<Rightarrow> Uncaught)"

end
