(* ===== verification/FaceGallery.thy ===== *)
theory FaceGallery
  imports FaceService
begin

text \<open>
  What the endpoints of the face service do to its gallery. The gallery is a map from users to their
  data, in Redis as JSON texts or in memory: the operations on it are those of a map, and requests
  change it only at the user whom they enroll or remove.
\<close>

section \<open>What is relied on\<close>

text \<open>A command that fails was executed or not.\<close>

definition hash_laws :: "'r hash_server \<Rightarrow> ('r \<Rightarrow> string \<rightharpoonup> bytes) \<Rightarrow> bool" where
  "hash_laws hs content \<longleftrightarrow>
     (\<forall>k v r q r'. hs_set hs k v r = (q, r') \<longrightarrow>
        content r' = (content r)(k \<mapsto> v) \<or> q \<noteq> Inr () \<and> content r' = content r)
   \<and> (\<forall>k r d. hs_get hs k r = Inr d \<longrightarrow> d = content r k)
   \<and> (\<forall>r l. hs_all hs r = Inr l \<longrightarrow> distinct (map fst l) \<and> map_of l = content r)
   \<and> (\<forall>k r q r'. hs_del hs k r = (q, r') \<longrightarrow>
        (\<exists>n. q = Inr n \<and> (0 < n \<longleftrightarrow> content r k \<noteq> None) \<and> content r' = (content r)(k := None))
        \<or> (\<exists>t. q = Inl t \<and> content r' \<in> {content r, (content r)(k := None)}))"

lemma hash_lawsD:
  assumes "hash_laws hs content"
  shows "hs_set hs k v r = (q, r') \<Longrightarrow> content r' = (content r)(k \<mapsto> v) \<or> q \<noteq> Inr () \<and> content r' = content r"
    and "hs_get hs k r = Inr d \<Longrightarrow> d = content r k"
    and "hs_all hs r = Inr l \<Longrightarrow> distinct (map fst l) \<and> map_of l = content r"
    and "hs_del hs k r = (n, r') \<Longrightarrow>
      (\<exists>m. n = Inr m \<and> (0 < m \<longleftrightarrow> content r k \<noteq> None) \<and> content r' = (content r)(k := None))
      \<or> (\<exists>t. n = Inl t \<and> content r' \<in> {content r, (content r)(k := None)})"
  using assms unfolding hash_laws_def by blast+

text \<open>Floats of numpy are float64, and the texts are UTF-8.\<close>

definition env_ok :: "('r \<Rightarrow> string \<rightharpoonup> bytes) \<Rightarrow> ('i, 'r) face_env \<Rightarrow> bool" where
  "env_ok content e \<longleftrightarrow> hash_laws (fe_hash e) content \<and> list_all is_f64 (fe_random e) \<and> to_utf8 (fe_now e) = fe_now e
     \<and> (\<forall>p img faces. fe_detect e p img = Inr faces \<longrightarrow> (\<forall>f \<in> set faces. list_all is_f64 (fc_embedding f)))"

lemma env_ok_parts:
  "env_ok content e \<Longrightarrow> hash_laws (fe_hash e) content" "env_ok content e \<Longrightarrow> list_all is_f64 (fe_random e)"
  "env_ok content e \<Longrightarrow> to_utf8 (fe_now e) = fe_now e"
  unfolding env_ok_def by blast+

lemma env_ok_faces: "env_ok content e \<Longrightarrow> fe_detect e p img = Inr faces \<Longrightarrow> f \<in> set faces \<Longrightarrow> list_all is_f64 (fc_embedding f)"
  by (simp add: env_ok_def)

definition request_ok :: "face_request \<Rightarrow> bool" where
  "request_ok rq =
     (case rq of
        EnrollRequest i u n m \<Rightarrow>
          (case n of None \<Rightarrow> True | Some x \<Rightarrow> to_utf8 x = x)
          \<and> (case m of None \<Rightarrow> True | Some x \<Rightarrow> dumpable (GMap x) \<and> depth (GMap x) < 100)
      | _ \<Rightarrow> True)"

section \<open>The gallery as a map\<close>

text \<open>Whether the place of the gallery is decided.\<close>

definition settled :: "settings \<Rightarrow> 'r service \<Rightarrow> bool" where
  "settled c s \<longleftrightarrow> redis_client s \<noteq> None \<or> REDIS_URL c = []"

definition gallery :: "('r \<Rightarrow> string \<rightharpoonup> bytes) \<Rightarrow> 'r service \<Rightarrow> string \<rightharpoonup> gval" where
  "gallery content s =
     (if redis_client s = Some Connected then \<lambda>u. Option.bind (content (redis_data s) u) py_loads
      else map_of (face_gallery s))"

definition entry_ok :: "gval \<Rightarrow> bool" where
  "entry_ok g \<longleftrightarrow> dumpable g \<and> (\<exists>now emb name metadata. g = gallery_data now emb name metadata)"

definition texts_ok :: "(string \<rightharpoonup> bytes) \<Rightarrow> bool" where
  "texts_ok m \<longleftrightarrow> (\<forall>u b. m u = Some b \<longrightarrow> (\<exists>g. entry_ok g \<and> b = py_dumps g))"

definition gallery_ok :: "('r \<Rightarrow> string \<rightharpoonup> bytes) \<Rightarrow> 'r service \<Rightarrow> bool" where
  "gallery_ok content s \<longleftrightarrow> distinct (map fst (face_gallery s)) \<and> (\<forall>(u, g) \<in> set (face_gallery s). entry_ok g)
     \<and> texts_ok (content (redis_data s))"

lemma texts_ok_upd: "texts_ok m \<Longrightarrow> entry_ok g \<Longrightarrow> texts_ok (m(u \<mapsto> py_dumps g))"
  by (auto simp: texts_ok_def)

lemma texts_ok_del: "texts_ok m \<Longrightarrow> texts_ok (m(u := None))"
  by (simp add: texts_ok_def)

lemma entry_loads: "entry_ok g \<Longrightarrow> py_loads (py_dumps g) = Some g"
  by (simp add: entry_ok_def py_loads_dumps)

lemma stored_entry: "entry_ok g \<Longrightarrow> stored_value (py_dumps g) = Inr g"
  by (simp add: stored_value_def entry_loads)

lemma entry_text: "entry_ok g \<Longrightarrow> py_dumps g \<noteq> []"
  by (auto simp: entry_ok_def gallery_data_def)

lemma entry_not_falsy: "entry_ok g \<Longrightarrow> \<not> falsy g"
  by (auto simp: entry_ok_def gallery_data_def falsy_def)

lemma redis_entry:
  assumes "texts_ok m" and "m u = Some b"
  obtains g where "entry_ok g" "b = py_dumps g" "py_loads b = Some g"
  using assms entry_loads by (fastforce simp: texts_ok_def)

lemma gallery_entry: "gallery_ok content s \<Longrightarrow> gallery content s u = Some g \<Longrightarrow> entry_ok g"
  by (auto simp: gallery_def gallery_ok_def bind_eq_Some_conv dest: map_of_SomeD elim: redis_entry split: if_splits)

lemma get_redis_settled:
  "settled c s \<Longrightarrow> get_redis c e s = (Inr (redis_client s = Some Connected), s)"
  by (auto simp: get_redis_def settled_def)

lemma set_update_subset: "set (AList.update k v al) \<subseteq> insert (k, v) (set al)"
  by (induction al) auto

text \<open>A saved entry is the user's entry from then on; a failed command has saved it or not.\<close>

lemma save_map:
  assumes "hash_laws (fe_hash e) content" "settled c s" "gallery_ok content s" "entry_ok g"
    and "save_to_gallery c e u g s = (r, s')"
  shows "gallery_ok content s'" and "redis_client s' = redis_client s"
    and "gallery content s' = (gallery content s)(u \<mapsto> g) \<or> (r \<noteq> Inr () \<and> gallery content s' = gallery content s)"
proof -
  have "gallery_ok content s' \<and> redis_client s' = redis_client s
    \<and> (gallery content s' = (gallery content s)(u \<mapsto> g) \<or> (r \<noteq> Inr () \<and> gallery content s' = gallery content s))"
  proof (cases "redis_client s = Some Connected")
    case True
    obtain q d where q: "hs_set (fe_hash e) u (py_dumps g) (redis_data s) = (q, d)" by fastforce
    with assms(5) True have s': "s' = s\<lparr>redis_data := d\<rparr>" "r = (case q of Inl t \<Rightarrow> Inl (Exn t) | Inr _ \<Rightarrow> Inr ())"
      by (auto simp: save_to_gallery_def py_bind_def get_redis_settled [OF assms(2)] split: sum.splits)
    note d = hash_lawsD(1) [OF assms(1) q]
    have "(\<lambda>v. Option.bind (((content (redis_data s))(u \<mapsto> py_dumps g)) v) py_loads) = (gallery content s)(u \<mapsto> g)"
      using True assms(4) by (auto simp: gallery_def entry_loads)
    moreover have "gallery_ok content s'"
      using assms(3,4) d by (auto simp: gallery_ok_def s'(1) texts_ok_upd)
    ultimately show ?thesis
      using True d by (auto simp: s' gallery_def split: sum.split)
  next
    case False
    with assms(5) have s': "s' = s\<lparr>face_gallery := AList.update u g (face_gallery s)\<rparr>"
      by (auto simp: save_to_gallery_def py_bind_def get_redis_settled [OF assms(2)])
    have "map_of (AList.update u g (face_gallery s)) = (map_of (face_gallery s))(u \<mapsto> g)" by (rule update_conv')
    moreover have "\<forall>(u, g) \<in> set (AList.update u g (face_gallery s)). entry_ok g"
      using assms(3,4) set_update_subset by (fastforce simp: gallery_ok_def)
    ultimately show ?thesis
      using False assms(3,4) by (simp add: s' gallery_def gallery_ok_def distinct_update)
  qed
  then show "gallery_ok content s'" "redis_client s' = redis_client s"
    "gallery content s' = (gallery content s)(u \<mapsto> g) \<or> (r \<noteq> Inr () \<and> gallery content s' = gallery content s)"
    by blast+
qed

lemma load_map:
  assumes "hash_laws (fe_hash e) content" "settled c s" "gallery_ok content s"
    and "load_from_gallery c e u s = (r, s')"
  shows "s' = s" and "r = Inr d \<Longrightarrow> d = gallery content s u"
    and "r = Inl x \<Longrightarrow> redis_client s = Some Connected \<and> (\<exists>t. hs_get (fe_hash e) u (redis_data s) = Inl t)"
proof -
  have "s' = s \<and> (r = Inr d \<longrightarrow> d = gallery content s u)
    \<and> (r = Inl x \<longrightarrow> redis_client s = Some Connected \<and> (\<exists>t. hs_get (fe_hash e) u (redis_data s) = Inl t))"
  proof (cases "redis_client s = Some Connected")
    case True
    show ?thesis
    proof (cases "hs_get (fe_hash e) u (redis_data s)")
      case (Inl t)
      then show ?thesis using True assms(4)
        by (auto simp: load_from_gallery_def py_bind_def py_lift_def get_redis_settled [OF assms(2)])
    next
      case (Inr y)
      with hash_lawsD(2) [OF assms(1)] have x: "y = content (redis_data s) u" by simp
      show ?thesis
      proof (cases y)
        case None
        then show ?thesis using True assms(4) Inr x
          by (auto simp: load_from_gallery_def py_bind_def py_lift_def py_return_def get_redis_settled [OF assms(2)] gallery_def)
      next
        case (Some b)
        then obtain g where "entry_ok g" "b = py_dumps g" "py_loads b = Some g"
          using assms(3) x by (auto simp: gallery_ok_def elim: redis_entry)
        moreover from this have "gallery content s u = Some g" using True Some x by (simp add: gallery_def)
        ultimately show ?thesis using True assms(4) Inr [unfolded Some] entry_text [of g]
          by (auto simp: load_from_gallery_def py_bind_def py_lift_def py_return_def stored_value_def get_redis_settled [OF assms(2)])
      qed
    qed
  next
    case False
    then show ?thesis using assms(4)
      by (auto simp: load_from_gallery_def py_bind_def get_redis_settled [OF assms(2)] gallery_def)
  qed
  then show "s' = s" and "r = Inr d \<Longrightarrow> d = gallery content s u"
    and "r = Inl x \<Longrightarrow> redis_client s = Some Connected \<and> (\<exists>t. hs_get (fe_hash e) u (redis_data s) = Inl t)" by blast+
qed

lemma stored_values_map:
  assumes "\<forall>(u, b) \<in> set l. \<exists>g. entry_ok g \<and> b = py_dumps g"
  shows "\<exists>gs. stored_values l = Inr gs \<and> map fst gs = map fst l \<and> map_of gs = (\<lambda>u. Option.bind (map_of l u) py_loads)"
  using assms
proof (induction l)
  case (Cons p l)
  obtain u b where p: "p = (u, b)" by (cases p)
  from Cons.prems p obtain g where g: "entry_ok g" "b = py_dumps g" by auto
  from Cons obtain gs where "stored_values l = Inr gs" "map fst gs = map fst l"
    "map_of gs = (\<lambda>u. Option.bind (map_of l u) py_loads)" by auto
  with g show ?case by (auto simp: p stored_entry entry_loads)
qed simp

lemma all_map:
  assumes "hash_laws (fe_hash e) content" "settled c s" "gallery_ok content s"
    and "get_all_gallery c e s = (r, s')"
  shows "s' = s" and "r = Inr l \<Longrightarrow> distinct (map fst l) \<and> map_of l = gallery content s"
    and "r = Inl x \<Longrightarrow> redis_client s = Some Connected \<and> (\<exists>t. hs_all (fe_hash e) (redis_data s) = Inl t)"
proof -
  have "s' = s \<and> (r = Inr l \<longrightarrow> distinct (map fst l) \<and> map_of l = gallery content s)
    \<and> (r = Inl x \<longrightarrow> redis_client s = Some Connected \<and> (\<exists>t. hs_all (fe_hash e) (redis_data s) = Inl t))"
  proof (cases "redis_client s = Some Connected")
    case True
    show ?thesis
    proof (cases "hs_all (fe_hash e) (redis_data s)")
      case (Inl t)
      then show ?thesis using True assms(4)
        by (auto simp: get_all_gallery_def py_bind_def py_lift_def get_redis_settled [OF assms(2)])
    next
      case (Inr y)
      with hash_lawsD(3) [OF assms(1)] have x: "distinct (map fst y)" "map_of y = content (redis_data s)" by simp_all
      then have "\<forall>(u, b) \<in> set y. \<exists>g. entry_ok g \<and> b = py_dumps g"
        using assms(3) unfolding gallery_ok_def texts_ok_def by (auto dest: map_of_is_SomeI)
      from stored_values_map [OF this] x True Inr assms(4) show ?thesis
        by (auto simp: get_all_gallery_def py_bind_def py_lift_def get_redis_settled [OF assms(2)] gallery_def)
    qed
  next
    case False
    then show ?thesis using assms(3,4)
      by (auto simp: get_all_gallery_def py_bind_def get_redis_settled [OF assms(2)] gallery_def gallery_ok_def)
  qed
  then show "s' = s" and "r = Inr l \<Longrightarrow> distinct (map fst l) \<and> map_of l = gallery content s"
    and "r = Inl x \<Longrightarrow> redis_client s = Some Connected \<and> (\<exists>t. hs_all (fe_hash e) (redis_data s) = Inl t)" by blast+
qed

lemma delete_map:
  assumes "hash_laws (fe_hash e) content" "settled c s" "gallery_ok content s"
    and "delete_from_gallery c e u s = (r, s')"
  shows "gallery_ok content s'" and "redis_client s' = redis_client s"
    and "(\<exists>b. r = Inr b \<and> (b \<longleftrightarrow> gallery content s u \<noteq> None) \<and> gallery content s' = (gallery content s)(u := None))
      \<or> (\<exists>x. r = Inl x \<and> gallery content s' \<in> {gallery content s, (gallery content s)(u := None)})"
proof -
  have "gallery_ok content s' \<and> redis_client s' = redis_client s
    \<and> ((\<exists>b. r = Inr b \<and> (b \<longleftrightarrow> gallery content s u \<noteq> None) \<and> gallery content s' = (gallery content s)(u := None))
      \<or> (\<exists>x. r = Inl x \<and> gallery content s' \<in> {gallery content s, (gallery content s)(u := None)}))"
  proof (cases "redis_client s = Some Connected")
    case True
    obtain q d where q: "hs_del (fe_hash e) u (redis_data s) = (q, d)" by fastforce
    with assms(4) True have s': "s' = s\<lparr>redis_data := d\<rparr>" "r = (case q of Inl t \<Rightarrow> Inl (Exn t) | Inr n \<Rightarrow> Inr (0 < n))"
      by (auto simp: delete_from_gallery_def py_bind_def get_redis_settled [OF assms(2)] split: sum.splits)
    have m: "(\<lambda>v. Option.bind (((content (redis_data s))(u := None)) v) py_loads) = (gallery content s)(u := None)"
      using True by (auto simp: gallery_def)
    have some: "content (redis_data s) u \<noteq> None \<longleftrightarrow> gallery content s u \<noteq> None"
      using True assms(3) by (auto simp: gallery_def gallery_ok_def bind_eq_None_conv elim: redis_entry)
    have "gallery_ok content s'"
      using assms(3) hash_lawsD(4) [OF assms(1) q] by (auto simp: gallery_ok_def s'(1) texts_ok_del)
    with hash_lawsD(4) [OF assms(1) q] m some show ?thesis
      using True by (auto simp: s' gallery_def)
  next
    case False
    note s' = assms(4) [unfolded delete_from_gallery_def py_bind_def get_redis_settled [OF assms(2)]]
    have "map_of (AList.delete u (face_gallery s)) = (map_of (face_gallery s))(u := None)" by (rule delete_conv')
    moreover have "\<forall>(u, g) \<in> set (AList.delete u (face_gallery s)). entry_ok g"
      using assms(3) by (auto simp: gallery_ok_def AList.delete_eq)
    moreover have "u \<in> fst ` set (face_gallery s) \<longleftrightarrow> map_of (face_gallery s) u \<noteq> None" by (simp add: map_of_eq_None_iff)
    moreover have "map_of (face_gallery s) u = None \<Longrightarrow> (map_of (face_gallery s))(u := None) = map_of (face_gallery s)"
      by (simp add: fun_upd_idem)
    ultimately show ?thesis
      using False s' assms(3) by (auto simp: gallery_def gallery_ok_def distinct_delete split: if_splits)
  qed
  then show "gallery_ok content s'" "redis_client s' = redis_client s"
    "(\<exists>b. r = Inr b \<and> (b \<longleftrightarrow> gallery content s u \<noteq> None) \<and> gallery content s' = (gallery content s)(u := None))
      \<or> (\<exists>x. r = Inl x \<and> gallery content s' \<in> {gallery content s, (gallery content s)(u := None)})"
    by blast+
qed

section \<open>What a request changes\<close>

text \<open>A relation between the states before and after, whatever is returned or raised.\<close>

definition keeps :: "('s \<Rightarrow> 's \<Rightarrow> bool) \<Rightarrow> ('s, 'a) py \<Rightarrow> bool" where
  "keeps R m \<longleftrightarrow> (\<forall>s. R s (snd (m s)))"

lemma keepsD: "keeps R m \<Longrightarrow> m s = (r, s') \<Longrightarrow> R s s'"
  by (metis keeps_def snd_conv)

lemma keepsI: "(\<And>s r s'. m s = (r, s') \<Longrightarrow> R s s') \<Longrightarrow> keeps R m"
  by (simp add: keeps_def prod_eq_iff)

named_theorems frame

lemma keeps_const [frame]:
  assumes "reflp R"
  shows "keeps R (py_return x)" "keeps R (py_raise e)" "keeps R (py_lift q)" "keeps R (as_400 h i)"
  using assms by (auto simp: keeps_def py_return_def py_raise_def py_lift_def as_400_def reflp_def split: sum.split py_exn.split)

lemma keeps_bind [frame]:
  assumes "transp R" "keeps R m" "\<And>x. keeps R (f x)"
  shows "keeps R (py_bind m f)"
proof (rule keepsI)
  fix s r s' assume "py_bind m f s = (r, s')"
  then show "R s s'"
    using keepsD [OF assms(2)] keepsD [OF assms(3)] transpD [OF assms(1)]
    by (auto simp: py_bind_def split: prod.splits sum.splits) blast+
qed

lemma keeps_try [frame]:
  assumes "transp R" "keeps R m" "\<And>x. keeps R (h x)"
  shows "keeps R (py_try m h)"
proof (rule keepsI)
  fix s r s' assume "py_try m h s = (r, s')"
  then show "R s s'"
    using keepsD [OF assms(2)] keepsD [OF assms(3)] transpD [OF assms(1)]
    by (auto simp: py_try_def split: prod.splits sum.splits) blast+
qed

lemma keeps_each [frame]: "reflp R \<Longrightarrow> transp R \<Longrightarrow> (\<And>x. keeps R (f x)) \<Longrightarrow> keeps R (py_each f xs)"
  by (induction xs) (simp_all add: frame)

text \<open>A step that leaves the gallery alone, once its place is decided.\<close>

definition quiet :: "settings \<Rightarrow> 'r service \<Rightarrow> 'r service \<Rightarrow> bool" where
  "quiet c s s' \<longleftrightarrow> face_gallery s' = face_gallery s \<and> redis_data s' = redis_data s
     \<and> (settled c s \<longrightarrow> redis_client s' = redis_client s)"

lemma quiet_order [frame]: "reflp (quiet c)" "transp (quiet c)"
  by (auto simp: reflp_def transp_def quiet_def settled_def)

lemma quiet_redis [frame]: "keeps (quiet c) (get_redis c e)"
  by (auto simp: keeps_def quiet_def get_redis_def settled_def Let_def)

lemma quiet_model [frame]: "keeps (quiet c) (get_face_model e)"
  by (auto simp: keeps_def quiet_def get_face_model_def split: option.split loading.split)

lemma quiet_then:
  "keeps (quiet c) m \<Longrightarrow> (\<And>x s. quiet c s (snd (f x s))) \<Longrightarrow> keeps (quiet c) (py_bind m f)"
  by (intro keeps_bind quiet_order) (simp_all add: keeps_def)

lemma quiet_read [frame]:
  "keeps (quiet c) (load_from_gallery c e u)" "keeps (quiet c) (get_all_gallery c e)"
  unfolding load_from_gallery_def get_all_gallery_def
  by (rule quiet_then [OF quiet_redis],
      simp add: py_bind_def py_lift_def py_return_def quiet_def split: sum.split option.split)+

lemma quiet_embedding [frame]: "keeps (quiet c) (get_embedding e img q)"
  by (auto simp: get_embedding_def detect_def Let_def intro!: frame split: model.split)

lemma quiet_health [frame]: "keeps (quiet c) (service_health c e)"
  unfolding service_health_def
  by (intro frame quiet_then) (simp add: py_bind_def py_lift_def py_return_def quiet_def split: sum.split)

text \<open>The requests that only read.\<close>

lemma quiet_handlers [frame]:
  "keeps (quiet c) (embed e u)" "keeps (quiet c) (compare c e u v)" "keeps (quiet c) (list_gallery c e)"
  "keeps (quiet c) (search c e u k t)" "keeps (quiet c) (identify c e d k)" "keeps (quiet c) (verify c e i u)"
  "keeps (quiet c) (liveness e u)" "keeps (quiet c) (batch_embed e us)" "keeps (quiet c) (analyze e u)"
  unfolding embed_def compare_def list_gallery_def search_def identify_def verify_def liveness_def batch_embed_def
    analyze_def embed_one_def download_image_def parse_base64_image_def detect_def Let_def
  by (auto intro!: frame split: model.split option.split)

lemma py_bind_cases:
  assumes "py_bind m f s = (r, s')"
  obtains x where "r = Inl x" "m s = (Inl x, s')"
  | x t where "m s = (Inr x, t)" "f x t = (r, s')"
  using assms by (auto simp: py_bind_def split: prod.splits sum.splits)

lemma download_value: "download_image e u s = (r, s') \<Longrightarrow> s' = s \<and> (\<forall>img. r = Inr img \<longrightarrow> fetch_image e u = Inr img)"
  by (cases "fetch_image e u") (auto simp: download_image_def as_400_def split: py_exn.splits)

text \<open>An embedding comes from a detected face, the best one, or is random in mock mode.\<close>

definition embedding_of ::
  "('i, 'r) face_env \<Rightarrow> model \<Rightarrow> 'i \<Rightarrow> float64 list \<times> float64 \<times> int \<times> FaceQuality option \<Rightarrow> bool" where
  "embedding_of e m img x \<longleftrightarrow>
     (case m of
        Mock \<Rightarrow> x = (fe_random e, f64_round (95 / 100), 1, Some service_mock_quality)
      | FaceAnalysis p \<Rightarrow> (\<exists>faces. fe_detect e p img = Inr faces \<and> faces \<noteq> []
          \<and> (let f = get_best_face e faces img
             in x = (fc_embedding f, fc_det_score f, int (length faces), Some (fe_quality e f img)))))"

lemma get_embedding_value:
  assumes "get_embedding e img True s = (Inr x, s')"
  shows "\<exists>m. face_model s' = Some m \<and> embedding_of e m img x"
  using assms unfolding get_embedding_def
proof (cases rule: py_bind_cases)
  case (2 m t)
  from 2(1) have "face_model t = Some m"
    by (auto simp: get_face_model_def split: option.splits loading.splits)
  moreover have "s' = t \<and> embedding_of e m img x"
    using 2(2) by (cases m)
      (auto simp: embedding_of_def detect_def py_bind_def py_lift_def py_return_def py_raise_def Let_def split: sum.splits if_splits)
  ultimately show ?thesis by blast
qed simp

lemma embedding_quality: "embedding_of e m img (emb, score, n, q) \<Longrightarrow> \<exists>x. q = Some x"
  by (cases m) (auto simp: embedding_of_def Let_def)

lemma get_best_face_in:
  assumes "faces \<noteq> []"
  shows "get_best_face e faces img \<in> set faces"
proof -
  define l where "l = sort_key (\<lambda>x. - snd x) (map (\<lambda>f. (f, fq_Score (fe_quality e f img))) faces)"
  have "length l = length faces" by (simp add: l_def)
  then have "hd l \<in> set l" using assms by (cases l) auto
  moreover have "set l = (\<lambda>f. (f, fq_Score (fe_quality e f img))) ` set faces" by (simp add: l_def)
  ultimately have "fst (hd l) \<in> set faces" by auto
  then show ?thesis using assms by (simp add: get_best_face_def l_def)
qed

lemma embedding_f64:
  assumes "env_ok content e" and "embedding_of e m img (emb, score, n, q)"
  shows "list_all is_f64 emb"
proof (cases m)
  case Mock
  then show ?thesis using assms(2) env_ok_parts(2) [OF assms(1)] by (simp add: embedding_of_def)
next
  case (FaceAnalysis p)
  with assms(2) obtain faces where f: "fe_detect e p img = Inr faces" "faces \<noteq> []" "emb = fc_embedding (get_best_face e faces img)"
    by (auto simp: embedding_of_def Let_def)
  show ?thesis unfolding f(3) by (rule env_ok_faces [OF assms(1) f(1) get_best_face_in [OF f(2)]])
qed

lemma enroll_eqs:
  assumes "download_image e u s = (Inr img, s)"
  shows "get_embedding e img True s = (Inl x, s1) \<Longrightarrow> enroll c e i u n m s =
      (case x of Http _ d \<Rightarrow> (Inr (enroll_answer i False None d), s1) | Exn t \<Rightarrow> (Inl (Exn t), s1))"
    and "get_embedding e img True s = (Inr (emb, score, k, q), s1) \<Longrightarrow> enroll c e i u n m s =
      (case too_low c q of
         Some t \<Rightarrow> (Inr (enroll_answer i False q t), s1)
       | None \<Rightarrow>
           (case save_to_gallery c e i (gallery_data (fe_now e) emb n m) s1 of
              (Inl x, s2) \<Rightarrow> (Inl x, s2)
            | (Inr _, s2) \<Rightarrow> (Inr (enroll_answer i True q ''Face enrolled successfully''), s2)))"
  using assms
  by (simp_all add: enroll_def py_bind_def py_try_def py_return_def py_raise_def split: py_exn.split option.split)
    (auto simp: py_return_def split: prod.split sum.split)

text \<open>What is answered with success false has changed nothing.\<close>

lemma enroll_answer_success [simp]: "dict_get (enroll_answer i b q t) ''success'' = Some (GBool b)"
  by (simp add: enroll_answer_def)

lemma enroll_cases:
  assumes "enroll c e i u n m s = (r, s')"
  obtains (refused) "quiet c s s'" "\<And>g. r = Inr g \<Longrightarrow> dict_get g ''success'' = Some (GBool False)"
  | (saved) img emb score k q s1 r1 where "fetch_image e u = Inr img"
      "get_embedding e img True s = (Inr (emb, score, k, q), s1)" "too_low c q = None"
      "save_to_gallery c e i (gallery_data (fe_now e) emb n m) s1 = (r1, s')"
      "r = (case r1 of Inl x \<Rightarrow> Inl x | Inr _ \<Rightarrow> Inr (enroll_answer i True q ''Face enrolled successfully''))"
proof -
  obtain g s0 where g: "download_image e u s = (g, s0)" by fastforce
  from download_value [OF g] have s0: "s0 = s" and img: "g = Inr img \<Longrightarrow> fetch_image e u = Inr img" for img by blast+
  show ?thesis
  proof (cases g)
    case (Inl x)
    with assms g s0 have "r = Inl x" "s' = s" by (simp_all add: enroll_def py_bind_def)
    then show ?thesis using reflpD [OF quiet_order(1)] by (intro refused) simp_all
  next
    case g_img: (Inr img)
    with g s0 have dl: "download_image e u s = (Inr img, s)" by simp
    obtain h s1 where h: "get_embedding e img True s = (h, s1)" by fastforce
    have quiet1: "quiet c s s1" using keepsD [OF quiet_embedding h] .
    show ?thesis
    proof (cases h)
      case (Inl x)
      from assms quiet1 show ?thesis unfolding enroll_eqs(1) [OF dl h [unfolded Inl]]
        by (intro refused) (auto split: py_exn.splits)
    next
      case (Inr x)
      obtain emb score k q where x: "x = (emb, score, k, q)" by (cases x)
      note eq = assms [unfolded enroll_eqs(2) [OF dl h [unfolded Inr x]]]
      show ?thesis
      proof (cases "too_low c q")
        case (Some t)
        with eq quiet1 show ?thesis by (intro refused) auto
      next
        case None
        obtain r1 s2 where r1: "save_to_gallery c e i (gallery_data (fe_now e) emb n m) s1 = (r1, s2)" by fastforce
        with eq None have "s2 = s'" "r = (case r1 of Inl x \<Rightarrow> Inl x | Inr _ \<Rightarrow> Inr (enroll_answer i True q ''Face enrolled successfully''))"
          by (auto split: sum.splits)
        with r1 show ?thesis by (intro saved [OF img [OF g_img] h [unfolded Inr x] None]) simp_all
      qed
    qed
  qed
qed

text \<open>What an enrollment stores can be written as JSON and read back.\<close>

lemma depth_leaves: "(\<And>v. v \<in> set vs \<Longrightarrow> depth v = 0) \<Longrightarrow> depth (GSlice vs) = 1"
  by (induction vs) auto

lemma entry_okI:
  assumes "list_all is_f64 emb" "to_utf8 now = now" "request_ok (EnrollRequest i u n m)"
  shows "entry_ok (gallery_data now emb n m)"
proof -
  define meta where "meta = GMap (case m of None \<Rightarrow> [] | Some x \<Rightarrow> x)"
  have "dumpable meta \<and> depth meta < 100"
    using assms(3) by (auto simp: meta_def request_ok_def dumpable_def split: option.splits)
  moreover have "dumpable (optional GString n) \<and> depth (optional GString n) = 0"
    using assms(3) by (auto simp: optional_def request_ok_def dumpable_def split: option.splits)
  moreover have "depth (GSlice (map GFloat emb)) = 1" by (rule depth_leaves) auto
  ultimately have "dumpable (gallery_data now emb n m)"
    using assms(1,2)
    by (simp add: gallery_data_def dumpable_def list_all_iff ascii_to_utf8 ascii_def flip: meta_def)
  then show ?thesis unfolding entry_ok_def by blast
qed

text \<open>Steps that change the gallery at most for the users of a set.\<close>

definition only ::
  "('r \<Rightarrow> string \<rightharpoonup> bytes) \<Rightarrow> settings \<Rightarrow> string set \<Rightarrow> 'r service \<Rightarrow> 'r service \<Rightarrow> bool" where
  "only content c U s s' \<longleftrightarrow>
     (settled c s \<and> gallery_ok content s \<longrightarrow>
        settled c s' \<and> gallery_ok content s' \<and> (\<forall>v. v \<notin> U \<longrightarrow> gallery content s' v = gallery content s v))"

lemma quiet_only: "quiet c s s' \<Longrightarrow> only content c U s s'"
  by (auto simp: quiet_def only_def settled_def gallery_ok_def gallery_def)

lemma save_only:
  assumes "hash_laws (fe_hash e) content" "entry_ok g" "save_to_gallery c e u g s = (r, s')"
  shows "only content c {u} s s'"
  using save_map [OF assms(1) _ _ assms(2,3)] by (auto simp: only_def settled_def)

lemma unenroll_only:
  assumes "hash_laws (fe_hash e) content" "unenroll c e u s = (r, s')"
  shows "only content c {u} s s'"
proof -
  from assms(2) obtain r' where "delete_from_gallery c e u s = (r', s')"
    unfolding unenroll_def
    by (cases rule: py_bind_cases) (auto simp: py_raise_def py_return_def split: if_splits)
  from delete_map [OF assms(1) _ _ this] show ?thesis by (auto simp: only_def settled_def)
qed

definition touched :: "face_request \<Rightarrow> string set" where
  "touched rq = (case rq of EnrollRequest i _ _ _ \<Rightarrow> {i} | UnenrollRequest i \<Rightarrow> {i} | _ \<Rightarrow> {})"

lemma handle_quiet: "handle c e rq s = (r, s') \<Longrightarrow> touched rq = {} \<Longrightarrow> quiet c s s'"
  by (cases rq) (auto simp: handle_def touched_def elim: keepsD [rotated] intro: frame)

lemma handle_only:
  assumes "env_ok content e" "request_ok rq" "handle c e rq s = (r, s')"
  shows "only content c (touched rq) s s'"
proof (cases rq)
  case (EnrollRequest i u n m)
  with assms(3) have "enroll c e i u n m s = (r, s')" by (simp add: handle_def)
  then show ?thesis
  proof (cases rule: enroll_cases)
    case refused
    then show ?thesis by (intro quiet_only)
  next
    case (saved img emb score k q s1 r1)
    have "only content c {} s s1" by (intro quiet_only keepsD [OF quiet_embedding saved(2)])
    moreover from get_embedding_value [OF saved(2)] embedding_f64 [OF assms(1)]
    have "entry_ok (gallery_data (fe_now e) emb n m)"
      by (intro entry_okI [OF _ env_ok_parts(3) [OF assms(1)] assms(2) [unfolded EnrollRequest]]) blast
    from save_only [OF env_ok_parts(1) [OF assms(1)] this saved(4)] have "only content c {i} s1 s'" .
    ultimately show ?thesis by (auto simp: EnrollRequest touched_def only_def)
  qed
next
  case (UnenrollRequest i)
  with assms(3) have "unenroll c e i s = (r, s')" by (simp add: handle_def)
  from unenroll_only [OF env_ok_parts(1) [OF assms(1)] this] show ?thesis by (simp add: UnenrollRequest touched_def)
qed (rule quiet_only [OF handle_quiet [OF assms(3)]], simp add: touched_def)+

section \<open>The first request\<close>

text \<open>The place of the gallery is decided by the first request that needs it.\<close>

definition settle :: "settings \<Rightarrow> ('i, 'r) face_env \<Rightarrow> 'r service \<Rightarrow> 'r service" where
  "settle c e s = snd (get_redis c e s)"

lemma settled_settle: "settled c (settle c e s)"
  by (simp add: settle_def get_redis_def settled_def Let_def)

lemma settle_settled: "settled c s \<Longrightarrow> settle c e s = s"
  by (simp add: settle_def get_redis_settled)

lemma settle_ok: "gallery_ok content (settle c e s) = gallery_ok content s"
  by (simp add: settle_def get_redis_def gallery_ok_def Let_def)

lemma bind_settle: "py_bind (get_redis c e) f s = py_bind (get_redis c e) f (settle c e s)"
  by (cases "redis_client s") (auto simp: settle_def get_redis_def py_bind_def Let_def)

lemma settle_ops:
  "save_to_gallery c e u g s = save_to_gallery c e u g (settle c e s)"
  "delete_from_gallery c e u s = delete_from_gallery c e u (settle c e s)"
  unfolding save_to_gallery_def delete_from_gallery_def by (rule bind_settle)+

lemma quiet_ok: "quiet c s s' \<Longrightarrow> gallery_ok content s' = gallery_ok content s"
  by (simp add: quiet_def gallery_ok_def)

text \<open>A success stores the embedding of the image for the user, wherever the gallery is.\<close>

lemma enroll_stores:
  assumes "env_ok content e" "request_ok (EnrollRequest i u n m)" "gallery_ok content s"
    and "enroll c e i u n m s = (Inr g, s')" "dict_get g ''success'' = Some (GBool True)"
  shows "\<exists>img emb score k q md. fetch_image e u = Inr img \<and> embedding_of e md img (emb, score, k, q)
    \<and> settled c s' \<and> gallery_ok content s' \<and> gallery content s' i = Some (gallery_data (fe_now e) emb n m)"
  using assms(4)
proof (cases rule: enroll_cases)
  case refused
  with assms(5) show ?thesis by auto
next
  case (saved img emb score k q s1 r1)
  from get_embedding_value [OF saved(2)] obtain md where md: "embedding_of e md img (emb, score, k, q)" by blast
  have entry: "entry_ok (gallery_data (fe_now e) emb n m)"
    by (rule entry_okI [OF embedding_f64 [OF assms(1) md] env_ok_parts(3) [OF assms(1)] assms(2)])
  have ok: "gallery_ok content (settle c e s1)"
    using quiet_ok [OF keepsD [OF quiet_embedding saved(2)]] assms(3) by (simp add: settle_ok)
  note save = save_map [OF env_ok_parts(1) [OF assms(1)] settled_settle ok entry saved(4) [unfolded settle_ops(1) [of c e i _ s1]]]
  from saved(5) have "r1 = Inr ()" by (cases r1) simp_all
  with save have "gallery content s' i = Some (gallery_data (fe_now e) emb n m)" by auto
  moreover have "settled c s'" using save(2) settled_settle [of c e s1] by (simp add: settled_def)
  ultimately show ?thesis using saved(1) md save(1) by blast
qed

lemma handle_ok:
  assumes "env_ok content e" "request_ok rq" "gallery_ok content s" "handle c e rq s = (r, s')"
  shows "gallery_ok content s'"
proof (cases rq)
  case (EnrollRequest i u n m)
  with assms(4) have "enroll c e i u n m s = (r, s')" by (simp add: handle_def)
  then show ?thesis
  proof (cases rule: enroll_cases)
    case refused
    then show ?thesis using quiet_ok assms(3) by blast
  next
    case (saved img emb score k q s1 r1)
    from get_embedding_value [OF saved(2)] embedding_f64 [OF assms(1)]
    have entry: "entry_ok (gallery_data (fe_now e) emb n m)"
      by (intro entry_okI [OF _ env_ok_parts(3) [OF assms(1)] assms(2) [unfolded EnrollRequest]]) blast
    have ok: "gallery_ok content (settle c e s1)"
      using quiet_ok [OF keepsD [OF quiet_embedding saved(2)]] assms(3) by (simp add: settle_ok)
    show ?thesis
      by (rule save_map(1) [OF env_ok_parts(1) [OF assms(1)] settled_settle ok entry saved(4) [unfolded settle_ops(1) [of c e i _ s1]]])
  qed
next
  case (UnenrollRequest i)
  with assms(4) obtain r' where del: "delete_from_gallery c e i s = (r', s')"
    by (auto simp: handle_def unenroll_def py_raise_def py_return_def elim!: py_bind_cases split: if_splits)
  have ok: "gallery_ok content (settle c e s)" using assms(3) by (simp add: settle_ok)
  show ?thesis
    by (rule delete_map(1) [OF env_ok_parts(1) [OF assms(1)] settled_settle ok del [unfolded settle_ops(2) [of c e i s]]])
qed (simp_all add: quiet_ok [OF handle_quiet [OF assms(4)]] touched_def assms(3))

section \<open>Requests in sequence\<close>

inductive service_step ::
  "('r \<Rightarrow> string \<rightharpoonup> bytes) \<Rightarrow> settings \<Rightarrow> 'r service
     \<Rightarrow> ('i, 'r) face_env \<times> face_request \<times> py_outcome \<Rightarrow> 'r service \<Rightarrow> bool"
  for content c where
  "env_ok content e \<Longrightarrow> request_ok rq \<Longrightarrow> handle c e rq s = (r, s')
     \<Longrightarrow> service_step content c s (e, rq, outcome r) s'"

inductive_cases service_stepE: "service_step content c s ev s'"

text \<open>The service starts with nothing decided and nothing in memory, over what Redis holds from earlier runs.\<close>

definition fresh :: "('r \<Rightarrow> string \<rightharpoonup> bytes) \<Rightarrow> 'r service \<Rightarrow> bool" where
  "fresh content s \<longleftrightarrow> face_model s = None \<and> redis_client s = None \<and> face_gallery s = []
     \<and> texts_ok (content (redis_data s))"

interpretation gallery: invariant_system "fresh content"
  "service_step content c :: _ \<Rightarrow> ('i, 'r) face_env \<times> _ \<Rightarrow> _" "gallery_ok content"
  for content :: "'r \<Rightarrow> string \<rightharpoonup> bytes" and c
proof
  show "gallery_ok content s" if "fresh content s" for s :: "'r service"
    using that by (simp add: fresh_def gallery_ok_def)
  show "gallery_ok content s'" if "gallery_ok content s" "service_step content c s ev s'"
    for s s' :: "'r service" and ev :: "('i, 'r) face_env \<times> _"
    using that(2,1) by (auto elim!: service_stepE intro: handle_ok)
qed

lemma runs_only:
  assumes "runs (service_step content c) s es t" "settled c s" "gallery_ok content s"
    "\<forall>ev \<in> set es. u \<notin> touched (fst (snd ev))"
  shows "settled c t \<and> gallery_ok content t \<and> gallery content t u = gallery content s u"
  using assms
proof (induction rule: runs.induct)
  case (runs_snoc s es t ev t')
  from runs_snoc.hyps(2) obtain e rq r where step: "env_ok content e" "request_ok rq" "handle c e rq t = (r, t')" "ev = (e, rq, outcome r)"
    by (rule service_stepE)
  from runs_snoc have "settled c t" "gallery_ok content t" "gallery content t u = gallery content s u" by simp_all
  with handle_only [OF step(1-3)] runs_snoc.prems step(4) show ?case by (simp add: only_def)
qed simp

section \<open>Properties\<close>

text \<open>
  C10. Wherever the gallery is, its operations are those of one map from users to their data: saving
  updates the map, and if the Redis command fails it was updated or not; loading is a lookup; a listing
  has every user once; deleting removes the user and reports whether it was there. Reading fails only if a
  Redis command does: what was saved as JSON is always loaded as the value it was.
\<close>

theorem gallery_refines_map:
  assumes "hash_laws (fe_hash e) content" and "settled c s" and "gallery_ok content s"
  shows "(\<forall>u g r s'. entry_ok g \<longrightarrow> save_to_gallery c e u g s = (r, s') \<longrightarrow> gallery_ok content s'
           \<and> (gallery content s' = (gallery content s)(u \<mapsto> g) \<or> (r \<noteq> Inr () \<and> gallery content s' = gallery content s)))
    \<and> (\<forall>u r s'. load_from_gallery c e u s = (r, s') \<longrightarrow> s' = s
           \<and> (case r of Inr d \<Rightarrow> d = gallery content s u | Inl _ \<Rightarrow> \<exists>t. hs_get (fe_hash e) u (redis_data s) = Inl t))
    \<and> (\<forall>r s'. get_all_gallery c e s = (r, s') \<longrightarrow> s' = s
           \<and> (case r of Inr l \<Rightarrow> distinct (map fst l) \<and> map_of l = gallery content s
              | Inl _ \<Rightarrow> \<exists>t. hs_all (fe_hash e) (redis_data s) = Inl t))
    \<and> (\<forall>u b s'. delete_from_gallery c e u s = (Inr b, s') \<longrightarrow> gallery_ok content s'
           \<and> (b \<longleftrightarrow> gallery content s u \<noteq> None) \<and> gallery content s' = (gallery content s)(u := None))"
proof (intro conjI allI impI)
  fix u g r s' assume "entry_ok g" "save_to_gallery c e u g s = (r, s')"
  from save_map [OF assms this]
  show "gallery_ok content s'"
    "gallery content s' = (gallery content s)(u \<mapsto> g) \<or> (r \<noteq> Inr () \<and> gallery content s' = gallery content s)" by blast+
next
  fix u r s' assume "load_from_gallery c e u s = (r, s')"
  from load_map [OF assms this] show "s' = s"
    "case r of Inr d \<Rightarrow> d = gallery content s u | Inl _ \<Rightarrow> \<exists>t. hs_get (fe_hash e) u (redis_data s) = Inl t"
    by (auto split: sum.split)
next
  fix r s' assume "get_all_gallery c e s = (r, s')"
  from all_map [OF assms this] show "s' = s"
    "case r of Inr l \<Rightarrow> distinct (map fst l) \<and> map_of l = gallery content s | Inl _ \<Rightarrow> \<exists>t. hs_all (fe_hash e) (redis_data s) = Inl t"
    by (auto split: sum.split)
next
  fix u b s' assume "delete_from_gallery c e u s = (Inr b, s')"
  from delete_map [OF assms this] show "gallery_ok content s'" "b \<longleftrightarrow> gallery content s u \<noteq> None"
    "gallery content s' = (gallery content s)(u := None)" by blast+
qed

text \<open>A Redis server that is an association list.\<close>

definition alist_hash :: "(string \<times> bytes) list hash_server" where
  "alist_hash =
     \<lparr>hs_set = (\<lambda>k v r. (Inr (), AList.update k v r)), hs_get = (\<lambda>k r. Inr (map_of r k)),
      hs_all = (\<lambda>r. Inr (AList.clearjunk r)),
      hs_del = (\<lambda>k r. (Inr (if map_of r k = None then 0 else 1), AList.delete k r)),
      hs_len = (\<lambda>r. Inr (int (length (AList.clearjunk r))))\<rparr>"

lemma alist_hash_laws: "hash_laws alist_hash map_of"
  by (auto simp: hash_laws_def alist_hash_def update_conv' delete_conv' distinct_clearjunk map_of_clearjunk)

text \<open>Surroundings in which every picture shows one face, of the given similarity to any other.\<close>

definition camera_face :: face where
  "camera_face = \<lparr>fc_bbox = [0, 0, 1, 1], fc_det_score = 1, fc_embedding = [1], fc_age = None, fc_gender = None\<rparr>"

definition camera_quality :: FaceQuality where
  "camera_quality = quality_zero\<lparr>fq_Score := 1, fq_IsFrontal := True\<rparr>"

definition camera :: "float64 \<Rightarrow> (bytes, (string \<times> bytes) list) face_env" where
  "camera x =
     \<lparr>fe_load = Prepared, fe_ping = True, fe_hash = alist_hash, fe_get = (\<lambda>url. Response 200 [url] None),
      fe_status_text = (\<lambda>url code. []), fe_http_text = (\<lambda>code t. t),
      fe_pil = \<lparr>pil_open = Inr, pil_mode = (\<lambda>_. ''RGB''), pil_convert = (\<lambda>i m. Inr i), pil_on_white = (\<lambda>i b. Inr i)\<rparr>,
      fe_detect = (\<lambda>p img. Inr [camera_face]), fe_quality = (\<lambda>f img. camera_quality),
      fe_liveness = (\<lambda>f img. (True, 1, [])), fe_dot = (\<lambda>a b. Some x), fe_norm = (\<lambda>a. 1), fe_random = [],
      fe_now = ''now''\<rparr>"

definition camera_settings :: settings where
  "camera_settings = \<lparr>MATCH_THRESHOLD = f64_round (45 / 100), QUALITY_THRESHOLD = 0, USE_GPU = False, REDIS_URL = ''redis''\<rparr>"

definition ann_data :: gval where
  "ann_data = gallery_data ''now'' [1] None None"

definition empty_service :: "(string \<times> bytes) list service" where
  "empty_service = \<lparr>face_model = Some (FaceAnalysis True), redis_client = Some Connected, face_gallery = [], redis_data = []\<rparr>"

definition ann_service :: "(string \<times> bytes) list service" where
  "ann_service = empty_service\<lparr>redis_data := [(''ann'', py_dumps ann_data)]\<rparr>"

lemma one_f64: "is_f64 1"
  using f64_round_multiple [of 1 1 0] by (simp add: is_f64_def)

lemma camera_ok: "env_ok map_of (camera x)"
  using one_f64 by (simp add: env_ok_def camera_def camera_face_def alist_hash_laws ascii_to_utf8 ascii_def)

lemma ann_entry: "entry_ok ann_data"
  unfolding ann_data_def
  by (rule entry_okI [where i = "[]" and u = "[]"]) (simp_all add: one_f64 request_ok_def ascii_to_utf8 ascii_def)

lemma ann_service_ok: "settled camera_settings ann_service" "gallery_ok map_of ann_service"
  "gallery map_of ann_service = [''ann'' \<mapsto> ann_data]"
  using ann_entry
  by (auto simp: settled_def ann_service_def empty_service_def gallery_ok_def texts_ok_def gallery_def entry_loads)

theorem gallery_refines_map_witness:
  "gallery map_of (snd (save_to_gallery camera_settings (camera 1) ''ann'' ann_data empty_service)) = [''ann'' \<mapsto> ann_data]"
proof -
  have save: "save_to_gallery camera_settings (camera 1) ''ann'' ann_data empty_service = (Inr (), ann_service)"
    by (simp add: save_to_gallery_def py_bind_def get_redis_def camera_def alist_hash_def empty_service_def ann_service_def)
  have empty: "settled camera_settings empty_service" "gallery_ok map_of empty_service" "gallery map_of empty_service = Map.empty"
    by (auto simp: settled_def empty_service_def gallery_ok_def texts_ok_def gallery_def)
  from conjunct2 [OF conjunct1 [OF gallery_refines_map [OF env_ok_parts(1) [OF camera_ok] empty(1,2)], rule_format, OF ann_entry save]]
  show ?thesis using empty(3) save by simp
qed

end
