(* ===== verification/FaceSearch.thy ===== *)
theory FaceSearch
  imports FaceGallery
begin

text \<open>
  Search, identification and verification in the face service: a search returns the best matches above
  its threshold; verification decides by the similarity and identification by the similarity rounded to
  four decimal places, so that they can disagree.
\<close>

section \<open>The matches of a gallery\<close>

definition match_of :: "string \<Rightarrow> gval \<Rightarrow> float64 \<Rightarrow> face_match" where
  "match_of u d x = \<lparr>fm_user = u, fm_similarity = py_round x 4, fm_name = data_name d\<rparr>"

text \<open>A user of the gallery above the threshold.\<close>

definition above :: "('i, 'r) face_env \<Rightarrow> float64 list \<Rightarrow> float64 \<Rightarrow> (string \<rightharpoonup> gval) \<Rightarrow> string \<Rightarrow> face_match \<Rightarrow> bool" where
  "above e emb t g u m \<longleftrightarrow> (\<exists>d x. g u = Some d \<and> similarity_to e emb d = Inr x \<and> t \<le> x \<and> m = match_of u d x)"

lemma gallery_matches_Cons:
  "gallery_matches e emb t ((u, d) # l) = Inr ms \<longleftrightarrow>
     (\<exists>x ms'. similarity_to e emb d = Inr x \<and> gallery_matches e emb t l = Inr ms'
        \<and> ms = (if t \<le> x then match_of u d x # ms' else ms'))"
  by (auto simp: match_of_def split: sum.splits)

lemma gallery_matches_set:
  assumes "gallery_matches e emb t l = Inr ms"
  shows "m \<in> set ms \<longleftrightarrow> (\<exists>(u, d) \<in> set l. \<exists>x. similarity_to e emb d = Inr x \<and> t \<le> x \<and> m = match_of u d x)"
  using assms
proof (induction l arbitrary: ms)
  case (Cons p l)
  obtain u d where p: "p = (u, d)" by (cases p)
  from Cons.prems obtain x ms' where "similarity_to e emb d = Inr x" "gallery_matches e emb t l = Inr ms'"
    "ms = (if t \<le> x then match_of u d x # ms' else ms')"
    unfolding p gallery_matches_Cons by blast
  with Cons.IH show ?case by (auto simp: p)
qed simp

lemma gallery_matches_users:
  assumes "gallery_matches e emb t l = Inr ms" and "distinct (map fst l)"
  shows "distinct (map fm_user ms)"
  using assms
proof (induction l arbitrary: ms)
  case (Cons p l)
  obtain u d where p: "p = (u, d)" by (cases p)
  from Cons.prems obtain x ms' where ms': "gallery_matches e emb t l = Inr ms'"
    "ms = (if t \<le> x then match_of u d x # ms' else ms')"
    unfolding p gallery_matches_Cons by blast
  have "fm_user m \<in> fst ` set l" if "m \<in> set ms'" for m
    using gallery_matches_set [OF ms'(1)] that by (force simp: match_of_def)
  then have "u \<notin> fm_user ` set ms'" using Cons.prems(2) p by auto
  with Cons ms' show ?case by (simp add: p match_of_def)
qed simp

lemma gallery_matches_above:
  assumes "gallery_matches e emb t l = Inr ms" and "distinct (map fst l)" and "map_of l = g"
  shows "m \<in> set ms \<longleftrightarrow> (\<exists>u. above e emb t g u m)" and "distinct (map fm_user ms)"
proof -
  have "(u, d) \<in> set l \<longleftrightarrow> g u = Some d" for u d using assms(2,3) by (metis map_of_SomeD map_of_is_SomeI)
  then show "m \<in> set ms \<longleftrightarrow> (\<exists>u. above e emb t g u m)"
    unfolding gallery_matches_set [OF assms(1)] above_def by auto
  show "distinct (map fm_user ms)"
    using assms(1,2) by (rule gallery_matches_users)
qed

text \<open>The best of a list: in order, at most \<open>k\<close>, and all unless there are \<open>k\<close> that are as good.\<close>

lemma best_matches_sorted: "sorted_wrt (\<lambda>a b. fm_similarity b \<le> fm_similarity a) (best_matches k ms)"
proof -
  have "sorted (map (\<lambda>m. - fm_similarity m) (sort_key (\<lambda>m. - fm_similarity m) ms))" by simp
  then have "sorted_wrt (\<lambda>a b. fm_similarity b \<le> fm_similarity a) (sort_key (\<lambda>m. - fm_similarity m) ms)"
    by (simp add: sorted_map)
  then show ?thesis unfolding best_matches_def by (rule sorted_wrt_take)
qed

lemma best_matches_users: "distinct (map fm_user ms) \<Longrightarrow> distinct (map fm_user (best_matches k ms))"
proof -
  assume "distinct (map fm_user ms)"
  moreover have "mset (map fm_user (sort_key (\<lambda>m. - fm_similarity m) ms)) = mset (map fm_user ms)" by simp
  ultimately have "distinct (map fm_user (sort_key (\<lambda>m. - fm_similarity m) ms))" by (metis mset_eq_imp_distinct_iff)
  then show ?thesis by (simp add: best_matches_def take_map [symmetric])
qed

lemma best_matches_rest:
  assumes "m \<in> set ms" "m \<notin> set (best_matches k ms)"
  shows "length (best_matches k ms) = k" and "b \<in> set (best_matches k ms) \<Longrightarrow> fm_similarity m \<le> fm_similarity b"
proof -
  define l where "l = sort_key (\<lambda>m. - fm_similarity m) ms"
  have b: "best_matches k ms = take k l" by (simp add: best_matches_def l_def)
  have "m \<in> set l" using assms(1) by (simp add: l_def)
  then have drop: "m \<in> set (drop k l)" using assms(2) unfolding b by (metis Un_iff append_take_drop_id set_append)
  then show "length (best_matches k ms) = k" unfolding b by (cases "k \<le> length l") simp_all
  have "sorted_wrt (\<lambda>a b. fm_similarity b \<le> fm_similarity a) (take k l @ drop k l)"
    using best_matches_sorted [of "length ms" ms] by (simp add: best_matches_def l_def)
  then show "fm_similarity m \<le> fm_similarity b" if "b \<in> set (best_matches k ms)"
    using drop that unfolding b sorted_wrt_append by blast
qed

lemma best_matches_subset: "set (best_matches k ms) \<subseteq> set ms"
  unfolding best_matches_def by (metis set_sort set_take_subset)

section \<open>Search\<close>

lemma py_bind_InrE:
  assumes "py_bind m f s = (Inr y, s')"
  obtains x t where "m s = (Inr x, t)" "f x t = (Inr y, s')"
  using assms by (auto simp: py_bind_def split: prod.splits sum.splits)

lemma search_value:
  assumes "search c e u k t s = (Inr g, s')"
  shows "\<exists>img emb score n q md s1 l. fetch_image e u = Inr img \<and> get_embedding e img True s = (Inr (emb, score, n, q), s1)
    \<and> embedding_of e md img (emb, score, n, q) \<and> get_all_gallery c e s1 = (Inr l, s')
    \<and> (\<exists>ms. gallery_matches e emb (case t of None \<Rightarrow> MATCH_THRESHOLD c | Some t \<Rightarrow> t) l = Inr ms
         \<and> g = search_answer (best_matches k ms) n q)"
  using assms unfolding search_def
proof (elim py_bind_InrE, clarify, elim py_bind_InrE)
  fix img s0 emb score n q s1 l s2
  assume dl: "download_image e u s = (Inr img, s0)" and emb: "get_embedding e img True s0 = (Inr (emb, score, n, q), s1)"
    and all: "get_all_gallery c e s1 = (Inr l, s2)"
    and rest: "(if l = [] then py_return (search_answer [] n q)
       else py_bind (py_lift (gallery_matches e emb (case t of None \<Rightarrow> MATCH_THRESHOLD c | Some t \<Rightarrow> t) l)) (\<lambda>matches.
         py_return (search_answer (best_matches k matches) n q))) s2 = (Inr g, s')"
  from download_value [OF dl] have img: "fetch_image e u = Inr img" "s0 = s" by blast+
  from get_embedding_value [OF emb] obtain md where md: "embedding_of e md img (emb, score, n, q)" by blast
  from rest have "s' = s2 \<and> (\<exists>ms. gallery_matches e emb (case t of None \<Rightarrow> MATCH_THRESHOLD c | Some t \<Rightarrow> t) l = Inr ms
       \<and> g = search_answer (best_matches k ms) n q)"
    by (auto simp: py_return_def py_lift_def py_bind_def best_matches_def split: if_splits sum.splits)
  with img emb md all show ?thesis by blast
qed

text \<open>
  C39. A search that is answered returns, for the best face of the image, users of the gallery whose
  similarity reaches the threshold, each once, with their name and the similarity to four decimal places, in
  falling order and at most as many as asked for. A user who reaches the threshold is left out only if as
  many as asked for are at least as similar, to four places.
\<close>

theorem search_returns_best:
  assumes "env_ok content e" and "settled c s" and "gallery_ok content s" and "search c e u k t s = (Inr g, s')"
  shows "\<exists>img md emb score n q ms. fetch_image e u = Inr img \<and> embedding_of e md img (emb, score, n, q)
    \<and> g = search_answer ms n q \<and> gallery content s' = gallery content s
    \<and> length ms \<le> k \<and> distinct (map fm_user ms) \<and> sorted_wrt (\<lambda>a b. fm_similarity b \<le> fm_similarity a) ms
    \<and> (\<forall>m \<in> set ms. above e emb (case t of None \<Rightarrow> MATCH_THRESHOLD c | Some x \<Rightarrow> x) (gallery content s) (fm_user m) m)
    \<and> (\<forall>v m. above e emb (case t of None \<Rightarrow> MATCH_THRESHOLD c | Some x \<Rightarrow> x) (gallery content s) v m \<longrightarrow> m \<notin> set ms \<longrightarrow>
         length ms = k \<and> (\<forall>b \<in> set ms. fm_similarity m \<le> fm_similarity b))"
proof -
  from search_value [OF assms(4)] obtain img emb score n q md s1 l ms where
    found: "fetch_image e u = Inr img" "embedding_of e md img (emb, score, n, q)" "g = search_answer (best_matches k ms) n q"
    and emb: "get_embedding e img True s = (Inr (emb, score, n, q), s1)" and all: "get_all_gallery c e s1 = (Inr l, s')"
    and ms: "gallery_matches e emb (case t of None \<Rightarrow> MATCH_THRESHOLD c | Some t \<Rightarrow> t) l = Inr ms" by blast
  from quiet_only [OF keepsD [OF quiet_embedding emb], where content = content and U = "{}"] assms(2,3)
  have s1: "settled c s1" "gallery_ok content s1" "gallery content s1 = gallery content s" by (auto simp: only_def)
  note am = all_map [OF env_ok_parts(1) [OF assms(1)] s1(1,2) all]
  have l: "s' = s1" "distinct (map fst l)" "map_of l = gallery content s" using am(1) am(2) [OF refl] s1(3) by simp_all
  note abv = gallery_matches_above [OF ms l(2,3)]
  have user: "above e emb T G v m \<Longrightarrow> fm_user m = v" for T G v m by (auto simp: above_def match_of_def)
  show ?thesis
  proof (intro exI conjI ballI allI impI)
    show "length (best_matches k ms) \<le> k" by (simp add: best_matches_def)
    show "distinct (map fm_user (best_matches k ms))" using abv(2) by (rule best_matches_users)
    show "sorted_wrt (\<lambda>a b. fm_similarity b \<le> fm_similarity a) (best_matches k ms)" by (rule best_matches_sorted)
    show "above e emb (case t of None \<Rightarrow> MATCH_THRESHOLD c | Some x \<Rightarrow> x) (gallery content s) (fm_user m) m"
      if "m \<in> set (best_matches k ms)" for m
    proof -
      from that best_matches_subset have "m \<in> set ms" by blast
      with abv(1) obtain v where "above e emb (case t of None \<Rightarrow> MATCH_THRESHOLD c | Some x \<Rightarrow> x) (gallery content s) v m" by blast
      with user [OF this] show ?thesis by simp
    qed
    show "length (best_matches k ms) = k" "b \<in> set (best_matches k ms) \<Longrightarrow> fm_similarity m \<le> fm_similarity b"
      if "above e emb (case t of None \<Rightarrow> MATCH_THRESHOLD c | Some x \<Rightarrow> x) (gallery content s) v m" "m \<notin> set (best_matches k ms)"
      for v m b
    proof -
      have "m \<in> set ms" using abv(1) that(1) by blast
      then show "length (best_matches k ms) = k" "b \<in> set (best_matches k ms) \<Longrightarrow> fm_similarity m \<le> fm_similarity b"
        using best_matches_rest [OF _ that(2)] by blast+
    qed
  qed (use found l(1) s1(3) in simp_all)
qed

section \<open>Verification and identification\<close>

text \<open>A verification of an enrolled user, once the picture has a face.\<close>

definition verify_answer :: "settings \<Rightarrow> string \<Rightarrow> float64 \<Rightarrow> FaceQuality option \<Rightarrow> gval" where
  "verify_answer c i x q =
     GMap [(''user_id'', GString i), (''verified'', GBool (MATCH_THRESHOLD c \<le> x)), (''similarity'', GFloat (py_round x 4)),
       (''threshold'', GFloat (MATCH_THRESHOLD c)), (''quality'', optional quality_value q)]"

lemma similarity_data: "similarity_to e emb (gallery_data now b n m) = cosine_similarity e emb b"
proof -
  have "those (map (\<lambda>v. case v of GFloat x \<Rightarrow> Some x | _ \<Rightarrow> None) (map GFloat b)) = Some (map (\<lambda>x. x) b)"
    unfolding map_map by (rule those_map_Some) simp
  then show ?thesis by (simp add: similarity_to_def stored_embedding_def gallery_data_def)
qed

lemma verify_value:
  assumes "hash_laws (fe_hash e) content" "settled c s" "gallery_ok content s"
    and "gallery content s i = Some d" "redis_client s = Some Connected \<longrightarrow> isl (hs_get (fe_hash e) i (redis_data s)) = False"
    and "fetch_image e u = Inr img" "get_embedding e img True s = (Inr (emb, score, k, q), s1)"
    and "similarity_to e emb d = Inr x"
  shows "verify c e i u s = (Inr (verify_answer c i x q), s1)"
proof -
  obtain r s0 where load: "load_from_gallery c e i s = (r, s0)" by fastforce
  note lm = load_map [OF assms(1-3) load]
  have "r = Inr (Some d)"
  proof (cases r)
    case (Inl x)
    from lm(3) [OF this] assms(5) show ?thesis by auto
  next
    case (Inr y)
    from lm(2) [OF this] Inr assms(4) show ?thesis by simp
  qed
  moreover have "\<not> falsy d" using entry_not_falsy gallery_entry [OF assms(3,4)] by blast
  ultimately show ?thesis
    using load lm(1) assms(6-8)
    by (simp add: verify_def py_bind_def py_return_def py_lift_def download_image_def as_400_def verify_answer_def)
qed

text \<open>The similarity of the example: it rounds to the threshold 0.45 and is below it.\<close>

definition near_threshold :: float64 where
  "near_threshold = 1843 / 4096"

lemma near_threshold_f64: "f64_round near_threshold = near_threshold"
  by (rule f64_round_multiple [of _ 1843 "- 12"]) (simp_all add: near_threshold_def power_int_minus)

lemma near_threshold_below: "near_threshold < f64_round (45 / 100)"
proof -
  have "(2::rat) powi (- 1022) \<le> 2 powi (- 2)" by (rule power_int_increasing) simp_all
  then have "f64_round (45 / 100) = rnd (45 / 100)" by (intro f64_round_rnd) (simp add: power_int_minus)
  moreover have "45 / 100 * (1 - eps64) \<le> rnd (45 / 100)" by (rule f64.rd_lower) simp
  ultimately show ?thesis by (simp add: near_threshold_def eps64_def)
qed

lemma near_threshold_rounds: "py_round near_threshold 4 = f64_round (45 / 100)"
proof -
  have "rne (near_threshold * 10 ^ 4) = 4500" by (rule rne_near) (simp add: near_threshold_def abs_if)
  then show ?thesis by (simp add: py_round_def)
qed

lemma camera_fields [simp]:
  "fe_detect (camera x) p img = Inr [camera_face]" "fe_quality (camera x) f img = camera_quality"
  "fe_liveness (camera x) f img = (True, 1, [])" "fe_dot (camera x) a b = Some x" "fe_norm (camera x) a = 1"
  "fe_hash (camera x) = alist_hash" "fe_get (camera x) u = Response 200 [u] None" "fe_now (camera x) = ''now''"
  by (simp_all add: camera_def)

lemma camera_face_fields [simp]: "fc_embedding camera_face = [1]" "fc_det_score camera_face = 1"
  by (simp_all add: camera_face_def)

lemma ann_service_fields [simp]:
  "face_model ann_service = Some (FaceAnalysis True)" "redis_client ann_service = Some Connected"
  "redis_data ann_service = [(''ann'', py_dumps ann_data)]"
  by (simp_all add: ann_service_def empty_service_def)

lemma camera_similarity: "f64_round x = x \<Longrightarrow> similarity_to (camera x) [1] ann_data = Inr x"
  using one_f64 by (simp add: ann_data_def similarity_data cosine_similarity_def is_f64_def)

lemma camera_open: "open_image (fe_pil (camera x)) b = Inr b"
  by (simp add: open_image_def to_rgb_def camera_def)

lemma camera_image: "length u \<le> max_image \<Longrightarrow> fetch_image (camera x) u = Inr u"
  by (simp add: fetch_image_def camera_open)

lemma camera_model: "get_face_model e ann_service = (Inr (FaceAnalysis True), ann_service)"
  by (simp add: get_face_model_def)

lemma camera_detect: "detect (camera x) none p img s = (Inr [camera_face], s)"
  by (simp add: detect_def py_bind_def py_lift_def py_return_def)

lemma camera_embedding:
  "get_embedding (camera x) img True ann_service = (Inr ([1], 1, 1, Some camera_quality), ann_service)"
  by (simp add: get_embedding_def py_bind_def camera_model camera_detect get_best_face_def py_return_def)

lemma camera_gallery: "get_all_gallery camera_settings (camera x) ann_service = (Inr [(''ann'', ann_data)], ann_service)"
  by (simp add: get_all_gallery_def py_bind_def py_lift_def get_redis_def alist_hash_def stored_entry ann_entry)

text \<open>The picture of the example in base 64, as \<open>identify\<close> gets it.\<close>

lemma picture_read: "read_image (camera x) ''aW1n'' = Inr ''img''"
proof -
  have "b64decode ''aW1n'' = Inr ''img''" by code_simp
  moreover have "\<not> HasPrefix ''aW1n'' ''data:''" by code_simp
  moreover have "length ''img'' \<le> max_image" by (simp add: max_image_def)
  ultimately show ?thesis by (simp add: read_image_def camera_open)
qed

text \<open>The one match of the example.\<close>

lemma camera_matches:
  "gallery_matches (camera near_threshold) [1] t [(''ann'', ann_data)] =
     Inr (if t \<le> near_threshold then [match_of ''ann'' ann_data near_threshold] else [])"
  by (simp add: camera_similarity near_threshold_f64 match_of_def)

lemma display_threshold: "f64_round (f64_round (45 / 100) * f64_round (8 / 10)) \<le> near_threshold"
proof -
  have small: "(2::rat) powi (- 1022) \<le> 2 powi (- 2)" by (rule power_int_increasing) simp_all
  then have r: "f64_round q = rnd q" if "1 / 4 \<le> q" for q using that by (intro f64_round_rnd) (simp add: power_int_minus)
  have t: "near_threshold < f64_round (45 / 100)" by (rule near_threshold_below)
  have up: "rnd (45 / 100) \<le> 45 / 100 * (1 + eps64)" "rnd (8 / 10) \<le> 8 / 10 * (1 + eps64)"
    by (rule f64.rd_upper, simp)+
  have lo: "8 / 10 * (1 - eps64) \<le> rnd (8 / 10)" by (rule f64.rd_lower) simp
  let ?p = "rnd (45 / 100) * rnd (8 / 10)"
  have "?p \<le> (45 / 100 * (1 + eps64)) * (8 / 10 * (1 + eps64))"
    using up by (intro mult_mono) (simp_all add: f64.rd_nonneg eps64_def)
  then have p: "?p \<le> 37 / 100" by (simp add: eps64_def)
  have "near_threshold * (8 / 10 * (1 - eps64)) \<le> ?p"
    using t lo r [of "45 / 100"] by (intro mult_mono) (simp_all add: near_threshold_def eps64_def f64.rd_nonneg)
  then have "1 / 4 \<le> ?p" by (simp add: near_threshold_def eps64_def)
  then have "f64_round ?p = rnd ?p" by (rule r)
  also have "\<dots> \<le> 37 / 100 * (1 + eps64)" using p f64.rd_upper_le [of ?p "37 / 100"] \<open>1 / 4 \<le> ?p\<close> by simp
  also have "\<dots> \<le> near_threshold" by (simp add: near_threshold_def eps64_def)
  finally show ?thesis by (simp add: r)
qed

text \<open>
  C40. Identification and verification disagree. With the threshold 0.45, there is a picture that
  \<open>identify\<close> reports as identified, with an enrolled user as its best match, and for which \<open>verify\<close> denies that
  it is this user, and \<open>search\<close> finds nobody: one compares the similarity rounded to four decimal places
  with the threshold, the others the similarity itself.
\<close>

theorem identified_not_verified:
  "\<exists>c (e :: (bytes, (string \<times> bytes) list) face_env) s g v. MATCH_THRESHOLD c = f64_round (45 / 100)
     \<and> read_image e ''aW1n'' = Inr ''img'' \<and> fetch_image e ''img'' = Inr ''img''
     \<and> identify c e ''aW1n'' 3 s = (Inr g, s) \<and> dict_get g ''identified'' = Some (GBool True)
     \<and> Option.bind (dict_get g ''best_match'') (\<lambda>m. dict_get m ''user_id'') = Some (GString ''ann'')
     \<and> verify c e ''ann'' ''img'' s = (Inr v, s) \<and> dict_get v ''verified'' = Some (GBool False)
     \<and> (\<exists>n q. search c e ''img'' 3 None s = (Inr (search_answer [] n q), s))"
proof -
  let ?e = "camera near_threshold" and ?m = "match_of ''ann'' ann_data near_threshold"
  have img: "fetch_image ?e ''img'' = Inr ''img''" by (rule camera_image) (simp add: max_image_def)
  have c: "MATCH_THRESHOLD camera_settings = f64_round (45 / 100)" by (simp add: camera_settings_def)
  have id: "identified_match camera_settings [?m] = Some ?m"
    by (simp add: identified_match_def match_of_def c near_threshold_rounds)
  let ?g = "identify_answer [?m] (Some ?m) camera_quality (liveness_value (True, 1, []))"
  have best: "best_matches 3 [?m] = [?m]" by (simp add: best_matches_def)
  have identify: "identify camera_settings ?e ''aW1n'' 3 ann_service = (Inr ?g, ann_service)"
    by (simp add: identify_def py_bind_def py_lift_def py_return_def parse_base64_image_def as_400_def picture_read camera_model
        camera_detect get_best_face_def Let_def camera_gallery camera_matches [unfolded gallery_matches.simps] c display_threshold [simplified]
        camera_similarity near_threshold_f64 match_of_def [symmetric] best id)
  have verify: "verify camera_settings ?e ''ann'' ''img'' ann_service =
      (Inr (verify_answer camera_settings ''ann'' near_threshold (Some camera_quality)), ann_service)"
    by (rule verify_value [OF env_ok_parts(1) [OF camera_ok] ann_service_ok(1,2) _ _ img camera_embedding camera_similarity [OF near_threshold_f64]])
      (simp_all add: ann_service_ok(3) alist_hash_def)
  have search: "search camera_settings ?e ''img'' 3 None ann_service = (Inr (search_answer [] 1 (Some camera_quality)), ann_service)"
    using near_threshold_below
    by (simp add: search_def py_bind_def py_lift_def py_return_def download_image_def as_400_def img camera_embedding
        camera_gallery camera_similarity near_threshold_f64 c best_matches_def not_le [symmetric])
  show ?thesis
    using near_threshold_below identify verify search img
    by (intro exI [of _ camera_settings] exI [of _ ?e] exI [of _ ann_service] exI [of _ ?g]
          exI [of _ "verify_answer camera_settings ''ann'' near_threshold (Some camera_quality)"])
      (auto simp: c picture_read identify_answer_def verify_answer_def optional_def match_value_def match_of_def)
qed

theorem search_returns_best_witness:
  "\<exists>ms n q. search camera_settings (camera near_threshold) ''img'' 3 (Some 0) ann_service = (Inr (search_answer ms n q), ann_service)
     \<and> length ms \<le> 3 \<and> distinct (map fm_user ms)"
proof -
  have img: "fetch_image (camera near_threshold) ''img'' = Inr ''img''" by (rule camera_image) (simp add: max_image_def)
  have served: "search camera_settings (camera near_threshold) ''img'' 3 (Some 0) ann_service =
      (Inr (search_answer [match_of ''ann'' ann_data near_threshold] 1 (Some camera_quality)), ann_service)"
    by (simp add: search_def py_bind_def py_lift_def py_return_def download_image_def as_400_def img camera_embedding
        camera_gallery camera_similarity near_threshold_f64 best_matches_def match_of_def)
      (simp add: near_threshold_def)
  from search_returns_best [OF camera_ok ann_service_ok(1,2) served]
  obtain ms n q where "search_answer [match_of ''ann'' ann_data near_threshold] 1 (Some camera_quality) = search_answer ms n q"
    "length ms \<le> 3" "distinct (map fm_user ms)" by blast
  with served show ?thesis by metis
qed

end
