(* ===== verification/FaceRemote.thy ===== *)
theory FaceRemote
  imports FaceSearch Worker
begin

text \<open>
  The Go client of theory \<open>FaceClient\<close> against the face service of theory \<open>FaceService\<close>: the service
  behind FastAPI as a transport, and what the client receives from it. A user who was enrolled is verified
  through the client by the similarity of the pictures; the worker accepts a picture of anybody.
\<close>

section \<open>The service behind HTTP\<close>

text \<open>\<open>sh_read\<close>: FastAPI finds the route of a method and path and reads the body into the request of its
  handler, or answers itself.\<close>

record service_http =
  sh_web :: web
  sh_read :: "string \<Rightarrow> string \<Rightarrow> bytes \<Rightarrow> http_response + face_request"

definition service_serve ::
  "service_http \<Rightarrow> settings \<Rightarrow> ('i, 'r) face_env \<Rightarrow> string \<Rightarrow> http_request \<Rightarrow> 'r service \<Rightarrow> http_response \<times> 'r service" where
  "service_serve h c e path rq s =
     (case sh_read h (rq_method rq) path (rq_body rq) of
        Inl resp \<Rightarrow> (resp, s)
      | Inr q \<Rightarrow> (case handle c e q s of (r, s') \<Rightarrow> (respond (sh_web h) (outcome r), s')))"

definition service_transport ::
  "service_http \<Rightarrow> settings \<Rightarrow> ('i, 'r) face_env \<Rightarrow> string \<Rightarrow> 'r service \<Rightarrow> transport" where
  "service_transport h c e base s =
     \<lparr>newRequest = (\<lambda>_ _. None),
      http_Do = (\<lambda>rq. Inr (fst (service_serve h c e (drop (length base) (rq_url rq)) rq s)))\<rparr>"

text \<open>A JSON object with the members of a request is read as that request, and replies are JSON.\<close>

definition reads_requests :: "service_http \<Rightarrow> bool" where
  "reads_requests h \<longleftrightarrow> renders (web_render (sh_web h))
     \<and> (\<forall>body ms u. Decode body = Some (JObj ms) \<longrightarrow> distinct (map fst ms) \<longrightarrow> map_of ms ''image_url'' = Some (JStr u) \<longrightarrow>
          sh_read h ''POST'' ''/embed'' body = Inr (EmbedRequest u)
          \<and> (\<forall>i. map_of ms ''user_id'' = Some (JStr i) \<longrightarrow> sh_read h ''POST'' ''/verify'' body = Inr (VerifyRequest i u)))"

section \<open>Answers as the client decodes them\<close>

definition quality_ok :: "FaceQuality \<Rightarrow> bool" where
  "quality_ok q \<longleftrightarrow> list_all is_f64 [fq_Score q, fq_Blur q, fq_PoseYaw q, fq_PosePitch q, fq_PoseRoll q]
     \<and> in_i64 (fq_FaceSize q)"

lemma quality_sendable: "quality_ok q \<Longrightarrow> floats_ok (quality_value q) \<and> utf8_ok (quality_value q) \<and> depth (quality_value q) = 1"
  by (simp add: quality_value_def quality_ok_def ascii_to_utf8 ascii_def)

lemma quality_decoded:
  assumes "means (quality_value q) v" and "quality_ok q"
  shows "v \<noteq> JNull" and "decode_struct quality_fields v quality_zero = Some q"
  using assms
  by (auto simp: quality_value_def quality_ok_def means_iffs list_all2_Cons1 decode_struct_def quality_fields_def
      find_field_def store_float64_def store_int_def store_bool_def quality_zero_def)

lemma decode_struct_obj: "decode_struct fs (JObj ms) s = decode_members fs ms s"
  by (simp add: decode_struct_def)

lemma verify_sendable:
  assumes "quality_ok q" "to_utf8 i = i" "is_f64 (MATCH_THRESHOLD c)" "\<bar>x\<bar> \<le> 2 ^ 64"
  shows "sendable (verify_answer c i x (Some q))"
  using assms quality_sendable [OF assms(1)] py_round_is_f64_abs [OF assms(4), of 4]
  by (simp add: verify_answer_def sendable_def optional_def ascii_to_utf8 ascii_def)

lemma verify_decoded:
  assumes "means (verify_answer c i x (Some q)) v" and "quality_ok q"
  shows "decode_struct verify_fields v verify_zero = Some
    \<lparr>vr_UserID = i, vr_Verified = (MATCH_THRESHOLD c \<le> x), vr_Similarity = py_round x 4, vr_Threshold = MATCH_THRESHOLD c,
     vr_Quality = Some q\<rparr>"
proof -
  from assms(1) obtain t1 t2 w where v: "v = JObj [(''user_id'', JStr i), (''verified'', JBool (MATCH_THRESHOLD c \<le> x)),
      (''similarity'', JNum t1), (''threshold'', JNum t2), (''quality'', w)]"
    and t: "float64_text t1 = Some (py_round x 4)" "float64_text t2 = Some (MATCH_THRESHOLD c)" and w: "means (quality_value q) w"
    by (auto simp: verify_answer_def optional_def means_iffs list_all2_Cons1)
  then show ?thesis
    using quality_decoded [OF w assms(2)]
    by (simp add: decode_struct_obj verify_fields_def find_field_def store_string_def store_bool_def
        store_float64_def store_pointer_def verify_zero_def)
qed

text \<open>A call of the client: what the handler replies is what is decoded.\<close>

lemma post_json_served:
  assumes "renders (web_render (sh_web h))" "sh_read h ''POST'' path body = Inr q"
    and "handle c e q s = (Inr g, s')" "sendable g"
    and "\<And>v. means g v \<Longrightarrow> decode_struct fs v zero = Some out"
  shows "post_json (service_transport h c e base s) (base @ path) body fs zero = Inr out"
proof -
  obtain v where "Decode (web_render (sh_web h) g) = Some v" "means g v"
    using rendersD [OF assms(1,4)] by blast
  with assms show ?thesis
    by (simp add: post_json_def service_transport_def service_serve_def outcome_def respond_def answer_def)
qed

lemma verify_keys: "\<not> ''user_id'' \<le> ''image_url''" "''image_url'' \<le> ''user_id''"
  by code_simp+

lemma verify_body_read:
  assumes "reads_requests h" "to_utf8 i = i" "to_utf8 u = u"
  shows "sh_read h ''POST'' ''/verify'' (Marshal_map [(''user_id'', i), (''image_url'', u)]) = Inr (VerifyRequest i u)"
proof -
  have "to_utf8 ''user_id'' = ''user_id''" "to_utf8 ''image_url'' = ''image_url''"
    by (rule ascii_to_utf8, simp add: ascii_def)+
  then have "Decode (Marshal_map [(''user_id'', i), (''image_url'', u)]) =
      Some (JObj [(''image_url'', JStr u), (''user_id'', JStr i)])"
    using assms(2,3) by (simp add: Decode_Marshal_map verify_keys)
  with assms(1) show ?thesis unfolding reads_requests_def by force
qed

lemma embed_body_read:
  assumes "reads_requests h" "to_utf8 u = u"
  shows "sh_read h ''POST'' ''/embed'' (Marshal_map [(''image_url'', u)]) = Inr (EmbedRequest u)"
proof -
  have "to_utf8 ''image_url'' = ''image_url''" by (rule ascii_to_utf8) (simp add: ascii_def)
  then have "Decode (Marshal_map [(''image_url'', u)]) = Some (JObj [(''image_url'', JStr u)])"
    using assms(2) by (simp add: Decode_Marshal_map)
  with assms(1) show ?thesis unfolding reads_requests_def by force
qed

section \<open>Embeddings as the client decodes them\<close>

text \<open>A number that a \<open>float64\<close> holds and that is not too large is decoded into a \<open>float32\<close> as well.\<close>

lemma round_binary_abs:
  assumes "1 \<le> prec" "emin \<le> 0"
  shows "\<bar>round_binary prec emin q\<bar> \<le> 2 * \<bar>q\<bar> + 1"
proof (cases "q = 0")
  case False
  then have pos: "0 < \<bar>q\<bar>" by simp
  define u :: rat where "u = 2 powi max (expo \<bar>q\<bar> - (prec - 1)) emin"
  have u: "0 < u" by (simp add: u_def)
  have "(2::rat) powi (expo \<bar>q\<bar> - (prec - 1)) \<le> 2 powi expo \<bar>q\<bar>" using assms(1) by (intro power_int_increasing) simp_all
  then have "(2::rat) powi (expo \<bar>q\<bar> - (prec - 1)) \<le> \<bar>q\<bar>" using expo_bounds(1) [OF pos] by simp
  moreover have "(2::rat) powi emin \<le> 2 powi 0" using assms(2) by (intro power_int_increasing) simp_all
  ultimately have "u \<le> \<bar>q\<bar> + 1" using pos by (auto simp: u_def max_def)
  have "0 \<le> rne (\<bar>q\<bar> / u)" using rne_mono [of 0 "\<bar>q\<bar> / u"] pos u by (simp add: rne_def)
  define v where "v = of_int (rne (\<bar>q\<bar> / u)) * u"
  have "0 \<le> v" using u \<open>0 \<le> rne (\<bar>q\<bar> / u)\<close> by (simp add: v_def)
  have "v \<le> (\<bar>q\<bar> / u + 1) * u" unfolding v_def using u by (intro mult_right_mono rne_upper) simp
  also have "\<dots> = \<bar>q\<bar> + u" using u by (simp add: distrib_right)
  finally have "\<bar>v\<bar> \<le> 2 * \<bar>q\<bar> + 1" using \<open>0 \<le> v\<close> \<open>u \<le> \<bar>q\<bar> + 1\<close> by simp
  moreover have "round_binary prec emin q = v \<or> round_binary prec emin q = - v"
    using False by (simp add: round_binary_def Let_def u_def v_def)
  ultimately show ?thesis by auto
qed (simp add: round_binary_def)

lemma f64_round_large:
  assumes "2 ^ 66 < \<bar>q\<bar>"
  shows "2 ^ 65 < \<bar>f64_round q\<bar>"
proof -
  have pos: "2 ^ 65 < f64_round y" if y: "2 ^ 66 < y" for y
  proof -
    have "(2::rat) powi (- 1022) \<le> 2 powi 66" by (rule power_int_increasing) simp_all
    then have "f64_round y = rnd y" using y by (intro f64_round_rnd) simp
    moreover have "y * (1 - eps64) \<le> rnd y" using y by (intro f64.rd_lower) simp
    moreover have "2 ^ 66 * (1 - eps64) \<le> y * (1 - eps64)" using y by (intro mult_right_mono) (simp_all add: eps64_def)
    moreover have "(2::rat) ^ 65 < 2 ^ 66 * (1 - eps64)" by (simp add: eps64_def)
    ultimately show ?thesis by linarith
  qed
  show ?thesis
    using pos [of q] pos [of "- q"] assms by (cases "0 \<le> q") (auto simp: f64_round_minus abs_if)
qed

lemma float32_text_Some:
  assumes "float64_text t = Some x" "\<bar>x\<bar> \<le> 2 ^ 64"
  shows "float32_text t \<noteq> None"
proof -
  let ?v = "number_value t"
  from assms(1) have "f64_round ?v = x"
    by (auto simp: float64_text_def ParseFloat_def f64_round_def Let_def split: if_splits)
  with f64_round_large [of ?v] assms(2) have "\<bar>?v\<bar> \<le> 2 ^ 66" by (cases "2 ^ 66 < \<bar>?v\<bar>") auto
  with round_binary_abs [of 24 "- 149" ?v] have "\<bar>round_binary 24 (- 149) ?v\<bar> \<le> 2 * 2 ^ 66 + 1" by linarith
  then have "\<bar>round_binary 24 (- 149) ?v\<bar> < 2 ^ 128" by simp
  then show ?thesis by (simp add: float32_text_def ParseFloat_def Let_def)
qed

definition embed_answer :: "float64 list \<Rightarrow> float64 \<Rightarrow> int \<Rightarrow> FaceQuality \<Rightarrow> gval" where
  "embed_answer emb score n q =
     GMap [(''embedding'', GSlice (map GFloat emb)), (''score'', GFloat score), (''faces_detected'', GInt n),
       (''quality'', quality_value q)]"

lemma embed_value:
  assumes "fetch_image e u = Inr img" "get_embedding e img True s = (Inr (emb, score, n, Some q), s')"
  shows "embed e u s = (Inr (embed_answer emb score n q), s')"
  using assms
  by (simp add: embed_def py_bind_def py_return_def download_image_def as_400_def embed_answer_def optional_def)

lemma embed_sendable:
  assumes "list_all is_f64 emb" "is_f64 score" "quality_ok q"
  shows "sendable (embed_answer emb score n q)"
proof -
  have "depth (GSlice (map GFloat emb)) = 1" by (rule depth_leaves) auto
  then show ?thesis
    using assms quality_sendable [OF assms(3)]
    by (simp add: embed_answer_def sendable_def list_all_iff ascii_to_utf8 ascii_def)
qed

lemma embedding_decoded:
  assumes "list_all2 means (map GFloat emb) vs" "list_all (\<lambda>x. \<bar>x\<bar> \<le> 2 ^ 64) emb"
  shows "\<exists>xs. decode_elems store_float32 0 vs = Some xs \<and> length xs = length emb"
  using assms
proof (induction emb arbitrary: vs)
  case (Cons x emb)
  from Cons.prems(1) obtain t ws where vs: "vs = JNum t # ws" "float64_text t = Some x" "list_all2 means (map GFloat emb) ws"
    by (auto simp: list_all2_Cons1 means_iffs)
  from float32_text_Some [OF vs(2)] Cons.prems(2) obtain y where "float32_text t = Some y" by auto
  moreover from Cons.IH [OF vs(3)] Cons.prems(2) obtain xs where "decode_elems store_float32 0 ws = Some xs" "length xs = length emb"
    by auto
  ultimately have "decode_elems store_float32 0 vs = Some (y # xs)" "length (y # xs) = length (x # emb)"
    using vs(1) by (simp_all add: store_float32_def)
  then show ?case by blast
qed simp

lemma embed_decoded:
  assumes "means (embed_answer emb score n q) v" "quality_ok q" "in_i64 n" "list_all (\<lambda>x. \<bar>x\<bar> \<le> 2 ^ 64) emb"
  shows "\<exists>xs. length xs = length emb \<and> decode_struct embed_fields v embed_zero = Some
    \<lparr>er_Embedding = xs, er_Score = score, er_FacesDetected = n, er_Quality = Some q\<rparr>"
proof -
  from assms(1,3) obtain vs t1 t2 w where v: "v = JObj [(''embedding'', JArr vs), (''score'', JNum t1), (''faces_detected'', JNum t2), (''quality'', w)]"
    and vs: "list_all2 means (map GFloat emb) vs" and t: "float64_text t1 = Some score" "Atoi t2 = (n, True)"
    and w: "means (quality_value q) w"
    by (auto simp: embed_answer_def means_iffs list_all2_Cons1)
  from embedding_decoded [OF vs assms(4)] obtain xs where xs: "decode_elems store_float32 0 vs = Some xs" "length xs = length emb" by blast
  with v t quality_decoded [OF w assms(2)] show ?thesis
    by (simp add: decode_struct_obj embed_fields_def find_field_def store_slice_def store_float64_def store_int_def
        store_pointer_def embed_zero_def)
qed

section \<open>Properties\<close>

text \<open>What the service finds in a picture that it can load and that shows a face.\<close>

definition sees ::
  "('r \<Rightarrow> string \<rightharpoonup> bytes) \<Rightarrow> ('i, 'r) face_env \<Rightarrow> 'r service \<Rightarrow> string \<Rightarrow> float64 list \<times> float64 \<times> int \<times> FaceQuality \<Rightarrow> bool" where
  "sees content e s u x \<longleftrightarrow> env_ok content e
     \<and> (case x of (emb, score, n, q) \<Rightarrow> quality_ok q \<and> is_f64 score \<and> in_i64 n
          \<and> (\<exists>img s'. fetch_image e u = Inr img \<and> get_embedding e img True s = (Inr (emb, score, n, Some q), s')))"

text \<open>
  C7. A user whose enrollment the face service reported as successful is verified by the Go client from
  then on: after any requests that neither enroll nor remove this user, a picture with a face is answered
  with the similarity of its face to the face of the enrolled picture, rounded to four places, and with
  verified exactly if that similarity reaches the threshold.
\<close>

theorem enrolled_user_verified:
  fixes e :: "('i, 'r) face_env"
  assumes http: "reads_requests h" "is_f64 (MATCH_THRESHOLD c)" "to_utf8 i = i"
    and enrolled: "env_ok content e" "request_ok (EnrollRequest i u n m)" "gallery_ok content s"
      "handle c e (EnrollRequest i u n m) s = (Inr g, s1)" "dict_get g ''success'' = Some (GBool True)"
    and between: "runs (service_step content c) s1 es s2" "\<forall>ev \<in> set es. i \<notin> touched (fst (snd ev))"
  shows "\<exists>img md emb score k q. fetch_image e u = Inr img \<and> embedding_of e md img (emb, score, k, q)
    \<and> (\<forall>cl (e' :: ('i, 'r) face_env) u' emb' score' k' q' x. \<not> Skip cl \<longrightarrow> to_utf8 u' = u' \<longrightarrow> sees content e' s2 u' (emb', score', k', q')
         \<longrightarrow> \<not> isl (hs_get (fe_hash e') i (redis_data s2)) \<longrightarrow> cosine_similarity e' emb' emb = Inr x \<longrightarrow> \<bar>x\<bar> \<le> 2 ^ 64
         \<longrightarrow> Verify cl (service_transport h c e' (BaseURL cl) s2) i u' =
           Inr \<lparr>vr_UserID = i, vr_Verified = (MATCH_THRESHOLD c \<le> x), vr_Similarity = py_round x 4,
                vr_Threshold = MATCH_THRESHOLD c, vr_Quality = Some q'\<rparr>)"
proof -
  from enrolled(4) have "enroll c e i u n m s = (Inr g, s1)" by (simp add: handle_def)
  from enroll_stores [OF enrolled(1-3) this enrolled(5)] obtain img emb score k q md where
    img: "fetch_image e u = Inr img" "embedding_of e md img (emb, score, k, q)"
    and s1: "settled c s1" "gallery_ok content s1" "gallery content s1 i = Some (gallery_data (fe_now e) emb n m)" by blast
  from runs_only [OF between(1) s1(1,2) between(2)] s1(3)
  have s2: "settled c s2" "gallery_ok content s2" "gallery content s2 i = Some (gallery_data (fe_now e) emb n m)" by simp_all
  have "Verify cl (service_transport h c e' (BaseURL cl) s2) i u' =
      Inr \<lparr>vr_UserID = i, vr_Verified = (MATCH_THRESHOLD c \<le> x), vr_Similarity = py_round x 4,
        vr_Threshold = MATCH_THRESHOLD c, vr_Quality = Some q'\<rparr>"
    if "\<not> Skip cl" and u': "to_utf8 u' = u'" and seen: "sees content e' s2 u' (emb', score', k', q')"
      and get: "\<not> isl (hs_get (fe_hash e') i (redis_data s2))" and x: "cosine_similarity e' emb' emb = Inr x" "\<bar>x\<bar> \<le> 2 ^ 64" for cl u' emb' score' k' q' x
      and e' :: "('i, 'r) face_env"
  proof -
    from seen obtain img' s3 where e': "env_ok content e'" "quality_ok q'" "fetch_image e' u' = Inr img'"
      "get_embedding e' img' True s2 = (Inr (emb', score', k', Some q'), s3)"
      by (auto simp: sees_def)
    have "handle c e' (VerifyRequest i u') s2 = (Inr (verify_answer c i x (Some q')), s3)"
      using verify_value [OF env_ok_parts(1) [OF e'(1)] s2 _ e'(3,4), of x] get x(1) by (simp add: handle_def similarity_data)
    from post_json_served [OF _ verify_body_read [OF http(1,3) u'] this verify_sendable [OF e'(2) http(3,2) x(2)] verify_decoded [OF _ e'(2)]]
    show ?thesis using http(1) that(1) by (simp add: Verify_def reads_requests_def)
  qed
  with img show ?thesis by blast
qed

text \<open>For the witnesses: FastAPI as far as the two requests need it.\<close>

definition plain_http :: service_http where
  "plain_http =
     \<lparr>sh_web = \<lparr>web_render = write_value, web_reason = (\<lambda>_. [])\<rparr>,
      sh_read = (\<lambda>method path body.
        case Decode body of
          Some (JObj ms) \<Rightarrow>
            (case map_of ms ''image_url'' of
               Some (JStr u) \<Rightarrow>
                 (case map_of ms ''user_id'' of
                    Some (JStr i) \<Rightarrow> if path = ''/verify'' then Inr (VerifyRequest i u) else Inr (EmbedRequest u)
                  | _ \<Rightarrow> Inr (EmbedRequest u))
             | _ \<Rightarrow> Inl \<lparr>StatusCode = 422, rs_Status = ''422'', rs_Body = []\<rparr>)
        | _ \<Rightarrow> Inl \<lparr>StatusCode = 422, rs_Status = ''422'', rs_Body = []\<rparr>)\<rparr>"

lemma plain_http_reads: "reads_requests plain_http"
  by (auto simp: reads_requests_def plain_http_def renders_write_value split: option.split json.split)

definition face_client :: FaceClient where
  "face_client = NewFaceClient ''http://face'' False"

lemma camera_quality_ok: "quality_ok camera_quality"
  using one_f64
  by (simp add: quality_ok_def camera_quality_def quality_zero_def is_f64_def in_i64_def min_i64_def max_i64_def f64_round_def
      round_binary_def)

lemma camera_sees:
  assumes "length u \<le> max_image"
  shows "sees map_of (camera x) ann_service u ([1], 1, 1, camera_quality)"
  using camera_image [OF assms] camera_embedding [of x u] one_f64 camera_quality_ok camera_ok
  by (auto simp: sees_def in_i64_def min_i64_def max_i64_def)

lemma camera_enrolls:
  "handle camera_settings (camera 1) (EnrollRequest ''ann'' ''img'' None None) empty_service =
     (Inr (enroll_answer ''ann'' True (Some camera_quality) ''Face enrolled successfully''), ann_service)"
proof -
  have img: "fetch_image (camera 1) ''img'' = Inr ''img''" by (rule camera_image) (simp add: max_image_def)
  have emb: "get_embedding (camera 1) ''img'' True empty_service = (Inr ([1], 1, 1, Some camera_quality), empty_service)"
    by (simp add: get_embedding_def py_bind_def get_face_model_def empty_service_def detect_def py_lift_def get_best_face_def
        py_return_def)
  have save: "save_to_gallery camera_settings (camera 1) ''ann'' ann_data empty_service = (Inr (), ann_service)"
    by (simp add: save_to_gallery_def py_bind_def get_redis_def alist_hash_def empty_service_def ann_service_def)
  have good: "too_low camera_settings (Some camera_quality) = None"
    by (simp add: too_low_def camera_settings_def camera_quality_def)
  show ?thesis
    by (simp add: handle_def enroll_def py_bind_def py_try_def py_return_def download_image_def as_400_def img emb good
        save ann_data_def [symmetric])
qed

theorem enrolled_user_verified_witness:
  "Verify face_client (service_transport plain_http camera_settings (camera 1) ''http://face'' ann_service) ''ann'' ''img'' =
     Inr \<lparr>vr_UserID = ''ann'', vr_Verified = True, vr_Similarity = 1, vr_Threshold = f64_round (45 / 100),
          vr_Quality = Some camera_quality\<rparr>"
proof -
  have t: "MATCH_THRESHOLD camera_settings = f64_round (45 / 100)" by (simp add: camera_settings_def)
  have one: "f64_round 1 = 1" using one_f64 by (simp add: is_f64_def)
  have "(2::rat) powi (- 1022) \<le> 2 powi (- 2)" by (rule power_int_increasing) simp_all
  then have "f64_round (45 / 100) = rnd (45 / 100)" "f64_round 1 = rnd 1" by (simp_all add: f64_round_rnd power_int_minus)
  with f64.rd_mono [of "45 / 100" 1] one have ge: "f64_round (45 / 100) \<le> 1" by simp
  have f64: "is_f64 (MATCH_THRESHOLD camera_settings)"
    using py_round_is_f64_abs [of near_threshold 4] unfolding t near_threshold_rounds by (simp add: near_threshold_def)
  have ok: "to_utf8 ''ann'' = ''ann''" "to_utf8 ''img'' = ''img''"
    "request_ok (EnrollRequest ''ann'' ''img'' None None)" "gallery_ok map_of empty_service"
    by (simp_all add: ascii_to_utf8 ascii_def request_ok_def gallery_ok_def texts_ok_def empty_service_def gallery_def)
  have success: "dict_get (enroll_answer ''ann'' True (Some camera_quality) ''Face enrolled successfully'') ''success'' = Some (GBool True)"
    by (simp add: enroll_answer_def)
  have "sees map_of (camera 1) ann_service ''img'' ([1], 1, 1, camera_quality)"
    by (rule camera_sees) (simp add: max_image_def)
  moreover have "cosine_similarity (camera 1) [1] emb = Inr 1" for emb using one by (simp add: cosine_similarity_def)
  moreover have "\<not> Skip face_client" "\<not> isl (hs_get (fe_hash (camera 1)) ''ann'' (redis_data ann_service))" "\<bar>1 :: rat\<bar> \<le> 2 ^ 64"
    by (simp_all add: face_client_def NewFaceClient_def alist_hash_def)
  ultimately have "Verify face_client (service_transport plain_http camera_settings (camera 1) (BaseURL face_client) ann_service) ''ann'' ''img'' =
      Inr \<lparr>vr_UserID = ''ann'', vr_Verified = (MATCH_THRESHOLD camera_settings \<le> 1), vr_Similarity = py_round 1 4,
        vr_Threshold = MATCH_THRESHOLD camera_settings, vr_Quality = Some camera_quality\<rparr>"
    using enrolled_user_verified [OF plain_http_reads f64 ok(1) camera_ok ok(3,4) camera_enrolls success runs_nil] ok(2) by fastforce
  then show ?thesis
    using t ge one by (simp add: face_client_def NewFaceClient_def py_round_def rne_def)
qed

text \<open>
  C9. The worker accepts a picture of anybody: whatever faces are enrolled and whichever user the event is
  for, an event whose picture shows a face becomes processed, with the confidence of the detection of that
  face as its match score, and no other event changes.
\<close>

theorem any_face_is_processed:
  assumes "reads_requests h" "wf_db d" "healthy uuid w" "names_event uuid msg k" "events d k = Some evt"
    and "ImageURL evt \<noteq> []" "to_utf8 (ImageURL evt) = ImageURL evt" "\<not> Skip face"
    and "w_face w = service_transport h c e (BaseURL face) s"
    and "sees content e s (ImageURL evt) (emb, score, n, q)" "emb \<noteq> []" "list_all (\<lambda>x. \<bar>x\<bar> \<le> 2 ^ 64) emb"
  shows "events (process_message face w msg d) =
    (events d)(k \<mapsto> evt\<lparr>Status := ''processed'', MatchScore := Some score\<rparr>)"
proof -
  let ?u = "ImageURL evt"
  from assms(10) obtain img s' where e: "env_ok content e" "quality_ok q" "is_f64 score" "in_i64 n"
    and img: "fetch_image e ?u = Inr img" "get_embedding e img True s = (Inr (emb, score, n, Some q), s')"
    by (auto simp: sees_def)
  have handled: "handle c e (EmbedRequest ?u) s = (Inr (embed_answer emb score n q), s')"
    using embed_value [OF img] by (simp add: handle_def)
  have "list_all is_f64 emb" using get_embedding_value [OF img(2)] embedding_f64 [OF e(1)] by blast
  then have sendable: "sendable (embed_answer emb score n q)" by (rule embed_sendable [OF _ e(3,2)])
  obtain v where v: "Decode (web_render (sh_web h) (embed_answer emb score n q)) = Some v" "means (embed_answer emb score n q) v"
    using rendersD [OF _ sendable, of "web_render (sh_web h)"] assms(1) unfolding reads_requests_def by blast
  from embed_decoded [OF v(2) e(2,4) assms(12)] obtain xs where xs: "length xs = length emb"
    "decode_struct embed_fields v embed_zero = Some \<lparr>er_Embedding = xs, er_Score = score, er_FacesDetected = n, er_Quality = Some q\<rparr>"
    by blast
  have "post_json (w_face w) (BaseURL face @ ''/embed'') (Marshal_map [(''image_url'', ?u)]) embed_fields embed_zero =
      Inr \<lparr>er_Embedding = xs, er_Score = score, er_FacesDetected = n, er_Quality = Some q\<rparr>"
    using embed_body_read [OF assms(1,7)] handled v xs(2) assms(9)
    by (simp add: post_json_def service_transport_def service_serve_def outcome_def respond_def answer_def)
  then have "verdict face (w_face w) evt = (''processed'', Some score)"
    using assms(6,8,11) xs(1) by (auto simp: verdict_def EmbedWithScore_def)
  moreover have "names_event uuid msg l \<longleftrightarrow> l = k" for l using assms(4) by (auto simp: names_event_def)
  ultimately show ?thesis
    using assms(5) by (auto simp: spec_process_refines [OF assms(2,3)] spec_process_def with_status_def fun_eq_iff)
qed

definition photo_event :: Event where
  "photo_event = blank_event\<lparr>ImageURL := ''img''\<rparr>"

definition photo_db :: db where
  "photo_db = snd (InsertEvent (plain_pg 5000) ''u1'' 5999 gate_db photo_event)"

lemma insert_photo_event:
  "InsertEvent (plain_pg 5000) ''u1'' 5999 gate_db photo_event =
     (Inr (photo_event\<lparr>ID := ''u1'', When := 5999, Status := ''pending'', CreatedAt := 5000\<rparr>), photo_db)"
  by (simp add: photo_db_def photo_event_def InsertEvent_def insert_stmt_def Let_def complete_event_def blank_event_def
    gate_db_eq registered_def empty_db_def)

lemma photo_event_lookup:
  "events photo_db ''u1'' = Some (photo_event\<lparr>ID := ''u1'', When := 5000, Status := ''pending'', CreatedAt := 5000\<rparr>)"
proof -
  define evt where "evt = photo_event\<lparr>ID := ''u1'', When := 5999, Status := ''pending'', CreatedAt := 5000\<rparr>"
  from insert_photo_event [folded evt_def] obtain u where
    "pg_uuid_in (plain_pg 5000) (ID evt) = Some u" "events photo_db = (events gate_db)(u \<mapsto> evt\<lparr>ID := u, When := pg_time (When evt)\<rparr>)"
    by (rule events_InsertEvent)
  then show ?thesis by (simp add: pg_time_def evt_def photo_event_def blank_event_def)
qed

theorem any_face_is_processed_witness:
  "events (process_message face_client
       (plain_work\<lparr>w_face := service_transport plain_http camera_settings (camera 1) ''http://face'' ann_service\<rparr>)
       (checkin_msg ''u1'') photo_db) ''u1'' =
     Some (photo_event\<lparr>ID := ''u1'', When := 5000, Status := ''processed'', CreatedAt := 5000, MatchScore := Some 1\<rparr>)"
proof -
  let ?w = "plain_work\<lparr>w_face := service_transport plain_http camera_settings (camera 1) ''http://face'' ann_service\<rparr>"
  have w: "healthy Some ?w" using plain_work_healthy by (simp add: healthy_def)
  have named: "names_event Some (checkin_msg ''u1'') ''u1''" by (simp add: names_event_def checkin_msg_def)
  have seen: "sees map_of (camera 1) ann_service ''img'' ([1], 1, 1, camera_quality)"
    by (rule camera_sees) (simp add: max_image_def)
  have "to_utf8 ''img'' = ''img''" by (simp add: ascii_to_utf8 ascii_def)
  with any_face_is_processed [OF plain_http_reads wf_InsertEvent [OF wf_gate_db insert_photo_event] w named photo_event_lookup,
      of face_client camera_settings "camera 1" ann_service map_of "[1]" 1 1 camera_quality] seen
  show ?thesis by (simp add: photo_event_def face_client_def NewFaceClient_def)
qed

end
