(* ===== verification/Spec2Isabelle.thy ===== *)
theory Spec2Isabelle
  imports HttpApi SchoolFaces FaceRemote
begin

text \<open>
  GoAttend is an attendance service in Go. This development models its backend code as definitions of
  HOL and proves what makes it correct. Names of definitions are those of the source where Isabelle
  allows it. Paths are relative to \<open>src/\<close>.

  \<^bold>\<open>The program.\<close> Devices register at an HTTP API (\<open>cmd/api\<close>), get a pair of tokens
  (\<open>internal/auth\<close>), and post check-ins. The API is guarded by a rate limiter
  (\<open>internal/httpmiddleware\<close>), stores each check-in in Postgres unless the same user was seen at the
  same device within five minutes (\<open>internal/attendance\<close>), and publishes its identifier into a queue
  (\<open>internal/queue\<close>). A worker process (\<open>cmd/worker\<close>) takes the identifiers, sends the image of the
  event to a face service (\<open>internal/faceclient\<close>), and stores the outcome. Images can be uploaded to
  Cloudinary (\<open>internal/cloudinary\<close>). Both processes are configured by the environment
  (\<open>internal/config\<close>, \<open>internal/store\<close>). The face service is a Python program (\<open>face-service/main.py\<close>)
  that keeps a gallery of faces in Redis or in memory. A second backend, \<open>newGoAttend/backend\<close>, registers
  students in SQLite and marks their attendance by face recognition, with a face service of its own
  (\<open>newGoAttend/face-service/main.py\<close>) that keeps pictures in a folder.

  \<^bold>\<open>Conventions.\<close> A Go string and a byte slice are lists of characters, one per byte. An \<open>int\<close> and a
  \<open>Duration\<close> are integers, wrapped by \<open>i64\<close> where a sum can leave 64 bits; an instant is the number of
  nanoseconds since 1970; a \<open>float64\<close> is a rational with every operation rounded by \<open>rnd\<close> (nearest, ties
  to even). A struct is a record. An error is a value of \<open>error\<close>, a fallible function returns
  \<open>error + 'a\<close>, and a method that changes state takes and returns it. A table is the list of its rows.
  Code that is not in the repository is an argument: the Postgres and SQLite servers with their drivers
  (\<open>pg\<close>, \<open>sqlite\<close>: clock, identifiers, scan orders, and a fault that may hit a statement before or after
  it was executed), the Redis server, the JWT library, gin (matching of routes, binding of bodies, query
  and client address), the HTTP services (\<open>transport\<close>), the order in which Go visits a map, and the
  clock; for the Python programs FastAPI, DeepFace, InsightFace, numpy, PIL, \<open>requests\<close> and the file system
  (\<open>web\<close>, \<open>face_app\<close>, \<open>face_env\<close>). What is relied on is a named predicate of documented behaviour
  (\<open>faithful_pg\<close>, \<open>redis_lists\<close>, \<open>jwt_laws\<close>, \<open>gin_laws\<close>, \<open>lower_table\<close>, \<open>renders\<close>, \<open>face_laws\<close>,
  \<open>hash_laws\<close>, \<open>env_ok\<close>), with an instance in the witnesses. A Python function that can raise takes the
  state and returns a value or an exception with the new state (type \<open>py\<close>).

  \<^bold>\<open>Theories of the language and its library.\<close>
  \<^item> \<open>Prelude\<close>: results, rows found and updated by key, \<open>ORDER BY\<close>, runs of a step relation and the
    locale \<open>invariant_system\<close>, which every component with steps interprets.
  \<^item> \<open>Utf8\<close>: runes of a string and back, for the conversions \<open>[]rune(s)\<close> and \<open>string(rs)\<close>.
  \<^item> \<open>Float64\<close>: rounding to binary precision; the locale \<open>rounding\<close> bounds the error of composed
    operations.
  \<^item> \<open>GoLib\<close>: float and integer conversions, durations, \<open>strconv\<close>, \<open>fmt.Sscanf\<close>, \<open>strings\<close>.
  \<^item> \<open>Json\<close>: the reader, the decoder into structs and the writer of \<open>encoding/json\<close>. The reader has fuel;
    twice the length of the text plus one is enough (\<open>parse_fuel\<close>), so \<open>Decode\<close> is the total function.
  \<^item> \<open>FloatText\<close>, \<open>JsonEncode\<close>: the shortest decimal of a \<open>float64\<close> and \<open>json.Marshal\<close> of nested values;
    what is written reads back as the same value (\<open>float64_text_float_text\<close>, \<open>Decode_encode_value\<close>).
  \<^item> \<open>FastApi\<close>, \<open>PyJson\<close>: the answer FastAPI makes of a handler's outcome, Python's \<open>round\<close>,
    \<open>json.dumps\<close> and \<open>json.loads\<close>; what is dumped is loaded as the same value (\<open>py_loads_dumps\<close>).
  \<^item> \<open>Sha1\<close>, \<open>GoHttp\<close>, \<open>Url\<close>: \<open>crypto/sha1\<close> on 32-bit words, requests and multipart forms, \<open>url.Parse\<close>.

  \<^bold>\<open>Theories of the program.\<close>
  \<^item> \<open>RateLimit\<close> (\<open>ratelimit.go\<close>): \<open>SimpleTokenBucket\<close>, \<open>allow\<close>, the middleware. Admitted requests are
    bounded by capacity and elapsed time, up to the four roundings of a refill; clients do not influence
    each other; a client that waited a minute is admitted.
  \<^item> \<open>MsgQueue\<close> (\<open>queue.go\<close>): messages and their text; the channel queue as a step relation with its
    goroutine; the Redis queue against a server relation. Both are first in, first out without loss (locale
    \<open>fifo\<close>); exactly which messages survive the text form; when the consumers return.
  \<^item> \<open>Repository\<close> (\<open>attendance/repo.go\<close>, \<open>migrations/\<close>): every statement over the tables. The constraints
    are kept under all faults; what is read after each write; pages of a listing. The locale
    \<open>event_store\<close> is what the worker relies on.
  \<^item> \<open>AttendanceService\<close> (\<open>attendance/service.go\<close>): \<open>CheckIn\<close> as one call and, split at its two statements,
    as \<open>svc_step\<close> with other requests in between. Sequential check-ins are spaced by the window;
    acknowledged ones stay stored under every interleaving; concurrent ones can be stored twice.
  \<^item> \<open>JwtAuth\<close> (\<open>auth/jwt.go\<close>, \<open>auth/middleware.go\<close>): what an accepted token proves, and until when
    issued tokens are accepted.
  \<^item> \<open>FaceClient\<close> (\<open>faceclient/client.go\<close>): requests and answers of the face service.
  \<^item> \<open>Cloudinary\<close> (\<open>cloudinary/client.go\<close>): signed uploads.
  \<^item> \<open>Config\<close>, \<open>Store\<close> (\<open>config/config.go\<close>, \<open>store/*.go\<close>): the environment and the connections.
  \<^item> \<open>Worker\<close> (\<open>cmd/worker/main.go\<close>): one message, the loop, the start. The loop refines a map of events.
  \<^item> \<open>HttpApi\<close> (\<open>cmd/api/main.go\<close>): start, middleware in its order, routes, one definition per handler.
    Tokens guard the protected routes; accepted check-ins are stored and published; a registered device
    can check in; the state invariants over all requests.
  \<^item> \<open>SchoolStore\<close>, \<open>SchoolClients\<close>, \<open>SchoolApi\<close> (\<open>newGoAttend/backend\<close>): tables, clients, handlers and
    routes of the second backend.
  \<^item> \<open>FaceFolder\<close>, \<open>SchoolFaces\<close> (\<open>newGoAttend/face-service/main.py\<close>): registration and search over the
    folder of pictures, and both programs together with calls that get lost. Every picture is of a stored
    student; a student whose face was registered can log in.
  \<^item> \<open>FaceService\<close> (\<open>face-service/main.py\<close>): the lazily opened model and Redis client, images, the gallery,
    and every endpoint. \<open>FaceGallery\<close>: the gallery is a map in Redis and in memory alike, changed by a request
    only at the user it enrolls or removes. \<open>FaceSearch\<close>: a search returns the best matches; identification
    and verification can disagree at the threshold. \<open>FaceRemote\<close>: the Go client and the worker with this
    service behind them. An enrolled user is verified from then on; the worker processes a picture of any face.
  \<^item> This theory: the way of a check-in through API, Redis and worker.

  \<^bold>\<open>Bounds.\<close> The rate limiter is proved for capacities up to \<open>2 ^ 62\<close> and rates below \<open>2 ^ 31\<close> a minute
  (\<open>sane\<close>), where no conversion leaves 64 bits; the JSON reader has the depth limit of the library.

  \<^bold>\<open>Not modelled.\<close> Listening, graceful shutdown, signals and log lines; the metrics handler and static
  files, which gin and Prometheus answer; the rendering of replies to JSON, which are kept as values;
  the reading of an incoming multipart form, which gin hands over; the texts of some library errors, where
  the program only passes them on. Of the face service, the measures of \<open>calculate_blur\<close>,
  \<open>assess_face_quality\<close> and \<open>check_liveness\<close> are fields of \<open>face_env\<close>: they are arithmetic on numpy arrays and
  scalars whose precision depends on the version of numpy; floats that are not finite do not occur. The
  web pages run in a browser, and the deployment files, the OpenAPI document and the protocol buffer are not code.
\<close>

section \<open>From the check-in to its outcome\<close>

text \<open>The identifiers the server stores are canonical: text that it reads as itself.\<close>

definition canonical_ids :: "(string \<Rightarrow> string option) \<Rightarrow> db \<Rightarrow> bool" where
  "canonical_ids uuid d \<longleftrightarrow>
     (\<forall>r \<in> set (attendance_events d). valid_utf8 (e_id r) \<and> uuid (e_id r) = Some (e_id r))"

lemma stored_lookup:
  assumes "wf_db d" and "stored d evt"
  shows "\<exists>evt'. events d (ID evt) = Some evt' \<and> UserID evt' = UserID evt \<and> DeviceID evt' = DeviceID evt"
proof -
  from assms(2) obtain r where r: "r \<in> set (attendance_events d)" "e_id r = ID evt" "e_user_id r = UserID evt"
    "e_device_id r = DeviceID evt" by (auto simp: stored_def)
  moreover have "row_find e_id (e_id r) (attendance_events d) = Some r"
    using assms(1) r(1) by (intro row_find_unique) (simp_all add: wf_db_def)
  ultimately show ?thesis by (auto simp: events_def)
qed

lemma checkin_clean: "valid_utf8 k \<Longrightarrow> clean \<lparr>Type = ''checkin'', Body = k\<rparr>"
  by (simp add: clean_def valid_utf8_ascii ascii_def)

text \<open>What is published into Redis and has left it again was handed to the worker.\<close>

lemma published_delivered:
  assumes "redis_lists srv content" and "srv r (publish_cmd q m) Pushed r1" and "clean m"
    and "runs (redis_step srv q) r1 es r'" and "\<forall>m \<in> set (concat (map sent_by es)). clean m"
    and "redis_pending content q r' = []"
  shows "m \<in> set (concat (map got_by es))"
proof -
  have "redis_step srv q r (Published m) r1"
    using assms(2) by (rule redis_publish) (simp add: publish_err_def)
  then have "runs (redis_step srv q) r (Published m # es) r'"
    using assms(4) by (rule runs_Cons [of "redis_step srv q"])
  from redis_conserve_runs [OF assms(1) this] assms(3,5,6)
  have "redis_pending content q r @ m # concat (map sent_by es) = concat (map got_by es)" by simp
  then show ?thesis by (metis in_set_conv_decomp)
qed


text \<open>The check-in of the witnesses, over a Redis server that is the lists themselves.\<close>

definition push_list :: "message \<Rightarrow> (string \<Rightarrow> string list) \<Rightarrow> err \<times> (string \<Rightarrow> string list)" where
  "push_list m r = (None, r(''attendance:checkins'' := serialize m # r ''attendance:checkins''))"

definition stored_db :: db where
  "stored_db = registered_db\<lparr>attendance_events := [ann_row ''u1'' 1000000000000]\<rparr>"

definition one_message :: "string \<Rightarrow> string list" where
  "one_message = (\<lambda>_. [])(''attendance:checkins'' := [serialize (checkin_msg ''u1'')])"

lemma gate_checkin_result:
  "CheckIn (NewService (5 * Minute)) (at_gate 1000000000000 ''u1'') registered_db ''ann'' ''gate'' [] [] =
     (Inr ((new_event 1000000000000 ''ann'' ''gate'' [] [])\<lparr>ID := ''u1'', CreatedAt := 1000000000000\<rparr>), stored_db)"
  by (simp add: CheckIn_def at_gate_def RecentEvent_def recent_rows_def registered_db_def stored_db_def gate_db_eq
    empty_db_def order_desc_def InsertEvent_def insert_stmt_def registered_def complete_event_def new_event_def Let_def
    zero_time_def row_of_event_def ann_row_def pg_time_def)

lemma gate_checkin_state:
  fixes resp st'
  assumes "serve gate_libs gate_server (gate_env_with push_list) chk_request (registered_api_with (\<lambda>_. [])) = (resp, st')"
  shows "status resp = 202 \<and> api_db st' = stored_db \<and> api_queue st' = one_message"
proof -
  have code: "status resp = 202" using gate_checkin_served [of push_list "\<lambda>_. []"] assms by simp
  then have "api_queue st' \<noteq> api_queue (registered_api_with (\<lambda>_. []))
      \<or> route_of chk_request = Some CheckinRoute \<and> status resp = 202"
    by (simp add: gate_routes)
  from serve_accepted [OF assms this] obtain req :: checkin_req and evt where
    "bindCheckin json_gin (c_body chk_request) = Inr req"
    "CheckIn (NewService (5 * Minute)) (at_gate 1000000000000 ''u1'') registered_db (r_user req) (r_device req)
       (r_location req) (r_image req) = (Inr evt, api_db st')"
    "api_queue st' = snd (push_list \<lparr>Type = ''checkin'', Body = ID evt\<rparr> (\<lambda>_. []))"
    by auto
  then have "api_db st' = stored_db" "ID evt = ''u1''"
    "api_queue st' = snd (push_list \<lparr>Type = ''checkin'', Body = ID evt\<rparr> (\<lambda>_. []))"
    using gate_checkin_result by (auto simp: chk_body gate_checkin_def)
  with code show ?thesis by (simp add: push_list_def one_message_def checkin_msg_def)
qed

lemma one_message_delivered:
  "runs (redis_step list_server (NewRedisQueue ''attendance:checkins'')) one_message
     [Delivered (checkin_msg ''u1'')] (\<lambda>_. [])"
proof (rule runs_single [of "redis_step list_server (NewRedisQueue ''attendance:checkins'')"])
  have "clean (checkin_msg ''u1'')"
    unfolding checkin_msg_def by (rule checkin_clean) (simp add: valid_utf8_ascii ascii_def)
  then have "deserialize (serialize (checkin_msg ''u1'')) = Inr (checkin_msg ''u1'')" by (rule roundtrip_clean)
  then show "redis_step list_server (NewRedisQueue ''attendance:checkins'') one_message (Delivered (checkin_msg ''u1'')) (\<lambda>_. [])"
    by (intro redis_deliver [where rep = "Popped [''attendance:checkins'', serialize (checkin_msg ''u1'')]"])
      (auto simp: one_message_def NewRedisQueue_def brpop_iter_value)
qed


end
